(* ===== verification/Prelude.thy ===== *)
theory Prelude
  imports Main "HOL-Library.Multiset"
begin

text \<open>
  Shared vocabulary of the development.

  \<^item> Go functions that return \<open>(value, error)\<close> and change the world are programs
    \<open>'s \<Rightarrow> ('e + 'a) \<times> 's\<close>: \<open>Inl\<close> is the non-nil error, \<open>Inr\<close> the value. The early
    return \<open>if err != nil { return err }\<close> is \<open>bindE\<close>, a \<open>for ... range\<close> loop with such a
    return in its body is \<open>forE\<close>.
  \<^item> \<open>hoare P m Q E\<close> is total correctness of such a program: from a state with \<open>P\<close> it either
    returns \<open>x\<close> in a state with \<open>Q x\<close> or fails with \<open>e\<close> in a state with \<open>E e\<close>. Its rules are
    collected in \<open>wp\<close>.
  \<^item> \<open>upd_where\<close> and \<open>hits\<close> read the SQL statement \<open>UPDATE ... SET f WHERE P\<close> on a table that
    is a list of rows; their lemmas are collected in \<open>sql\<close>.
  \<^item> \<open>wrap64\<close> is the value a Go \<open>int\<close> or \<open>time.Duration\<close> keeps of an exact integer result.
\<close>

named_theorems wp \<open>rules for \<open>hoare\<close>\<close>
named_theorems run \<open>unfolding rules that execute a program\<close>
named_theorems sql \<open>lemmas on rows selected and updated by a predicate\<close>

section \<open>Programs with state and errors\<close>

type_synonym ('s, 'e, 'a) prog = "'s \<Rightarrow> ('e + 'a) \<times> 's"

definition ret :: "'a \<Rightarrow> ('s, 'e, 'a) prog" where
  "ret x s = (Inr x, s)"

definition raise :: "'e \<Rightarrow> ('s, 'e, 'a) prog" where
  "raise e s = (Inl e, s)"

definition bindE :: "('s, 'e, 'a) prog \<Rightarrow> ('a \<Rightarrow> ('s, 'e, 'b) prog) \<Rightarrow> ('s, 'e, 'b) prog" where
  "bindE m f s = (case m s of (Inl e, t) \<Rightarrow> (Inl e, t) | (Inr x, t) \<Rightarrow> f x t)"

primrec forE :: "'b list \<Rightarrow> ('b \<Rightarrow> ('s, 'e, unit) prog) \<Rightarrow> ('s, 'e, unit) prog" where
  "forE [] f = ret ()"
| "forE (x # xs) f = bindE (f x) (\<lambda>_. forE xs f)"

definition map_err :: "('e \<Rightarrow> 'f) \<Rightarrow> ('s, 'e, 'a) prog \<Rightarrow> ('s, 'f, 'a) prog" where
  "map_err h m s = (case m s of (Inl e, t) \<Rightarrow> (Inl (h e), t) | (Inr x, t) \<Rightarrow> (Inr x, t))"

lemma ret_apply [run]: "ret x s = (Inr x, s)"
  by (simp add: ret_def)

lemma raise_apply [run]: "raise e s = (Inl e, s)"
  by (simp add: raise_def)

lemma bindE_ret [simp]: "bindE (ret x) f = f x"
  by (simp add: bindE_def fun_eq_iff ret_def)

lemma bindE_raise [simp]: "bindE (raise e) f = raise e"
  by (simp add: bindE_def fun_eq_iff raise_def)

lemma bindE_assoc: "bindE (bindE m f) g = bindE m (\<lambda>x. bindE (f x) g)"
  by (auto simp: bindE_def fun_eq_iff split: prod.splits sum.splits)

lemma bindE_Inr: "bindE m f s = (Inr y, u) \<longleftrightarrow> (\<exists>x t. m s = (Inr x, t) \<and> f x t = (Inr y, u))"
  by (auto simp: bindE_def split: prod.splits sum.splits)

lemma bindE_Inl:
  "bindE m f s = (Inl e, u) \<longleftrightarrow>
     m s = (Inl e, u) \<or> (\<exists>x t. m s = (Inr x, t) \<and> f x t = (Inl e, u))"
  by (auto simp: bindE_def split: prod.splits sum.splits)

lemma map_err_Inr [simp]: "map_err h m s = (Inr x, t) \<longleftrightarrow> m s = (Inr x, t)"
  by (auto simp: map_err_def split: prod.splits sum.splits)

lemma map_err_Inl: "map_err h m s = (Inl f, t) \<longleftrightarrow> (\<exists>e. m s = (Inl e, t) \<and> f = h e)"
  by (auto simp: map_err_def split: prod.splits sum.splits)

section \<open>Total correctness\<close>

definition hoare ::
  "('s \<Rightarrow> bool) \<Rightarrow> ('s, 'e, 'a) prog \<Rightarrow> ('a \<Rightarrow> 's \<Rightarrow> bool) \<Rightarrow> ('e \<Rightarrow> 's \<Rightarrow> bool) \<Rightarrow> bool" where
  "hoare P m Q E \<longleftrightarrow>
     (\<forall>s. P s \<longrightarrow> (case m s of (Inr x, t) \<Rightarrow> Q x t | (Inl e, t) \<Rightarrow> E e t))"

lemma hoareI:
  assumes "\<And>s x t. P s \<Longrightarrow> m s = (Inr x, t) \<Longrightarrow> Q x t"
    and "\<And>s e t. P s \<Longrightarrow> m s = (Inl e, t) \<Longrightarrow> E e t"
  shows "hoare P m Q E"
  using assms unfolding hoare_def by (auto split: prod.splits sum.splits)

lemma hoare_Inr: "hoare P m Q E \<Longrightarrow> P s \<Longrightarrow> m s = (Inr x, t) \<Longrightarrow> Q x t"
  unfolding hoare_def by fastforce

lemma hoare_Inl: "hoare P m Q E \<Longrightarrow> P s \<Longrightarrow> m s = (Inl e, t) \<Longrightarrow> E e t"
  unfolding hoare_def by fastforce

lemma hoare_ret [wp]: "(\<And>s. P s \<Longrightarrow> Q x s) \<Longrightarrow> hoare P (ret x) Q E"
  by (auto intro: hoareI simp: ret_def)

lemma hoare_raise [wp]: "(\<And>s. P s \<Longrightarrow> E e s) \<Longrightarrow> hoare P (raise e) Q E"
  by (auto intro: hoareI simp: raise_def)

lemma hoare_bind [wp]:
  "hoare P m R E \<Longrightarrow> (\<And>x. hoare (R x) (f x) Q E) \<Longrightarrow> hoare P (bindE m f) Q E"
  by (rule hoareI) (auto simp: bindE_Inr bindE_Inl dest: hoare_Inr hoare_Inl)

lemma hoare_conseq:
  assumes "hoare P m Q E"
    and "\<And>s. P' s \<Longrightarrow> P s"
    and "\<And>x s. Q x s \<Longrightarrow> Q' x s"
    and "\<And>e s. E e s \<Longrightarrow> E' e s"
  shows "hoare P' m Q' E'"
  using assms by (blast intro: hoareI dest: hoare_Inr hoare_Inl)

lemma hoare_if [wp]:
  "(b \<Longrightarrow> hoare P m Q E) \<Longrightarrow> (\<not> b \<Longrightarrow> hoare P n Q E) \<Longrightarrow> hoare P (if b then m else n) Q E"
  by simp

lemma hoare_map_err [wp]:
  "hoare P m Q (\<lambda>e. E (h e)) \<Longrightarrow> hoare P (map_err h m) Q E"
  by (rule hoareI) (auto simp: map_err_Inl dest: hoare_Inr hoare_Inl)

text \<open>A loop keeps what each of its rounds keeps.\<close>

lemma hoare_for [wp]:
  assumes "\<And>x. x \<in> set xs \<Longrightarrow> hoare I (f x) (\<lambda>_. I) E"
  shows "hoare I (forE xs f) (\<lambda>_. I) E"
  using assms by (induction xs) (auto intro!: wp)

text \<open>The loop with the work done so far as an argument of the invariant.\<close>

lemma hoare_for_prefix:
  assumes "\<And>ys x zs. xs = ys @ x # zs \<Longrightarrow> hoare (I ys) (f x) (\<lambda>_. I (ys @ [x])) E"
  shows "hoare (I []) (forE xs f) (\<lambda>_. I xs) E"
proof -
  have "hoare (I ys) (forE zs f) (\<lambda>_. I xs) E" if "xs = ys @ zs" for ys zs
    using that
  proof (induction zs arbitrary: ys)
    case Nil
    then show ?case by (auto intro: wp)
  next
    case (Cons z zs)
    then have "hoare (I ys) (f z) (\<lambda>_. I (ys @ [z])) E"
      using assms by blast
    moreover have "hoare (I (ys @ [z])) (forE zs f) (\<lambda>_. I xs) E"
      using Cons by simp
    ultimately show ?case by (auto intro: wp)
  qed
  from this [of "[]" xs] show ?thesis by simp
qed

section \<open>Rows selected by a predicate\<close>

definition hits :: "('r \<Rightarrow> bool) \<Rightarrow> 'r list \<Rightarrow> nat" where
  "hits P rs = length (filter P rs)"

definition upd_where :: "('r \<Rightarrow> bool) \<Rightarrow> ('r \<Rightarrow> 'r) \<Rightarrow> 'r list \<Rightarrow> 'r list" where
  "upd_where P f rs = map (\<lambda>r. if P r then f r else r) rs"

lemma upd_where_simps [simp]:
  "upd_where P f [] = []"
  "upd_where P f (r # rs) = (if P r then f r else r) # upd_where P f rs"
  by (simp_all add: upd_where_def)

lemma hits_simps [simp]:
  "hits P [] = 0"
  "hits P (r # rs) = (if P r then Suc (hits P rs) else hits P rs)"
  by (simp_all add: hits_def)

lemma length_upd_where [simp]: "length (upd_where P f rs) = length rs"
  by (simp add: upd_where_def)

lemma map_upd_where [sql]:
  "(\<And>r. P r \<Longrightarrow> k (f r) = k r) \<Longrightarrow> map k (upd_where P f rs) = map k rs"
  by (induction rs) auto

lemma upd_where_none [sql]: "hits P rs = 0 \<Longrightarrow> upd_where P f rs = rs"
  by (induction rs) (auto split: if_splits)

lemma set_upd_where [sql]:
  "set (upd_where P f rs) = f ` {r \<in> set rs. P r} \<union> {r \<in> set rs. \<not> P r}"
  by (auto simp: upd_where_def)

lemma in_upd_where [sql]:
  "x \<in> set (upd_where P f rs) \<longleftrightarrow> (\<exists>r \<in> set rs. x = (if P r then f r else r))"
  by (auto simp: upd_where_def)

lemma hits_0_iff [sql]: "hits P rs = 0 \<longleftrightarrow> (\<forall>r \<in> set rs. \<not> P r)"
  by (auto simp: hits_def filter_empty_conv)

text \<open>A predicate on a unique column selects at most one row.\<close>

lemma hits_distinct [sql]:
  assumes "distinct (map k rs)" and "\<And>r. P r \<Longrightarrow> k r = x"
  shows "hits P rs \<le> 1"
  using assms
proof (induction rs)
  case Nil
  then show ?case by simp
next
  case (Cons r rs)
  show ?case
  proof (cases "P r")
    case True
    have "hits P rs = 0"
      unfolding hits_0_iff using Cons.prems True by (auto simp: rev_image_eqI)
    with True show ?thesis by simp
  next
    case False
    with Cons show ?thesis by simp
  qed
qed

lemma hits_1_distinct [sql]:
  assumes "distinct (map k rs)" and "\<And>r. P r \<Longrightarrow> k r = x"
  shows "hits P rs = 1 \<longleftrightarrow> (\<exists>r \<in> set rs. P r)"
proof
  assume "hits P rs = 1"
  then have "hits P rs \<noteq> 0" by simp
  then show "\<exists>r \<in> set rs. P r" by (auto simp: hits_0_iff)
next
  assume "\<exists>r \<in> set rs. P r"
  then have "hits P rs \<noteq> 0" by (auto simp: hits_0_iff)
  moreover have "hits P rs \<le> 1" using assms by (rule hits_distinct)
  ultimately show "hits P rs = 1" by simp
qed

lemma list_ex_key [sql]: "list_ex (\<lambda>r. k r = x) rs \<longleftrightarrow> x \<in> set (map k rs)"
  by (auto simp: list_ex_iff)

lemma find_key:
  assumes "distinct (map k rs)" and "r \<in> set rs"
  shows "find (\<lambda>q. k q = k r) rs = Some r"
  using assms by (induction rs) (auto simp: rev_image_eqI)

lemma distinct_map_eqD:
  "distinct (map k rs) \<Longrightarrow> r \<in> set rs \<Longrightarrow> r' \<in> set rs \<Longrightarrow> k r = k r' \<Longrightarrow> r = r'"
  by (auto simp: distinct_map dest: inj_onD)

lemma filter_unique:
  assumes "distinct (map k rs)" and "r \<in> set rs"
  shows "filter (\<lambda>x. k x = k r) rs = [r]"
  using assms
proof (induction rs)
  case Nil
  then show ?case by simp
next
  case (Cons a rs)
  then show ?case
    by (cases "a = r") (auto simp: filter_empty_conv rev_image_eqI)
qed

section \<open>64-bit integers\<close>

definition wrap64 :: "int \<Rightarrow> int" where
  "wrap64 x = (x + 2 ^ 63) mod 2 ^ 64 - 2 ^ 63"

definition in_int64 :: "int \<Rightarrow> bool" where
  "in_int64 x \<longleftrightarrow> - (2 ^ 63) \<le> x \<and> x < 2 ^ 63"

lemma in_int64_wrap64 [simp]: "in_int64 (wrap64 x)"
  by (auto simp: in_int64_def wrap64_def)

lemma wrap64_id [simp]: "in_int64 x \<Longrightarrow> wrap64 x = x"
  by (simp add: in_int64_def wrap64_def)

text \<open>Go's integer division truncates towards zero.\<close>

definition go_div :: "int \<Rightarrow> int \<Rightarrow> int" where
  "go_div a b = sgn a * sgn b * (\<bar>a\<bar> div \<bar>b\<bar>)"

lemma go_div_nonneg: "0 \<le> a \<Longrightarrow> 0 < b \<Longrightarrow> go_div a b = a div b"
  by (auto simp: go_div_def sgn_if)

section \<open>Sorting by a key\<close>

text \<open>
  \<open>sort.Slice\<close> promises a permutation ordered by the given comparison and nothing about equal
  keys. Where the keys are distinct there is exactly one such list, so every sorting algorithm
  computes it.
\<close>

lemma sorted_key_unique:
  assumes mset: "mset xs = mset ys" and "sorted (map k xs)" and "sorted (map k ys)"
    and "distinct (map k xs)"
  shows "xs = ys"
proof -
  have "mset (map k xs) = mset (map k ys)" using mset by simp
  with assms(4) have dist: "distinct (map k ys)" by (metis mset_eq_imp_distinct_iff)
  have set: "set xs = set ys" using mset by (rule mset_eq_setD)
  have "filter (\<lambda>x. k r = k x) xs = filter (\<lambda>x. k r = k x) ys" if "r \<in> set xs" for r
    using filter_unique [OF assms(4) that] filter_unique [OF dist, of r] that set
    by (simp add: eq_commute)
  then have "sort_key k ys = xs"
    using mset assms(2) by (intro properties_for_sort_key) auto
  also have "sort_key k ys = ys" using assms(3) by (simp add: sort_key_id_if_sorted)
  finally show ?thesis by simp
qed

lemma sort_key_perm:
  assumes "mset xs = mset ys" and "distinct (map k xs)"
  shows "sort_key k xs = sort_key k ys"
proof (rule sorted_key_unique [where k = k])
  show "mset (sort_key k xs) = mset (sort_key k ys)" using assms(1) by simp
  show "sorted (map k (sort_key k xs))" by simp
  show "sorted (map k (sort_key k ys))" by simp
  show "distinct (map k (sort_key k xs))"
    using assms(2) by (simp add: distinct_map)
qed

lemma sorted_distinct_strict:
  "sorted xs \<Longrightarrow> distinct xs \<Longrightarrow> sorted_wrt (<) (xs :: 'a :: linorder list)"
  by (simp add: strict_sorted_iff)

end
