(* ===== verification/Strconv.thy ===== *)
theory Strconv
  imports Prelude
begin

text \<open>
  Decimal conversions of Go's \<open>strconv\<close> as the repository uses them: \<open>strconv.Itoa\<close> in the
  idempotency key and in every \<open>%d\<close> of a message, \<open>strconv.Atoi\<close> on path parameters. \<open>Atoi\<close>
  takes an optional sign and a non-empty run of decimal digits and fails on anything else and on
  a value outside 64 bits; \<open>Atoi_Itoa\<close> is the round trip.
\<close>

definition digit :: "nat \<Rightarrow> char" where
  "digit n = char_of (48 + n)"

definition digit_val :: "char \<Rightarrow> nat" where
  "digit_val c = of_char c - 48"

definition is_digit :: "char \<Rightarrow> bool" where
  "is_digit c \<longleftrightarrow> 48 \<le> (of_char c :: nat) \<and> (of_char c :: nat) \<le> 57"

fun decimal :: "nat \<Rightarrow> string" where
  "decimal n = (if n < 10 then [digit n] else decimal (n div 10) @ [digit (n mod 10)])"

declare decimal.simps [simp del]

definition Itoa :: "int \<Rightarrow> string" where
  "Itoa i = (if i < 0 then CHR ''-'' # decimal (nat (- i)) else decimal (nat i))"

definition digits_val :: "string \<Rightarrow> nat" where
  "digits_val s = foldl (\<lambda>a c. 10 * a + digit_val c) 0 s"

definition Atoi :: "string \<Rightarrow> int option" where
  "Atoi s =
     (let sgn = (case s of c # _ \<Rightarrow> c = CHR ''-'' \<or> c = CHR ''+'' | [] \<Rightarrow> False);
          neg = (case s of c # _ \<Rightarrow> c = CHR ''-'' | [] \<Rightarrow> False);
          ds = (if sgn then tl s else s);
          v = (if neg then - int (digits_val ds) else int (digits_val ds))
      in if ds \<noteq> [] \<and> list_all is_digit ds \<and> in_int64 v then Some v else None)"

lemma of_char_digit [simp]: "n < 10 \<Longrightarrow> (of_char (digit n) :: nat) = 48 + n"
  by (simp add: digit_def)

lemma is_digit_digit [simp]: "n < 10 \<Longrightarrow> is_digit (digit n)"
  by (simp add: is_digit_def)

lemma digit_val_digit [simp]: "n < 10 \<Longrightarrow> digit_val (digit n) = n"
  by (simp add: digit_val_def)

lemma decimal_nonempty [simp]: "decimal n \<noteq> []"
  by (subst decimal.simps) simp

lemma list_all_is_digit_decimal [simp]: "list_all is_digit (decimal n)"
proof (induction n rule: decimal.induct)
  case (1 n)
  then show ?case by (subst decimal.simps) auto
qed

lemma is_digit_in_decimal: "c \<in> set (decimal n) \<Longrightarrow> is_digit c"
  using list_all_is_digit_decimal [of n] by (auto simp: list_all_iff)

lemma digits_val_decimal [simp]: "digits_val (decimal n) = n"
proof (induction n rule: decimal.induct)
  case (1 n)
  show ?case
  proof (cases "n < 10")
    case True
    then show ?thesis by (simp add: decimal.simps [of n] digits_val_def)
  next
    case False
    with 1 have "foldl (\<lambda>a c. 10 * a + digit_val c) 0 (decimal (n div 10)) = n div 10"
      by (simp add: digits_val_def)
    with False show ?thesis by (simp add: decimal.simps [of n] digits_val_def)
  qed
qed

lemma decimal_inject [simp]: "decimal m = decimal n \<longleftrightarrow> m = n"
  by (metis digits_val_decimal)

lemma sign_not_digit: "is_digit c \<Longrightarrow> c \<noteq> CHR ''-'' \<and> c \<noteq> CHR ''+''"
  by (auto simp: is_digit_def)

lemma decimal_Cons: "\<exists>c cs. decimal n = c # cs \<and> is_digit c"
  using decimal_nonempty [of n] list_all_is_digit_decimal [of n]
  by (cases "decimal n") auto

lemma Itoa_nonempty [simp]: "Itoa i \<noteq> []"
  by (simp add: Itoa_def)

lemma Itoa_chars: "c \<in> set (Itoa i) \<Longrightarrow> is_digit c \<or> c = CHR ''-''"
  by (auto simp: Itoa_def is_digit_in_decimal split: if_splits)

lemma Atoi_decimal: "in_int64 (int n) \<Longrightarrow> Atoi (decimal n) = Some (int n)"
  using decimal_Cons [of n] list_all_is_digit_decimal [of n] digits_val_decimal [of n] sign_not_digit
  by (fastforce simp: Atoi_def Let_def)

lemma Atoi_Itoa: "in_int64 i \<Longrightarrow> Atoi (Itoa i) = Some i"
proof (cases "i < 0")
  case True
  assume "in_int64 i"
  with True show ?thesis by (simp add: Itoa_def Atoi_def Let_def)
next
  case False
  assume "in_int64 i"
  with False show ?thesis using Atoi_decimal [of "nat i"] by (simp add: Itoa_def)
qed

lemma Itoa_inject [simp]: "Itoa i = Itoa j \<longleftrightarrow> i = j"
proof
  assume eq: "Itoa i = Itoa j"
  obtain c cs d ds where "decimal (nat i) = c # cs" "is_digit c"
    and "decimal (nat j) = d # ds" "is_digit d"
    using decimal_Cons by metis
  with eq sign_not_digit show "i = j"
    unfolding Itoa_def by (metis decimal_inject eq_nat_nat_iff int_nat_eq linorder_not_less
        list.inject neg_less_0_iff_less neg_equal_iff_equal order_less_imp_le)
qed simp

lemma Atoi_in_int64: "Atoi s = Some i \<Longrightarrow> in_int64 i"
  by (auto simp: Atoi_def Let_def split: if_splits)

text \<open>
  Two decimal numbers followed by a character that no decimal contains are equal when the texts
  are equal: the fact behind every unambiguous key built with a separator.
\<close>

lemma Itoa_append_sep:
  assumes "Itoa i @ c # s = Itoa j @ d # t"
    and "\<not> is_digit c" "c \<noteq> CHR ''-''" and "\<not> is_digit d" "d \<noteq> CHR ''-''"
  shows "i = j \<and> c = d \<and> s = t"
proof -
  have tw: "takeWhile (\<lambda>x. is_digit x \<or> x = CHR ''-'') (Itoa k @ x # r) = Itoa k"
    if "\<not> is_digit x" "x \<noteq> CHR ''-''" for k x r
    using that Itoa_chars [of _ k] by (subst takeWhile_append2) auto
  have "Itoa i = Itoa j"
    using tw [OF assms(2,3), of i s] tw [OF assms(4,5), of j t] assms(1) by simp
  with assms(1) show ?thesis by simp
qed

end
