(* ===== verification/Float64.thy ===== *)
theory Float64
  imports Prelude "HOL-Library.Log_Nat" Complex_Main
begin

text \<open>
  Go's \<open>float64\<close> as the repository uses it. Prices and totals are finite values, so a
  \<open>float64\<close> is the rational it denotes, and an arithmetic operation is the exact operation
  followed by \<open>fl\<close>: rounding to the nearest binary64 value, ties to even, with gradual
  underflow below \<open>2\<^sup>-\<^sup>1\<^sup>0\<^sup>2\<^sup>2\<close>. The exponent is not bounded above: the only sink of a computed total
  is a \<open>NUMERIC(12,2)\<close> column, which refuses every value of \<open>10\<^sup>1\<^sup>0\<close> and more and so refuses the
  infinity that binary64 would produce there as well. A sum of products is evaluated with one
  rounding per operation (no fused multiply-add, as the amd64 compiler does).

  \<open>fl_rel_error\<close> bounds the rounding error and \<open>fl_int\<close> shows that integers below \<open>2\<^sup>5\<^sup>3\<close> are
  exact.
\<close>

type_synonym float64 = rat

definition pow2 :: "int \<Rightarrow> rat" where
  "pow2 e = (if 0 \<le> e then 2 ^ nat e else 1 / 2 ^ nat (- e))"

definition round_half_even :: "rat \<Rightarrow> int" where
  "round_half_even x =
     (let f = \<lfloor>x\<rfloor>; r = x - of_int f
      in if r < 1 / 2 then f else if 1 / 2 < r then f + 1 else if even f then f else f + 1)"

definition ilog2 :: "rat \<Rightarrow> int" where
  "ilog2 x =
     (let k = bitlen (fst (quotient_of x)) - bitlen (snd (quotient_of x))
      in if pow2 k \<le> x then k else k - 1)"

definition ulp :: "rat \<Rightarrow> rat" where
  "ulp x = pow2 (max (ilog2 \<bar>x\<bar> - 52) (-1074))"

definition fl :: "rat \<Rightarrow> float64" where
  "fl x = (if x = 0 then 0 else of_int (round_half_even (x / ulp x)) * ulp x)"

definition f_add :: "float64 \<Rightarrow> float64 \<Rightarrow> float64" where
  "f_add x y = fl (x + y)"

definition f_mul :: "float64 \<Rightarrow> float64 \<Rightarrow> float64" where
  "f_mul x y = fl (x * y)"

definition f_of_int :: "int \<Rightarrow> float64" where
  "f_of_int n = fl (of_int n)"

lemma pow2_pos [simp]: "0 < pow2 e"
  by (simp add: pow2_def)

lemma pow2_nonneg [simp]: "0 \<le> pow2 e"
  by (simp add: less_imp_le)

lemma pow2_nonzero [simp]: "pow2 e \<noteq> 0"
  by (simp add: pow2_def)

lemma pow2_powi: "pow2 e = 2 powi e"
  by (simp add: pow2_def power_int_def field_simps)

lemma pow2_add: "pow2 (a + b) = pow2 a * pow2 b"
  by (simp add: pow2_powi power_int_add)

lemma pow2_diff: "pow2 (a - b) = pow2 a / pow2 b"
  by (simp add: pow2_powi power_int_diff)

lemma pow2_mono: "a \<le> b \<Longrightarrow> pow2 a \<le> pow2 b"
  by (simp add: pow2_powi power_int_increasing)

lemma pow2_less_iff: "pow2 a < pow2 b \<longleftrightarrow> a < b"
proof
  assume "pow2 a < pow2 b"
  then show "a < b" using pow2_mono [of b a] by linarith
next
  assume "a < b"
  then show "pow2 a < pow2 b" by (simp add: pow2_powi power_int_strict_increasing)
qed

lemma pow2_nat: "0 \<le> e \<Longrightarrow> pow2 e = 2 ^ nat e"
  by (simp add: pow2_def)

lemma round_half_even_error: "\<bar>of_int (round_half_even x) - x\<bar> \<le> 1 / 2"
proof -
  have "of_int \<lfloor>x\<rfloor> \<le> x" "x < of_int \<lfloor>x\<rfloor> + 1" by linarith+
  then show ?thesis
    unfolding round_half_even_def Let_def by (auto simp: abs_le_iff)
qed

lemma round_half_even_int [simp]: "round_half_even (of_int n) = n"
  by (simp add: round_half_even_def)

lemma bitlen_pow2_bounds:
  assumes "0 < n"
  shows "pow2 (bitlen n - 1) \<le> of_int n" and "of_int n < pow2 (bitlen n)"
proof -
  have b: "0 < bitlen n" using assms by (simp add: bitlen_def floorlog_def add_pos_nonneg)
  have lo: "2 ^ nat (bitlen n - 1) \<le> n" and hi: "n < 2 ^ nat (bitlen n)"
    using bitlen_bounds [OF assms] by auto
  from lo have "(of_int (2 ^ nat (bitlen n - 1)) :: rat) \<le> of_int n" by (simp only: of_int_le_iff)
  then show "pow2 (bitlen n - 1) \<le> of_int n" using b by (simp add: pow2_nat)
  from hi have "(of_int n :: rat) < of_int (2 ^ nat (bitlen n))" by (simp only: of_int_less_iff)
  then show "of_int n < pow2 (bitlen n)" using b by (simp add: pow2_nat)
qed

lemma ilog2_bounds:
  assumes "0 < x"
  shows "pow2 (ilog2 x) \<le> x" and "x < pow2 (ilog2 x + 1)"
proof -
  obtain a b where q: "quotient_of x = (a, b)" by (cases "quotient_of x")
  have b: "0 < b" and x: "x = of_int a / of_int b"
    using q quotient_of_denom_pos quotient_of_div by blast+
  with assms have a: "0 < a" by (simp add: zero_less_divide_iff)
  let ?k = "bitlen a - bitlen b"
  have "pow2 (bitlen a - 1) * of_int b < of_int a * pow2 (bitlen b)"
    using bitlen_pow2_bounds [OF a] bitlen_pow2_bounds [OF b] a b
    by (intro mult_le_less_imp_less) auto
  then have lo: "pow2 (?k - 1) < x"
    using b pow2_add [of 1 "bitlen b"] by (simp add: x pow2_diff field_simps)
  have "of_int a * pow2 (bitlen b - 1) < pow2 (bitlen a) * of_int b"
    using bitlen_pow2_bounds [OF a] bitlen_pow2_bounds [OF b] a b
    by (intro mult_less_le_imp_less) auto
  then have hi: "x < pow2 (?k + 1)"
    using b pow2_add [of "?k" 1] by (simp add: x pow2_diff field_simps)
  have l: "ilog2 x = (if pow2 ?k \<le> x then ?k else ?k - 1)"
    by (simp add: ilog2_def q Let_def)
  show "pow2 (ilog2 x) \<le> x" using l lo by simp
  show "x < pow2 (ilog2 x + 1)" using l hi by simp
qed

lemma ulp_pos [simp]: "0 < ulp x"
  by (simp add: ulp_def)

lemma ulp_nonzero [simp]: "ulp x \<noteq> 0"
  by (simp add: ulp_def)

lemma fl_0 [simp]: "fl 0 = 0"
  by (simp add: fl_def)

lemma fl_abs_error: "\<bar>fl x - x\<bar> \<le> ulp x / 2"
proof (cases "x = 0")
  case True
  then show ?thesis using ulp_pos [of x] by (simp add: less_imp_le)
next
  case False
  have "\<bar>of_int (round_half_even (x / ulp x)) - x / ulp x\<bar> * ulp x \<le> 1 / 2 * ulp x"
    using round_half_even_error by (intro mult_right_mono) (auto simp: less_imp_le)
  moreover have "(of_int (round_half_even (x / ulp x)) - x / ulp x) * ulp x = fl x - x"
    using False ulp_pos [of x] by (simp add: fl_def field_simps)
  ultimately show ?thesis
    by (metis abs_mult abs_of_pos mult.commute mult.right_neutral times_divide_eq_right ulp_pos)
qed

text \<open>In the normal range the relative error of one rounding is at most \<open>2\<^sup>-\<^sup>5\<^sup>3\<close>.\<close>

lemma fl_rel_error:
  assumes "pow2 (-1022) \<le> \<bar>x\<bar>"
  shows "\<bar>fl x - x\<bar> \<le> \<bar>x\<bar> * pow2 (-53)"
proof -
  have x: "0 < \<bar>x\<bar>" using assms pow2_pos [of "-1022"] by linarith
  have "pow2 (-1022) < pow2 (ilog2 \<bar>x\<bar> + 1)"
    using assms ilog2_bounds(2) [OF x] by linarith
  then have "-1022 \<le> ilog2 \<bar>x\<bar>" by (simp add: pow2_less_iff)
  then have "ulp x = pow2 (ilog2 \<bar>x\<bar> - 52)" by (simp add: ulp_def max_absorb1)
  also have "\<dots> = pow2 (ilog2 \<bar>x\<bar>) * pow2 (-52)" using pow2_add [of _ "-52"] by simp
  finally have "ulp x / 2 = pow2 (ilog2 \<bar>x\<bar>) * pow2 (-53)"
    using pow2_add [of "-53" 1] by (simp add: pow2_def)
  also have "\<dots> \<le> \<bar>x\<bar> * pow2 (-53)"
    using ilog2_bounds(1) [OF x] by (intro mult_right_mono) auto
  finally show ?thesis using fl_abs_error [of x] by linarith
qed

lemma fl_exact:
  assumes "x = of_int n * ulp x"
  shows "fl x = x"
proof (cases "x = 0")
  case False
  have "x / ulp x = of_int n"
    using assms by (metis nonzero_mult_div_cancel_right ulp_nonzero)
  then have "fl x = of_int n * ulp x" using False by (simp add: fl_def)
  then show ?thesis using assms by simp
qed simp

lemma fl_int:
  assumes "\<bar>n\<bar> < 2 ^ 53"
  shows "fl (of_int n) = of_int n"
proof (cases "n = 0")
  case False
  let ?x = "of_int n :: rat"
  let ?e = "ilog2 \<bar>?x\<bar>"
  have x: "0 < \<bar>?x\<bar>" using False by simp
  have "(of_int \<bar>n\<bar> :: rat) < of_int (2 ^ 53)" using assms by (simp only: of_int_less_iff)
  then have "\<bar>?x\<bar> < pow2 53" by (simp add: pow2_def)
  then have hi: "?e < 53" using ilog2_bounds(1) [OF x] pow2_less_iff [of ?e 53] by linarith
  have "1 \<le> \<bar>n\<bar>" using False by simp
  then have "(of_int 1 :: rat) \<le> of_int \<bar>n\<bar>" by (simp only: of_int_le_iff)
  then have "pow2 0 < pow2 (?e + 1)" using ilog2_bounds(2) [OF x] by (simp add: pow2_def)
  then have lo: "0 \<le> ?e" by (simp add: pow2_less_iff)
  have "ulp ?x = pow2 (?e - 52)" using lo by (simp add: ulp_def max_def)
  moreover have "pow2 (?e - 52) * 2 ^ nat (52 - ?e) = 1"
    using hi pow2_add [of "?e - 52" "52 - ?e"] by (simp add: pow2_nat)
  ultimately have "?x = of_int (n * 2 ^ nat (52 - ?e)) * ulp ?x" by (simp add: mult_ac)
  then show ?thesis by (rule fl_exact)
qed simp

lemma f_of_int_exact: "\<bar>n\<bar> < 2 ^ 53 \<Longrightarrow> f_of_int n = of_int n"
  by (simp add: f_of_int_def fl_int)

end
