(* ===== verification/Models.thy ===== *)
theory Models
  imports Strconv Float64
begin

text \<open>
  The data of the program: \<open>internal/models\<close> (rows and in-memory structs), \<open>internal/apperrors\<close>,
  the parts of \<open>internal/config\<close> the workers read and the request and response structs of
  \<open>internal/dto\<close> for orders, products and users.

  A Go struct is a record whose fields carry the struct's name, a string enum the code only uses
  through its constants is a datatype, and a string type that takes client input (\<open>UserRole\<close>)
  stays a string. A \<open>time.Time\<close> is an \<open>int\<close> (nanoseconds, 0 the zero time), a
  \<open>time.Duration\<close> an \<open>int\<close> (nanoseconds), a pointer that may be nil an \<open>option\<close>. The associations \<open>Order.User\<close>,
  \<open>OrderItem.Product\<close>, \<open>Payment.Order\<close>, \<open>Notification.Order\<close> and \<open>Inventory.Product\<close> are never
  filled by the code and have no field.
\<close>

section \<open>Errors\<close>

text \<open>
  The sentinels and error types of \<open>apperrors\<close>, the errors of gorm that the code can tell apart
  or that a statement of the code can cause, and \<open>DriverError\<close> for every other error of a service
  (a lost connection, an expired context, a value the driver cannot encode). A run-time panic that
  unwinds the call, which is not an error value in Go, is \<open>GoPanic\<close>.
\<close>

datatype go_error =
    ErrUserNotFound
  | ErrOrderNotFound
  | ErrDuplicateOrder
  | ErrDuplicateLineItem
  | ErrInvalidCredentials
  | ErrNoPendingPayment
  | ProductNotFoundError int
  | InsufficientStockError int
  | ErrRecordNotFound
  | ErrForeignKeyViolated
  | ErrDuplicatedKey
  | ErrCheckConstraintViolated
  | ErrEmptySlice
  | DriverError string
  | GoPanic string

text \<open>\<open>Error()\<close>: the text of an error in the JSON body of a failed request.\<close>

fun error_text :: "go_error \<Rightarrow> string" where
  "error_text ErrUserNotFound = ''user not found''"
| "error_text ErrOrderNotFound = ''order not found''"
| "error_text ErrDuplicateOrder = ''duplicate order''"
| "error_text ErrDuplicateLineItem = ''duplicate line item''"
| "error_text ErrInvalidCredentials = ''invalid email or password''"
| "error_text ErrNoPendingPayment = ''no pending payment for order''"
| "error_text (ProductNotFoundError p) = ''product '' @ Itoa p @ '' not found''"
| "error_text (InsufficientStockError p) = ''insufficient stock for product '' @ Itoa p"
| "error_text ErrRecordNotFound = ''record not found''"
| "error_text ErrForeignKeyViolated = ''violates foreign key constraint''"
| "error_text ErrDuplicatedKey = ''duplicated key not allowed''"
| "error_text ErrCheckConstraintViolated = ''violates check constraint''"
| "error_text ErrEmptySlice = ''empty slice found''"
| "error_text (DriverError m) = m"
| "error_text (GoPanic m) = m"

section \<open>Models\<close>

type_synonym time = int
type_synonym duration = int

definition UserRoleCustomer :: string where
  "UserRoleCustomer = ''customer''"

definition UserRoleAdmin :: string where
  "UserRoleAdmin = ''admin''"

record User =
  User_ID :: int
  User_Name :: string
  User_Email :: string
  User_Password :: string
  User_Role :: string
  User_CreatedAt :: time
  User_UpdatedAt :: time

record Inventory =
  Inventory_ID :: int
  Inventory_ProductID :: int
  Inventory_Quantity :: int
  Inventory_UpdatedAt :: time

record Product =
  Product_ID :: int
  Product_Name :: string
  Product_Image :: "string option"
  Product_Description :: "string option"
  Product_Price :: float64
  Product_Inventory :: "Inventory option"
  Product_CreatedAt :: time
  Product_UpdatedAt :: time

datatype OrderStatus =
    OrderStatusPending
  | OrderStatusConfirmed
  | OrderStatusShipped
  | OrderStatusDelivered
  | OrderStatusCancelled

record OrderItem =
  Item_ID :: int
  Item_OrderID :: int
  Item_ProductID :: int
  Item_Quantity :: int
  Item_PriceAtPurchase :: float64

record Order =
  Order_ID :: int
  Order_UserID :: int
  Order_Status :: OrderStatus
  Order_TotalPrice :: float64
  Order_Items :: "OrderItem list"
  Order_CreatedAt :: time
  Order_UpdatedAt :: time

datatype PaymentStatus =
    PaymentStatusPending
  | PaymentStatusPaid
  | PaymentStatusFailed
  | PaymentStatusRefunded

record Payment =
  Payment_ID :: int
  Payment_OrderID :: int
  Payment_IdempotencyKey :: string
  Payment_Status :: PaymentStatus
  Payment_Amount :: float64
  Payment_ProviderTxnID :: "string option"
  Payment_CreatedAt :: time
  Payment_UpdatedAt :: time

datatype NotificationStatus =
    NotificationStatusPending
  | NotificationStatusSent
  | NotificationStatusFailed

record Notification =
  Notification_ID :: int
  Notification_OrderID :: int
  Notification_Message :: string
  Notification_Status :: NotificationStatus
  Notification_CreatedAt :: time
  Notification_SentAt :: "time option"

text \<open>
  A payment or an order only ever leaves \<open>pending\<close>: the orders below say which later statuses a
  status may still become, and \<open>s \<le> t\<close> reads "a row at \<open>s\<close> may be at \<open>t\<close> later".
\<close>

instantiation PaymentStatus :: order
begin

definition less_eq_PaymentStatus :: "PaymentStatus \<Rightarrow> PaymentStatus \<Rightarrow> bool" where
  "less_eq_PaymentStatus s t \<longleftrightarrow> s = t \<or> s = PaymentStatusPending"

definition less_PaymentStatus :: "PaymentStatus \<Rightarrow> PaymentStatus \<Rightarrow> bool" where
  "less_PaymentStatus s t \<longleftrightarrow> s \<noteq> t \<and> s = PaymentStatusPending"

instance
  by standard (auto simp: less_eq_PaymentStatus_def less_PaymentStatus_def)

end

instantiation OrderStatus :: order
begin

definition less_eq_OrderStatus :: "OrderStatus \<Rightarrow> OrderStatus \<Rightarrow> bool" where
  "less_eq_OrderStatus s t \<longleftrightarrow> s = t \<or> s = OrderStatusPending"

definition less_OrderStatus :: "OrderStatus \<Rightarrow> OrderStatus \<Rightarrow> bool" where
  "less_OrderStatus s t \<longleftrightarrow> s \<noteq> t \<and> s = OrderStatusPending"

instance
  by standard (auto simp: less_eq_OrderStatus_def less_OrderStatus_def)

end

section \<open>Configuration of the workers\<close>

record WorkerConfig =
  Count :: int
  QueueSize :: int
  MaxRetries :: int
  BaseBackoff :: duration
  MaxBackoff :: duration
  AttemptTimeout :: duration
  SweepInterval :: duration
  StaleAfter :: duration
  SweepBatchSize :: int
  GatewayFailureRate :: float64
  ShutdownTimeout :: duration

section \<open>Requests and responses\<close>

record OrderItemRequest =
  Req_ProductID :: int
  Req_Quantity :: int

record CreateOrderRequest =
  Req_Items :: "OrderItemRequest list"

record OrderItemResponse =
  ItemResp_ProductID :: int
  ItemResp_Quantity :: int
  ItemResp_PriceAtPurchase :: float64

record OrderResponse =
  OrderResp_ID :: int
  OrderResp_UserID :: int
  OrderResp_Status :: OrderStatus
  OrderResp_TotalPrice :: float64
  OrderResp_Items :: "OrderItemResponse list"
  OrderResp_CreatedAt :: time
  OrderResp_UpdatedAt :: time

record ProductResponse =
  ProductResp_ID :: int
  ProductResp_Name :: string
  ProductResp_Image :: "string option"
  ProductResp_Description :: "string option"
  ProductResp_Price :: float64
  ProductResp_Quantity :: int
  ProductResp_CreatedAt :: time
  ProductResp_UpdatedAt :: time

record ProductRequest =
  ProductReq_Name :: string
  ProductReq_Image :: "string option"
  ProductReq_Description :: "string option"
  ProductReq_Price :: float64
  ProductReq_Quantity :: int

record ListProductsRequest =
  Req_Page :: int
  Req_PageSize :: int

record ListProductsResponse =
  ListResp_Items :: "ProductResponse list"
  ListResp_Total :: int
  ListResp_Page :: int
  ListResp_PageSize :: int

record InventoryResponse =
  InventoryResp_ProductID :: int
  InventoryResp_Quantity :: int
  InventoryResp_UpdatedAt :: time

end
