(* ===== verification/Database.thy ===== *)
theory Database
  imports Models
begin

text \<open>
  The PostgreSQL database as the repositories see it: the tables of \<open>migrations/*.up.sql\<close> as lists
  of rows in insertion order, their identity sequences, and the execution of statements.

  The SQL statements and the schema are text of the repository, so they are given their relational
  meaning: an \<open>UPDATE ... WHERE\<close> maps the selected rows and reports how many there were, an
  \<open>INSERT\<close> draws the identity and is refused by the first violated constraint, a transaction
  either keeps all its statements or none. What the server and the network may do beyond that is
  not under the program's control and is part of the state as a parameter:
  \<^item> \<open>replies\<close> says, statement by statement, whether the exchange with the server works. \<open>Fail\<close>
    is an error before any effect (a refused connection, an expired context, a deadlock victim);
    \<open>Lost\<close> is an effect whose acknowledgement never arrives, which matters for a commit. An
    exhausted list means that every later exchange works.
  \<^item> \<open>numeric\<close> is the driver's and the server's conversion of a \<open>float64\<close> argument to a
    \<open>NUMERIC(12,2)\<close> column, \<open>None\<close> where it is refused.
  \<^item> \<open>pg_now\<close> is the server's \<open>now()\<close>.
  Sequences are not transactional: a rollback keeps the identities drawn.
\<close>

section \<open>Tables and the state of the server\<close>

datatype table =
    T_users | T_products | T_inventory | T_orders | T_order_items | T_payments | T_notifications

record tables =
  users :: "User list"
  products :: "Product list"
  inventory :: "Inventory list"
  orders :: "Order list"
  order_items :: "OrderItem list"
  payments :: "Payment list"
  notifications :: "Notification list"

datatype reply = Ok | Fail string | Lost string

record pg =
  tbl :: tables
  seq :: "table \<Rightarrow> int"
  replies :: "reply list"
  pg_now :: time
  numeric :: "rat \<Rightarrow> rat option"

type_synonym 'a dbm = "(pg, go_error, 'a) prog"

abbreviation upd_tbl :: "(tables \<Rightarrow> tables) \<Rightarrow> pg \<Rightarrow> pg" where
  "upd_tbl f d \<equiv> d\<lparr>tbl := f (tbl d)\<rparr>"

definition int4 :: "int \<Rightarrow> bool" where
  "int4 x \<longleftrightarrow> - (2 ^ 31) \<le> x \<and> x < 2 ^ 31"

section \<open>Executing statements\<close>

definition next_reply :: "pg \<Rightarrow> reply \<times> pg" where
  "next_reply d = (case replies d of [] \<Rightarrow> (Ok, d) | r # rs \<Rightarrow> (r, d\<lparr>replies := rs\<rparr>))"

text \<open>
  A statement inside a transaction. Its integer arguments are \<open>INTEGER\<close> columns or are compared
  with one, and the driver refuses an argument that does not fit. An error of the exchange leaves
  no effect of the statement, since the transaction cannot commit any more.
\<close>

definition stmt :: "int list \<Rightarrow> 'a dbm \<Rightarrow> 'a dbm" where
  "stmt args body d =
     (case next_reply d of
        (Ok, d') \<Rightarrow>
          if list_all int4 args then body d' else (Inl (DriverError ''value out of range''), d')
      | (Fail m, d') \<Rightarrow> (Inl (DriverError m), d')
      | (Lost m, d') \<Rightarrow> (Inl (DriverError m), d'))"

text \<open>A statement on its own: its effect may survive a lost acknowledgement.\<close>

definition autocommit :: "int list \<Rightarrow> 'a dbm \<Rightarrow> 'a dbm" where
  "autocommit args body d =
     (case next_reply d of
        (Ok, d') \<Rightarrow>
          if list_all int4 args then body d' else (Inl (DriverError ''value out of range''), d')
      | (Fail m, d') \<Rightarrow> (Inl (DriverError m), d')
      | (Lost m, d') \<Rightarrow>
          (Inl (DriverError m), if list_all int4 args then snd (body d') else d'))"

text \<open>A read.\<close>

definition query :: "int list \<Rightarrow> (tables \<Rightarrow> 'a) \<Rightarrow> 'a dbm" where
  "query args f = stmt args (\<lambda>d. (Inr (f (tbl d)), d))"

definition rollback :: "pg \<Rightarrow> pg \<Rightarrow> pg" where
  "rollback before d = d\<lparr>tbl := tbl before\<rparr>"

text \<open>
  \<open>db.Transaction(func(tx) error)\<close>: begin, run the body, roll back on its error, commit
  otherwise. A commit may fail before it takes effect or lose its acknowledgement after.
\<close>

definition transaction :: "'a dbm \<Rightarrow> 'a dbm" where
  "transaction body d =
     (case stmt [] (ret ()) d of
        (Inl e, d1) \<Rightarrow> (Inl e, d1)
      | (Inr _, d1) \<Rightarrow>
          (case body d1 of
             (Inl e, d2) \<Rightarrow> (Inl e, rollback d1 d2)
           | (Inr x, d2) \<Rightarrow>
               (case next_reply d2 of
                  (Ok, d3) \<Rightarrow> (Inr x, d3)
                | (Fail m, d3) \<Rightarrow> (Inl (DriverError m), rollback d1 d3)
                | (Lost m, d3) \<Rightarrow> (Inl (DriverError m), d3))))"

section \<open>Row operations\<close>

text \<open>
  \<open>UPDATE ... SET f WHERE P\<close> on one table: refused as a whole when a changed row breaks a
  constraint, else the number of rows affected and the new table.
\<close>

definition sql_update ::
  "('r \<Rightarrow> bool) \<Rightarrow> ('r \<Rightarrow> 'r) \<Rightarrow> ('r \<Rightarrow> go_error option) \<Rightarrow> 'r list \<Rightarrow> go_error + nat \<times> 'r list"
where
  "sql_update P f chk rs =
     (case find (\<lambda>r. P r \<and> chk (f r) \<noteq> None) rs of
        Some r \<Rightarrow> Inl (the (chk (f r)))
      | None \<Rightarrow> Inr (hits P rs, upd_where P f rs))"

text \<open>Lift a row operation to the server state.\<close>

definition on_table ::
  "(tables \<Rightarrow> 'r list) \<Rightarrow> ('r list \<Rightarrow> tables \<Rightarrow> tables) \<Rightarrow> ('r list \<Rightarrow> go_error + 'a \<times> 'r list) \<Rightarrow> 'a dbm"
where
  "on_table get put f d =
     (case f (get (tbl d)) of
        Inl e \<Rightarrow> (Inl e, d)
      | Inr (x, rs) \<Rightarrow> (Inr x, upd_tbl (put rs) d))"

definition put_inventory :: "Inventory list \<Rightarrow> tables \<Rightarrow> tables" where
  "put_inventory rs t = t\<lparr>inventory := rs\<rparr>"

definition put_orders :: "Order list \<Rightarrow> tables \<Rightarrow> tables" where
  "put_orders rs t = t\<lparr>orders := rs\<rparr>"

definition put_payments :: "Payment list \<Rightarrow> tables \<Rightarrow> tables" where
  "put_payments rs t = t\<lparr>payments := rs\<rparr>"

definition put_products :: "Product list \<Rightarrow> tables \<Rightarrow> tables" where
  "put_products rs t = t\<lparr>products := rs\<rparr>"

definition put_notifications :: "Notification list \<Rightarrow> tables \<Rightarrow> tables" where
  "put_notifications rs t = t\<lparr>notifications := rs\<rparr>"

definition put_users :: "User list \<Rightarrow> tables \<Rightarrow> tables" where
  "put_users rs t = t\<lparr>users := rs\<rparr>"

text \<open>\<open>GENERATED ALWAYS AS IDENTITY\<close>.\<close>

definition nextval :: "table \<Rightarrow> int dbm" where
  "nextval T d =
     (if int4 (seq d T) then (Inr (seq d T), d\<lparr>seq := (seq d)(T := seq d T + 1)\<rparr>)
      else (Inl (DriverError ''nextval: reached maximum value of sequence''), d))"

text \<open>The conversion of a monetary argument.\<close>

definition to_numeric :: "rat \<Rightarrow> rat dbm" where
  "to_numeric x d =
     (case numeric d x of
        None \<Rightarrow> (Inl (DriverError ''numeric field overflow''), d)
      | Some a \<Rightarrow> (Inr a, d))"

definition require_that :: "bool \<Rightarrow> go_error \<Rightarrow> unit dbm" where
  "require_that b e = (if b then ret () else raise e)"

text \<open>gorm's \<open>autoCreateTime\<close> and \<open>autoUpdateTime\<close> on an insert fill a zero time.\<close>

definition auto_time :: "time \<Rightarrow> time \<Rightarrow> time" where
  "auto_time now z = (if z = 0 then now else z)"

text \<open>\<open>CHECK (quantity >= 0)\<close> and the \<open>INTEGER\<close> range of \<open>inventory.quantity\<close>.\<close>

definition check_inventory :: "Inventory \<Rightarrow> go_error option" where
  "check_inventory r =
     (if \<not> int4 (Inventory_Quantity r) then Some (DriverError ''integer out of range'')
      else if Inventory_Quantity r < 0 then Some ErrCheckConstraintViolated
      else None)"

definition no_check :: "'r \<Rightarrow> go_error option" where
  "no_check r = None"

section \<open>Laws of execution\<close>

text \<open>\<open>same d d'\<close>: the two server states differ in the replies still to come only.\<close>

definition same :: "pg \<Rightarrow> pg \<Rightarrow> bool" where
  "same d d' \<longleftrightarrow> (\<exists>rs. d' = d\<lparr>replies := rs\<rparr>)"

lemma same_refl [simp, intro]: "same d d"
  unfolding same_def by (rule exI [of _ "replies d"]) simp

lemma same_frame [simp]:
  "same d d' \<Longrightarrow> tbl d' = tbl d"
  "same d d' \<Longrightarrow> seq d' = seq d"
  "same d d' \<Longrightarrow> pg_now d' = pg_now d"
  "same d d' \<Longrightarrow> numeric d' = numeric d"
  unfolding same_def by (elim exE, simp)+

lemma same_replies [simp, intro]: "same d (d\<lparr>replies := rs\<rparr>)"
  unfolding same_def by blast

lemma next_reply_same: "next_reply d = (r, d') \<Longrightarrow> same d d'"
  by (cases "replies d") (auto simp: next_reply_def)

lemma next_reply_empty [simp]: "replies d = [] \<Longrightarrow> next_reply d = (Ok, d)"
  by (simp add: next_reply_def)

lemma stmt_Inr:
  "stmt args body d = (Inr x, d') \<Longrightarrow> \<exists>d1. same d d1 \<and> list_all int4 args \<and> body d1 = (Inr x, d')"
  using next_reply_same unfolding stmt_def by (fastforce split: prod.splits reply.splits if_splits)

lemma stmt_Inl:
  "stmt args body d = (Inl e, d') \<Longrightarrow>
     same d d' \<and> (\<exists>m. e = DriverError m) \<or>
     (\<exists>d1. same d d1 \<and> list_all int4 args \<and> body d1 = (Inl e, d'))"
  using next_reply_same unfolding stmt_def by (fastforce split: prod.splits reply.splits if_splits)

lemma stmt_ok [run]: "replies d = [] \<Longrightarrow> list_all int4 args \<Longrightarrow> stmt args body d = body d"
  by (simp add: stmt_def)

lemma hoare_stmt [wp]:
  assumes "list_all int4 args \<Longrightarrow> hoare P body Q E"
    and "\<And>d d'. P d \<Longrightarrow> same d d' \<Longrightarrow> P d'"
    and "\<And>m d. P d \<Longrightarrow> E (DriverError m) d"
  shows "hoare P (stmt args body) Q E"
proof (rule hoareI)
  fix d x d'
  assume "P d" "stmt args body d = (Inr x, d')"
  then show "Q x d'" using assms(1,2) by (blast dest: stmt_Inr hoare_Inr)
next
  fix d e d'
  assume "P d" "stmt args body d = (Inl e, d')"
  then show "E e d'" using assms by (blast dest: stmt_Inl hoare_Inl)
qed

text \<open>The ways a transaction can end.\<close>

lemma transaction_cases:
  assumes "transaction body d = (r, d')"
  obtains
    (begin_failed) m where "r = Inl (DriverError m)" "same d d'"
  | (body_failed) d1 e d2 where "same d d1" "body d1 = (Inl e, d2)" "r = Inl e" "d' = rollback d1 d2"
  | (committed) d1 x d2 where "same d d1" "body d1 = (Inr x, d2)" "r = Inr x" "same d2 d'"
  | (commit_failed) d1 x d2 d3 m where "same d d1" "body d1 = (Inr x, d2)" "same d2 d3"
      "r = Inl (DriverError m)" "d' = rollback d1 d3"
  | (ack_lost) d1 x d2 m where "same d d1" "body d1 = (Inr x, d2)" "same d2 d'"
      "r = Inl (DriverError m)"
proof (cases "stmt [] (ret ()) d")
  case b: (Pair b d1)
  show ?thesis
  proof (cases b)
    case (Inl e)
    from b Inl have "same d d1 \<and> (\<exists>m. e = DriverError m)"
      by (auto simp: ret_def dest: stmt_Inl)
    with assms b Inl begin_failed show ?thesis unfolding transaction_def by auto
  next
    case (Inr u)
    from b Inr have s1: "same d d1" by (auto simp: ret_def dest: stmt_Inr)
    obtain q d2 where body: "body d1 = (q, d2)" by (cases "body d1")
    show ?thesis
    proof (cases q)
      case (Inl e)
      with assms b Inr s1 body body_failed show ?thesis unfolding transaction_def by auto
    next
      case q: (Inr x)
      obtain c d3 where c: "next_reply d2 = (c, d3)" by (cases "next_reply d2")
      then have "same d2 d3" by (rule next_reply_same)
      with assms b Inr s1 body q c committed commit_failed ack_lost show ?thesis
        unfolding transaction_def by (cases c) auto
    qed
  qed
qed

lemma transaction_Inr:
  assumes "transaction body d = (Inr x, d')"
  obtains d1 d2 where "same d d1" "body d1 = (Inr x, d2)" "same d2 d'"
  using assms by (cases rule: transaction_cases) auto

text \<open>
  A failed transaction leaves the tables as they were, unless the commit took effect and only
  its acknowledgement was lost.
\<close>

lemma transaction_Inl:
  assumes "transaction body d = (Inl e, d')"
  obtains (unchanged) "tbl d' = tbl d"
  | (ack_lost) d1 x d2 m where "e = DriverError m" "same d d1" "body d1 = (Inr x, d2)" "same d2 d'"
  using assms
proof (cases rule: transaction_cases)
  case begin_failed
  then show ?thesis using unchanged by simp
next
  case body_failed
  then show ?thesis using unchanged by (simp add: rollback_def)
next
  case commit_failed
  then show ?thesis using unchanged by (simp add: rollback_def)
qed (use ack_lost in auto)

text \<open>
  The invariant rule: a property of the tables and the sequences that survives a larger sequence
  is kept by a transaction whose body keeps it when it succeeds.
\<close>

definition seq_grows :: "'a dbm \<Rightarrow> bool" where
  "seq_grows m \<longleftrightarrow> (\<forall>s. hoare (\<lambda>d. s \<le> seq d) m (\<lambda>_ d. s \<le> seq d) (\<lambda>_ d. s \<le> seq d))"

lemma seq_growsD: "seq_grows m \<Longrightarrow> m d = (r, d') \<Longrightarrow> seq d \<le> seq d'"
  unfolding seq_grows_def by (cases r) (auto dest: hoare_Inr hoare_Inl)

lemma transaction_keeps:
  assumes body: "\<And>d x d'. I d \<Longrightarrow> body d = (Inr x, d') \<Longrightarrow> I d'"
    and grows: "seq_grows body"
    and mono: "\<And>d d'. I d \<Longrightarrow> tbl d' = tbl d \<Longrightarrow> seq d \<le> seq d' \<Longrightarrow> I d'"
    and "I d" and "transaction body d = (r, d')"
  shows "I d'"
proof -
  have same: "I b" if "I a" "same a b" for a b
    using that mono by auto
  from assms(5) show ?thesis
  proof (cases rule: transaction_cases)
    case begin_failed
    then show ?thesis using same \<open>I d\<close> by blast
  next
    case (body_failed d1 e d2)
    then have "seq d \<le> seq d2" using seq_growsD [OF grows, of d1] by simp
    then show ?thesis using body_failed mono [of d d'] \<open>I d\<close> by (simp add: rollback_def)
  next
    case (committed d1 x d2)
    then show ?thesis using same body \<open>I d\<close> by blast
  next
    case (commit_failed d1 x d2 d3 m)
    then have "seq d \<le> seq d3" using seq_growsD [OF grows, of d1] by simp
    then show ?thesis using commit_failed mono [of d d'] \<open>I d\<close> by (simp add: rollback_def)
  next
    case (ack_lost d1 x d2 m)
    then show ?thesis using same body \<open>I d\<close> by blast
  qed
qed

lemma seq_grows_ret [simp, intro]: "seq_grows (ret x)"
  by (auto simp: seq_grows_def intro: wp)

lemma seq_grows_raise [simp, intro]: "seq_grows (raise e)"
  by (auto simp: seq_grows_def intro: wp)

lemma seq_grows_bind [intro]:
  "seq_grows m \<Longrightarrow> (\<And>x. seq_grows (f x)) \<Longrightarrow> seq_grows (bindE m f)"
  unfolding seq_grows_def
proof
  fix s
  assume m: "\<forall>s. hoare (\<lambda>d. s \<le> seq d) m (\<lambda>_ d. s \<le> seq d) (\<lambda>_ d. s \<le> seq d)"
    and f: "\<And>x. \<forall>s. hoare (\<lambda>d. s \<le> seq d) (f x) (\<lambda>_ d. s \<le> seq d) (\<lambda>_ d. s \<le> seq d)"
  show "hoare (\<lambda>d. s \<le> seq d) (bindE m f) (\<lambda>_ d. s \<le> seq d) (\<lambda>_ d. s \<le> seq d)"
    by (rule hoare_bind [OF m [rule_format] f [rule_format]])
qed

lemma seq_grows_for [intro]:
  "(\<And>x. seq_grows (f x)) \<Longrightarrow> seq_grows (forE xs f)"
  unfolding seq_grows_def by (auto intro!: hoare_for)

lemma seq_grows_stmt [intro]: "seq_grows m \<Longrightarrow> seq_grows (stmt args m)"
  unfolding seq_grows_def by (auto intro!: hoare_stmt)

lemma seq_grows_on_table [simp, intro]: "seq_grows (on_table get put f)"
  unfolding seq_grows_def
  by (auto intro!: hoareI simp: on_table_def split: sum.splits prod.splits)

lemma seq_grows_nextval [simp, intro]: "seq_grows (nextval T)"
  unfolding seq_grows_def
  by (auto intro!: hoareI simp: nextval_def le_fun_def split: if_splits)
    (metis add_increasing2 order_trans zero_le_one)+

lemma seq_grows_to_numeric [simp, intro]: "seq_grows (to_numeric x)"
  unfolding seq_grows_def
  by (auto intro!: hoareI simp: to_numeric_def split: option.splits)

lemma seq_grows_state [intro]:
  "(\<And>d r d'. m d = (r, d') \<Longrightarrow> seq d' = seq d) \<Longrightarrow> seq_grows m"
  unfolding seq_grows_def by (auto intro!: hoareI)

lemma seq_grows_require [simp, intro]: "seq_grows (require_that b e)"
  by (simp add: require_that_def)

lemma seq_grows_guard [simp, intro]: "seq_grows (\<lambda>d. require_that (P d) e d)"
  by (rule seq_grows_state) (auto simp: require_that_def ret_def raise_def split: if_splits)

lemma seq_grows_put [simp, intro]: "seq_grows (\<lambda>d. (r d, upd_tbl f d))"
  by (rule seq_grows_state) auto

lemma seq_grows_now [simp, intro]: "seq_grows (\<lambda>d. on_table get put (f d) d)"
  by (rule seq_grows_state) (auto simp: on_table_def split: sum.splits)

lemma seq_grows_if [intro]:
  "(b \<Longrightarrow> seq_grows m) \<Longrightarrow> (\<not> b \<Longrightarrow> seq_grows n) \<Longrightarrow> seq_grows (if b then m else n)"
  by simp

lemma seq_grows_map_err [intro]: "seq_grows m \<Longrightarrow> seq_grows (map_err h m)"
  unfolding seq_grows_def by (auto intro!: hoare_map_err)

lemma seq_grows_query [simp, intro]: "seq_grows (query args f)"
  unfolding query_def by (rule seq_grows_stmt) (auto simp: seq_grows_def intro: hoareI)

lemmas seq_grows_intros = seq_grows_ret seq_grows_raise seq_grows_bind seq_grows_for seq_grows_stmt
  seq_grows_on_table seq_grows_nextval seq_grows_to_numeric seq_grows_require seq_grows_guard
  seq_grows_put seq_grows_now seq_grows_if seq_grows_map_err seq_grows_query

lemma transaction_no_faults [run]:
  assumes "replies d = []" and "body d = (Inr x, d2)" and "replies d2 = []"
  shows "transaction body d = (Inr x, d2)"
  using assms by (simp add: transaction_def stmt_def next_reply_def ret_def)

lemma transaction_body_error [run]:
  assumes "replies d = []" and "body d = (Inl e, d2)"
  shows "transaction body d = (Inl e, rollback d d2)"
  using assms by (simp add: transaction_def stmt_def next_reply_def ret_def)

lemma find_None_iff_all: "find P rs = None \<longleftrightarrow> (\<forall>r \<in> set rs. \<not> P r)"
  by (auto simp: find_None_iff)

lemma sql_update_Inr [sql]:
  "sql_update P f chk rs = Inr (n, rs') \<longleftrightarrow>
     (\<forall>r \<in> set rs. P r \<longrightarrow> chk (f r) = None) \<and> n = hits P rs \<and> rs' = upd_where P f rs"
  by (auto simp: sql_update_def find_None_iff_all find_Some_iff split: option.splits)

lemma sql_update_no_check [simp, sql]:
  "sql_update P f no_check rs = Inr (hits P rs, upd_where P f rs)"
  by (auto simp: sql_update_Inr no_check_def)

lemma on_table_Inr [sql]:
  "on_table get put f d = (Inr x, d') \<longleftrightarrow>
     (\<exists>rs. f (get (tbl d)) = Inr (x, rs) \<and> d' = upd_tbl (put rs) d)"
  by (auto simp: on_table_def split: sum.splits prod.splits)

lemma on_table_Inl [sql]:
  "on_table get put f d = (Inl e, d') \<longleftrightarrow> f (get (tbl d)) = Inl e \<and> d' = d"
  by (auto simp: on_table_def split: sum.splits prod.splits)

lemma nextval_Inr [simp]:
  "nextval T d = (Inr i, d') \<longleftrightarrow>
     int4 (seq d T) \<and> i = seq d T \<and> d' = d\<lparr>seq := (seq d)(T := seq d T + 1)\<rparr>"
  by (auto simp: nextval_def)

lemma to_numeric_Inr [simp]: "to_numeric x d = (Inr a, d') \<longleftrightarrow> numeric d x = Some a \<and> d' = d"
  by (auto simp: to_numeric_def split: option.splits)

lemma require_that_Inr [simp]: "require_that b e d = (Inr u, d') \<longleftrightarrow> b \<and> d' = d"
  by (auto simp: require_that_def ret_def raise_def)

lemma require_that_Inl: "require_that b e d = (Inl e', d') \<longleftrightarrow> \<not> b \<and> e' = e \<and> d' = d"
  by (auto simp: require_that_def ret_def raise_def)

lemma query_same: "query args f d = (r, d') \<Longrightarrow> same d d'"
  unfolding query_def by (cases r) (auto dest!: stmt_Inr stmt_Inl)

lemma query_Inr: "query args f d = (Inr x, d') \<Longrightarrow> x = f (tbl d) \<and> list_all int4 args"
  unfolding query_def by (auto dest!: stmt_Inr)

lemma query_ok [run]:
  "replies d = [] \<Longrightarrow> list_all int4 args \<Longrightarrow> query args f d = (Inr (f (tbl d)), d)"
  by (simp add: query_def stmt_def)

end
