(* ===== verification/Schema.thy ===== *)
theory Schema
  imports Database
begin

text \<open>
  What the schema of \<open>migrations/\<close> and the order lifecycle keep true of the tables, and the
  accounting of stock.

  \<^item> \<open>wf_db\<close> is the well-formedness invariant: identities are unique and were drawn from their
    sequence, unique columns are unique, foreign keys point at rows, quantities satisfy their
    \<open>CHECK\<close>, an order item refers to a product with an inventory row, and \<open>settled\<close>: every order
    has exactly one payment and their statuses agree (pending/pending, paid/confirmed,
    failed/cancelled).
  \<^item> \<open>stock\<close> is what the inventory holds of a product, \<open>allocated\<close> what the orders that are not
    cancelled hold of it, and \<open>units\<close> their sum: the number of units there are.
\<close>

section \<open>Keys drawn from a sequence\<close>

definition ids_ok :: "('r \<Rightarrow> int) \<Rightarrow> int \<Rightarrow> 'r list \<Rightarrow> bool" where
  "ids_ok k n rs \<longleftrightarrow> distinct (map k rs) \<and> (\<forall>r \<in> set rs. k r < n)"

lemma ids_ok_Nil [simp]: "ids_ok k n []"
  by (simp add: ids_ok_def)

lemma ids_ok_mono: "ids_ok k n rs \<Longrightarrow> n \<le> m \<Longrightarrow> ids_ok k m rs"
  by (auto simp: ids_ok_def)

lemma ids_ok_snoc: "ids_ok k n rs \<Longrightarrow> k r = n \<Longrightarrow> n < m \<Longrightarrow> ids_ok k m (rs @ [r])"
  by (fastforce simp: ids_ok_def)

lemma ids_ok_upd [simp]:
  assumes "\<And>r. k (f r) = k r"
  shows "ids_ok k n (upd_where P f rs) \<longleftrightarrow> ids_ok k n rs"
proof -
  have "map k (upd_where P f rs) = map k rs" using assms by (simp add: map_upd_where)
  moreover have "k ` set (upd_where P f rs) = k ` set rs"
    using arg_cong [OF calculation, of set] by simp
  ultimately show ?thesis unfolding ids_ok_def by (metis (no_types, lifting) imageE imageI)
qed

lemma ids_ok_distinct: "ids_ok k n rs \<Longrightarrow> distinct (map k rs)"
  by (simp add: ids_ok_def)

lemma ids_ok_fresh: "ids_ok k n rs \<Longrightarrow> n \<notin> k ` set rs"
  by (auto simp: ids_ok_def)

section \<open>The invariant\<close>

definition wf_users :: "int \<Rightarrow> User list \<Rightarrow> bool" where
  "wf_users n rs \<longleftrightarrow> ids_ok User_ID n rs \<and> distinct (map User_Email rs)"

definition wf_inventory :: "int \<Rightarrow> int set \<Rightarrow> Inventory list \<Rightarrow> bool" where
  "wf_inventory n pids rs \<longleftrightarrow>
     ids_ok Inventory_ID n rs \<and> distinct (map Inventory_ProductID rs) \<and>
     (\<forall>r \<in> set rs. 0 \<le> Inventory_Quantity r \<and> int4 (Inventory_Quantity r) \<and>
        Inventory_ProductID r \<in> pids)"

definition wf_orders :: "int \<Rightarrow> int set \<Rightarrow> Order list \<Rightarrow> bool" where
  "wf_orders n uids rs \<longleftrightarrow> ids_ok Order_ID n rs \<and> (\<forall>r \<in> set rs. Order_UserID r \<in> uids)"

definition item_key :: "OrderItem \<Rightarrow> int \<times> int" where
  "item_key i = (Item_OrderID i, Item_ProductID i)"

definition wf_items :: "int \<Rightarrow> int set \<Rightarrow> int set \<Rightarrow> OrderItem list \<Rightarrow> bool" where
  "wf_items n oids pids rs \<longleftrightarrow>
     ids_ok Item_ID n rs \<and> distinct (map item_key rs) \<and>
     (\<forall>r \<in> set rs. 0 < Item_Quantity r \<and> Item_OrderID r \<in> oids \<and> Item_ProductID r \<in> pids)"

definition wf_payments :: "int \<Rightarrow> Payment list \<Rightarrow> bool" where
  "wf_payments n rs \<longleftrightarrow>
     ids_ok Payment_ID n rs \<and> distinct (map Payment_IdempotencyKey rs) \<and>
     (\<forall>r \<in> set rs. Payment_Status r = PaymentStatusPaid \<longleftrightarrow> Payment_ProviderTxnID r \<noteq> None)"

definition wf_notifications :: "int \<Rightarrow> int set \<Rightarrow> Notification list \<Rightarrow> bool" where
  "wf_notifications n oids rs \<longleftrightarrow>
     ids_ok Notification_ID n rs \<and> (\<forall>r \<in> set rs. Notification_OrderID r \<in> oids)"

definition coupled :: "PaymentStatus \<Rightarrow> OrderStatus \<Rightarrow> bool" where
  "coupled p s \<longleftrightarrow>
     (p, s) \<in> {(PaymentStatusPending, OrderStatusPending), (PaymentStatusPaid, OrderStatusConfirmed),
               (PaymentStatusFailed, OrderStatusCancelled)}"

definition settled :: "Order list \<Rightarrow> Payment list \<Rightarrow> bool" where
  "settled ords ps \<longleftrightarrow>
     distinct (map Payment_OrderID ps) \<and> set (map Payment_OrderID ps) = set (map Order_ID ords) \<and>
     (\<forall>r \<in> set ords. \<forall>p \<in> set ps.
        Payment_OrderID p = Order_ID r \<longrightarrow> coupled (Payment_Status p) (Order_Status r))"

definition wf_tables :: "(table \<Rightarrow> int) \<Rightarrow> tables \<Rightarrow> bool" where
  "wf_tables s t \<longleftrightarrow>
     wf_users (s T_users) (users t) \<and>
     ids_ok Product_ID (s T_products) (products t) \<and>
     wf_inventory (s T_inventory) (set (map Product_ID (products t))) (inventory t) \<and>
     wf_orders (s T_orders) (set (map User_ID (users t))) (orders t) \<and>
     wf_items (s T_order_items) (set (map Order_ID (orders t)))
       (set (map Inventory_ProductID (inventory t))) (order_items t) \<and>
     wf_payments (s T_payments) (payments t) \<and>
     settled (orders t) (payments t) \<and>
     wf_notifications (s T_notifications) (set (map Order_ID (orders t))) (notifications t)"

definition wf_db :: "pg \<Rightarrow> bool" where
  "wf_db d \<longleftrightarrow> wf_tables (seq d) (tbl d)"

lemma wf_same [simp]: "same d d' \<Longrightarrow> wf_db d' \<longleftrightarrow> wf_db d"
  by (simp add: wf_db_def)

lemma wf_tables_mono:
  assumes "wf_tables s t" and "s \<le> s'"
  shows "wf_tables s' t"
proof -
  have "s T \<le> s' T" for T using assms(2) by (simp add: le_fun_def)
  with assms(1) show ?thesis
    unfolding wf_tables_def wf_users_def wf_inventory_def wf_orders_def wf_items_def
      wf_payments_def wf_notifications_def
    by (auto intro: ids_ok_mono)
qed

lemma wf_grow: "wf_db d \<Longrightarrow> tbl d' = tbl d \<Longrightarrow> seq d \<le> seq d' \<Longrightarrow> wf_db d'"
  by (simp add: wf_db_def wf_tables_mono)

lemma wf_transaction:
  assumes "\<And>d x d'. wf_db d \<Longrightarrow> body d = (Inr x, d') \<Longrightarrow> wf_db d'" and "seq_grows body"
    and "wf_db d" and "transaction body d = (r, d')"
  shows "wf_db d'"
  by (rule transaction_keeps [where I = wf_db, OF assms(1,2) wf_grow assms(3,4)])

text \<open>Facts of a well-formed database that the components read off.\<close>

lemma wf_stock_nonneg: "wf_db d \<Longrightarrow> r \<in> set (inventory (tbl d)) \<Longrightarrow> 0 \<le> Inventory_Quantity r"
  by (simp add: wf_db_def wf_tables_def wf_inventory_def)

lemma settled_payment:
  assumes "settled ords ps" and "r \<in> set ords"
  obtains p where "p \<in> set ps" "Payment_OrderID p = Order_ID r"
    "coupled (Payment_Status p) (Order_Status r)"
proof -
  from assms have "Order_ID r \<in> set (map Payment_OrderID ps)" by (auto simp: settled_def)
  then obtain p where "p \<in> set ps" "Payment_OrderID p = Order_ID r" by auto
  with assms that show ?thesis by (auto simp: settled_def)
qed

section \<open>Accounting of stock\<close>

definition stock :: "Inventory list \<Rightarrow> int \<Rightarrow> int" where
  "stock rs p = (\<Sum>r\<leftarrow>rs. if Inventory_ProductID r = p then Inventory_Quantity r else 0)"

definition wanted :: "OrderItem list \<Rightarrow> int \<Rightarrow> int" where
  "wanted its p = (\<Sum>i\<leftarrow>its. if Item_ProductID i = p then Item_Quantity i else 0)"

definition live :: "Order list \<Rightarrow> int \<Rightarrow> bool" where
  "live ords oid \<longleftrightarrow> (\<exists>r \<in> set ords. Order_ID r = oid \<and> Order_Status r \<noteq> OrderStatusCancelled)"

definition allocated :: "tables \<Rightarrow> int \<Rightarrow> int" where
  "allocated t p = wanted (filter (\<lambda>i. live (orders t) (Item_OrderID i)) (order_items t)) p"

definition units :: "tables \<Rightarrow> int \<Rightarrow> int" where
  "units t p = stock (inventory t) p + allocated t p"

lemma stock_simps [simp]:
  "stock [] p = 0"
  "stock (r # rs) p = (if Inventory_ProductID r = p then Inventory_Quantity r else 0) + stock rs p"
  by (simp_all add: stock_def)

lemma wanted_simps [simp]:
  "wanted [] p = 0"
  "wanted (i # its) p = (if Item_ProductID i = p then Item_Quantity i else 0) + wanted its p"
  by (simp_all add: wanted_def)

lemma wanted_append [simp]: "wanted (its @ js) p = wanted its p + wanted js p"
  by (simp add: wanted_def)

lemma wanted_nonneg: "(\<And>i. i \<in> set its \<Longrightarrow> 0 \<le> Item_Quantity i) \<Longrightarrow> 0 \<le> wanted its p"
  by (induction its) auto

lemma wanted_map [simp]:
  assumes "\<And>i. Item_ProductID (f i) = Item_ProductID i" "\<And>i. Item_Quantity (f i) = Item_Quantity i"
  shows "wanted (map f its) p = wanted its p"
  using assms by (induction its) auto

lemma wanted_partition: "wanted (filter P its) p + wanted (filter (\<lambda>i. \<not> P i) its) p = wanted its p"
  by (induction its) auto

lemma stock_absent: "p \<notin> Inventory_ProductID ` set rs \<Longrightarrow> stock rs p = 0"
  by (induction rs) auto

lemma stock_row:
  assumes "distinct (map Inventory_ProductID rs)" and "r \<in> set rs"
  shows "stock rs (Inventory_ProductID r) = Inventory_Quantity r"
  using assms
proof (induction rs)
  case (Cons a rs)
  show ?case
  proof (cases "a = r")
    case True
    with Cons.prems have "stock rs (Inventory_ProductID r) = 0" by (auto intro: stock_absent)
    with True show ?thesis by simp
  next
    case False
    with Cons show ?thesis by (auto simp: rev_image_eqI)
  qed
qed simp

lemma stock_nonneg: "(\<And>r. r \<in> set rs \<Longrightarrow> 0 \<le> Inventory_Quantity r) \<Longrightarrow> 0 \<le> stock rs p"
  by (induction rs) auto

text \<open>One row of the selected product changes by \<open>k\<close>, and the stock of that product with it.\<close>

lemma stock_upd_where:
  assumes "\<And>r. Inventory_ProductID (f r) = Inventory_ProductID r"
    and "\<And>r. Inventory_Quantity (f r) = Inventory_Quantity r + k"
    and "\<And>r. P r \<Longrightarrow> Inventory_ProductID r = q"
  shows "stock (upd_where P f rs) p = stock rs p + (if p = q then k * int (hits P rs) else 0)"
  using assms
proof (induction rs)
  case (Cons r rs)
  then show ?case using assms(3) [of r] by (auto simp: algebra_simps)
qed simp

lemma allocated_nonneg: "wf_db d \<Longrightarrow> 0 \<le> allocated (tbl d) p"
  unfolding allocated_def
  by (intro wanted_nonneg) (auto simp: wf_db_def wf_tables_def wf_items_def less_imp_le)

lemma stock_le_units: "wf_db d \<Longrightarrow> stock (inventory (tbl d)) p \<le> units (tbl d) p"
  using allocated_nonneg [of d p] by (simp add: units_def)

text \<open>
  The inventory is never negative, so what the live orders hold is bounded by the number of units: the
  shop never sells a unit it does not have.
\<close>

lemma allocated_le_units:
  assumes "wf_db d"
  shows "allocated (tbl d) p \<le> units (tbl d) p"
proof -
  have "0 \<le> stock (inventory (tbl d)) p" using assms wf_stock_nonneg by (intro stock_nonneg) auto
  then show ?thesis by (simp add: units_def)
qed

lemma live_snoc: "live (ords @ [r]) k \<longleftrightarrow> live ords k \<or> Order_ID r = k \<and> Order_Status r \<noteq> OrderStatusCancelled"
  by (auto simp: live_def)

lemma live_fresh: "ids_ok Order_ID n ords \<Longrightarrow> \<not> live ords n"
  by (auto simp: live_def ids_ok_def)

end
