(* ===== verification/OrderRepo.thy ===== *)
theory OrderRepo
  imports Schema
begin

text \<open>
  \<open>internal/repository/order.go\<close>: the transactions of the order lifecycle.

  \<open>repo_CreateOrder\<close> reserves stock line by line with a guarded decrement and inserts the order,
  its items and its payment; \<open>MarkPaidAndConfirm\<close> and \<open>FailCancelAndRestock\<close> move a pending payment
  and its order to their terminal statuses; the rest are reads. Every operation keeps \<open>wf_db\<close>, and
  none creates or destroys units of a product (\<open>units\<close>).

  The structs that are inserted carry a zero primary key, as the service builds them, and the row takes
  its identity from the sequence; a non-zero key, which no caller passes, would be sent by gorm and
  refused by the \<open>GENERATED ALWAYS\<close> column, and is not modelled. Times are nanoseconds and are not
  rounded to the microseconds of \<open>TIMESTAMPTZ\<close>.
\<close>

section \<open>CreateOrder\<close>

text \<open>The guarded decrement of one line and the test of \<open>RowsAffected\<close>.\<close>

definition reserve_stock :: "OrderItem \<Rightarrow> unit dbm" where
  "reserve_stock item =
     bindE
       (stmt [Item_Quantity item, Item_ProductID item, Item_Quantity item]
         (\<lambda>d. on_table inventory put_inventory
            (sql_update
              (\<lambda>r. Inventory_ProductID r = Item_ProductID item \<and> Item_Quantity item \<le> Inventory_Quantity r)
              (\<lambda>r. r\<lparr>Inventory_Quantity := Inventory_Quantity r - Item_Quantity item,
                     Inventory_UpdatedAt := pg_now d\<rparr>)
              check_inventory) d))
       (\<lambda>n. if n \<noteq> 1 then raise (InsufficientStockError (Item_ProductID item)) else ret ())"

text \<open>\<open>tx.Omit("Items", "User").Create(order)\<close>: the identity and the times are written back.\<close>

definition insert_order :: "time \<Rightarrow> Order \<Rightarrow> Order dbm" where
  "insert_order now ord =
     (let ord1 = ord\<lparr>Order_CreatedAt := auto_time now (Order_CreatedAt ord),
                     Order_UpdatedAt := auto_time now (Order_UpdatedAt ord)\<rparr>
      in stmt [Order_UserID ord]
        (bindE (nextval T_orders) (\<lambda>i.
         bindE (to_numeric (Order_TotalPrice ord)) (\<lambda>a.
         bindE (require_that (0 \<le> a) ErrCheckConstraintViolated) (\<lambda>_.
         bindE (\<lambda>d. require_that (list_ex (\<lambda>u. User_ID u = Order_UserID ord) (users (tbl d)))
                     ErrForeignKeyViolated d) (\<lambda>_.
         \<lambda>d. (Inr (ord1\<lparr>Order_ID := i\<rparr>),
              upd_tbl (\<lambda>t. t\<lparr>orders := orders t @
                [ord1\<lparr>Order_ID := i, Order_TotalPrice := a, Order_Items := []\<rparr>]\<rparr>) d)))))))"

text \<open>\<open>tx.Omit("Product").Create(&order.Items)\<close>: one statement for all rows; the foreign keys are
  checked at its end.\<close>

definition add_item :: "OrderItem \<Rightarrow> unit dbm" where
  "add_item row d = (Inr (), upd_tbl (\<lambda>t. t\<lparr>order_items := order_items t @ [row]\<rparr>) d)"

primrec insert_item_rows :: "OrderItem list \<Rightarrow> OrderItem list dbm" where
  "insert_item_rows [] = ret []"
| "insert_item_rows (it # its) =
     bindE (nextval T_order_items) (\<lambda>i.
     bindE (to_numeric (Item_PriceAtPurchase it)) (\<lambda>a.
     bindE (require_that (0 < Item_Quantity it \<and> 0 \<le> a) ErrCheckConstraintViolated) (\<lambda>_.
     bindE (\<lambda>d. require_that (\<not> list_ex (\<lambda>r. item_key r = item_key it) (order_items (tbl d)))
                 ErrDuplicatedKey d) (\<lambda>_.
     bindE (add_item (it\<lparr>Item_ID := i, Item_PriceAtPurchase := a\<rparr>)) (\<lambda>_.
     bindE (insert_item_rows its) (\<lambda>rest. ret (it\<lparr>Item_ID := i\<rparr> # rest)))))))"

definition insert_items :: "OrderItem list \<Rightarrow> OrderItem list dbm" where
  "insert_items its =
     (if its = [] then raise ErrEmptySlice
      else stmt (concat (map (\<lambda>i. [Item_OrderID i, Item_ProductID i, Item_Quantity i]) its))
        (bindE (insert_item_rows its) (\<lambda>its'.
         bindE (\<lambda>d. require_that
              (list_all (\<lambda>i. list_ex (\<lambda>r. Order_ID r = Item_OrderID i) (orders (tbl d)) \<and>
                             list_ex (\<lambda>p. Product_ID p = Item_ProductID i) (products (tbl d))) its)
              ErrForeignKeyViolated d) (\<lambda>_. ret its'))))"

text \<open>\<open>tx.Create(payment)\<close>.\<close>

definition insert_payment :: "time \<Rightarrow> Payment \<Rightarrow> Payment dbm" where
  "insert_payment now pay =
     (let pay1 = pay\<lparr>Payment_CreatedAt := auto_time now (Payment_CreatedAt pay),
                     Payment_UpdatedAt := auto_time now (Payment_UpdatedAt pay)\<rparr>
      in stmt [Payment_OrderID pay]
        (bindE (nextval T_payments) (\<lambda>i.
         bindE (to_numeric (Payment_Amount pay)) (\<lambda>a.
         bindE (require_that (0 \<le> a) ErrCheckConstraintViolated) (\<lambda>_.
         bindE (\<lambda>d. require_that
                 (\<not> list_ex (\<lambda>r. Payment_IdempotencyKey r = Payment_IdempotencyKey pay) (payments (tbl d)))
                 ErrDuplicatedKey d) (\<lambda>_.
         bindE (\<lambda>d. require_that (list_ex (\<lambda>r. Order_ID r = Payment_OrderID pay) (orders (tbl d)))
                     ErrForeignKeyViolated d) (\<lambda>_.
         \<lambda>d. (Inr (pay1\<lparr>Payment_ID := i\<rparr>),
              upd_tbl (\<lambda>t. t\<lparr>payments := payments t @
                [pay1\<lparr>Payment_ID := i, Payment_Amount := a\<rparr>]\<rparr>) d))))))))"

definition user_not_found :: "go_error \<Rightarrow> go_error" where
  "user_not_found e = (if e = ErrForeignKeyViolated then ErrUserNotFound else e)"

definition create_order_body :: "time \<Rightarrow> time \<Rightarrow> Order \<Rightarrow> Payment \<Rightarrow> (Order \<times> Payment) dbm" where
  "create_order_body t_order t_payment ord pay =
     bindE (forE (Order_Items ord) reserve_stock) (\<lambda>_.
     bindE (map_err user_not_found (insert_order t_order ord)) (\<lambda>ord1.
     bindE (insert_items (map (\<lambda>i. i\<lparr>Item_OrderID := Order_ID ord1\<rparr>) (Order_Items ord1))) (\<lambda>its.
     bindE (insert_payment t_payment (pay\<lparr>Payment_OrderID := Order_ID ord1\<rparr>)) (\<lambda>pay1.
     ret (ord1\<lparr>Order_Items := its\<rparr>, pay1)))))"

definition repo_CreateOrder :: "time \<Rightarrow> time \<Rightarrow> Order \<Rightarrow> Payment \<Rightarrow> (Order \<times> Payment) dbm" where
  "repo_CreateOrder t_order t_payment ord pay =
     transaction (create_order_body t_order t_payment ord pay)"

section \<open>Reads\<close>

text \<open>A \<open>NUMERIC\<close> column read into a \<open>float64\<close> field.\<close>

definition scan_payment :: "Payment \<Rightarrow> Payment" where
  "scan_payment p = p\<lparr>Payment_Amount := fl (Payment_Amount p)\<rparr>"

text \<open>gorm's \<open>First\<close>: the selected row with the smallest primary key.\<close>

definition first_by :: "('r \<Rightarrow> int) \<Rightarrow> ('r \<Rightarrow> bool) \<Rightarrow> 'r list \<Rightarrow> go_error + 'r" where
  "first_by k P rs =
     (case sort_key k (filter P rs) of [] \<Rightarrow> Inl ErrRecordNotFound | r # _ \<Rightarrow> Inr r)"

definition of_result :: "go_error + 'a \<Rightarrow> 'a dbm" where
  "of_result r d = (r, d)"

definition no_pending :: "go_error \<Rightarrow> go_error" where
  "no_pending e = (if e = ErrRecordNotFound then ErrNoPendingPayment else e)"

definition GetPendingByOrderID :: "int \<Rightarrow> Payment dbm" where
  "GetPendingByOrderID orderID =
     map_err no_pending
       (bindE (query [orderID] (\<lambda>t. first_by Payment_ID
            (\<lambda>p. Payment_OrderID p = orderID \<and> Payment_Status p = PaymentStatusPending) (payments t)))
         (\<lambda>r. bindE (of_result r) (\<lambda>p. ret (scan_payment p))))"

definition order_not_found :: "go_error \<Rightarrow> go_error" where
  "order_not_found e = (if e = ErrRecordNotFound then ErrOrderNotFound else e)"

definition GetOrderUserID :: "int \<Rightarrow> int dbm" where
  "GetOrderUserID orderID =
     map_err order_not_found
       (bindE (query [orderID] (\<lambda>t. first_by Order_ID (\<lambda>r. Order_ID r = orderID) (orders t)))
         (\<lambda>r. bindE (of_result r) (\<lambda>ord. ret (Order_UserID ord))))"

text \<open>\<open>Limit(n)\<close>: a negative limit is no limit.\<close>

definition sql_limit :: "int \<Rightarrow> 'a list \<Rightarrow> 'a list" where
  "sql_limit n rs = (if n < 0 then rs else take (nat n) rs)"

text \<open>
  PostgreSQL leaves the order of rows with equal \<open>created_at\<close> open; here they come in the order of the table.
\<close>

definition ListStalePending :: "time \<Rightarrow> duration \<Rightarrow> int \<Rightarrow> int list dbm" where
  "ListStalePending now olderThan limit =
     query [] (\<lambda>t. map Payment_OrderID (sql_limit limit (sort_key Payment_CreatedAt
       (filter (\<lambda>p. Payment_Status p = PaymentStatusPending \<and> Payment_CreatedAt p < now - olderThan)
         (payments t)))))"

section \<open>Terminal transitions\<close>

text \<open>The guarded update of the payment, which decides who performs the transition.\<close>

definition finish_payment :: "(Payment \<Rightarrow> Payment) \<Rightarrow> Payment \<Rightarrow> nat dbm" where
  "finish_payment set_status pay =
     stmt [Payment_ID pay]
       (\<lambda>d. on_table payments put_payments
          (sql_update (\<lambda>r. Payment_ID r = Payment_ID pay \<and> Payment_Status r = PaymentStatusPending)
            (\<lambda>r. (set_status r)\<lparr>Payment_UpdatedAt := pg_now d\<rparr>) no_check) d)"

definition finish_order :: "OrderStatus \<Rightarrow> Payment \<Rightarrow> nat dbm" where
  "finish_order status pay =
     stmt [Payment_OrderID pay]
       (\<lambda>d. on_table orders put_orders
          (sql_update (\<lambda>r. Order_ID r = Payment_OrderID pay \<and> Order_Status r = OrderStatusPending)
            (\<lambda>r. r\<lparr>Order_Status := status, Order_UpdatedAt := pg_now d\<rparr>) no_check) d)"

definition restock :: "OrderItem \<Rightarrow> unit dbm" where
  "restock item =
     bindE
       (stmt [Item_Quantity item, Item_ProductID item]
         (\<lambda>d. on_table inventory put_inventory
            (sql_update (\<lambda>r. Inventory_ProductID r = Item_ProductID item)
              (\<lambda>r. r\<lparr>Inventory_Quantity := Inventory_Quantity r + Item_Quantity item,
                     Inventory_UpdatedAt := pg_now d\<rparr>)
              check_inventory) d))
       (\<lambda>_. ret ())"

definition set_paid :: "string \<Rightarrow> Payment \<Rightarrow> Payment" where
  "set_paid txn r = r\<lparr>Payment_Status := PaymentStatusPaid, Payment_ProviderTxnID := Some txn\<rparr>"

definition set_failed :: "Payment \<Rightarrow> Payment" where
  "set_failed r = r\<lparr>Payment_Status := PaymentStatusFailed\<rparr>"

definition mark_paid_body :: "Payment \<Rightarrow> string \<Rightarrow> bool dbm" where
  "mark_paid_body pay txn =
     bindE (finish_payment (set_paid txn) pay) (\<lambda>n.
       if n \<noteq> 1 then ret False
       else bindE (finish_order OrderStatusConfirmed pay) (\<lambda>_. ret True))"

definition MarkPaidAndConfirm :: "Payment \<Rightarrow> string \<Rightarrow> bool dbm" where
  "MarkPaidAndConfirm pay txn = transaction (mark_paid_body pay txn)"

definition fail_cancel_body :: "Payment \<Rightarrow> bool dbm" where
  "fail_cancel_body pay =
     bindE (finish_payment set_failed pay) (\<lambda>n.
       if n \<noteq> 1 then ret False
       else
         bindE (finish_order OrderStatusCancelled pay) (\<lambda>_.
         bindE (query [Payment_OrderID pay]
                 (\<lambda>t. filter (\<lambda>i. Item_OrderID i = Payment_OrderID pay) (order_items t))) (\<lambda>its.
         bindE (forE its restock) (\<lambda>_. ret True))))"

definition FailCancelAndRestock :: "Payment \<Rightarrow> bool dbm" where
  "FailCancelAndRestock pay = transaction (fail_cancel_body pay)"

section \<open>Changes of the inventory\<close>

text \<open>
  \<open>inv_change \<delta> rs rs'\<close>: the same inventory rows, with the stock of every product \<open>p\<close> changed by
  \<open>\<delta> p\<close> and every quantity still in range.
\<close>

definition inv_change :: "(int \<Rightarrow> int) \<Rightarrow> Inventory list \<Rightarrow> Inventory list \<Rightarrow> bool" where
  "inv_change \<delta> rs rs' \<longleftrightarrow>
     map Inventory_ID rs' = map Inventory_ID rs \<and>
     map Inventory_ProductID rs' = map Inventory_ProductID rs \<and>
     (\<forall>p. stock rs' p = stock rs p + \<delta> p) \<and>
     (\<forall>r \<in> set rs'. 0 \<le> Inventory_Quantity r \<and> int4 (Inventory_Quantity r))"

lemma inv_change_trans:
  "inv_change f a b \<Longrightarrow> inv_change g b c \<Longrightarrow> (\<And>p. h p = f p + g p) \<Longrightarrow> inv_change h a c"
  by (auto simp: inv_change_def)

lemma inv_change_refl:
  "wf_inventory n pids rs \<Longrightarrow> inv_change (\<lambda>_. 0) rs rs"
  by (auto simp: inv_change_def wf_inventory_def)

lemma inv_change_wf:
  assumes "wf_inventory n pids rs" and "inv_change \<delta> rs rs'"
  shows "wf_inventory n pids rs'"
proof -
  have "set (map Inventory_ID rs') = set (map Inventory_ID rs)"
    and "set (map Inventory_ProductID rs') = set (map Inventory_ProductID rs)"
    using assms(2) by (simp_all add: inv_change_def)
  then have "Inventory_ID ` set rs' = Inventory_ID ` set rs"
    and "Inventory_ProductID ` set rs' = Inventory_ProductID ` set rs"
    by simp_all
  with assms show ?thesis
    unfolding wf_inventory_def inv_change_def ids_ok_def
    by (metis (no_types, lifting) imageE imageI)
qed

lemma inv_change_update:
  assumes wf: "wf_inventory n pids rs"
    and upd: "sql_update P (\<lambda>r. r\<lparr>Inventory_Quantity := Inventory_Quantity r + k, Inventory_UpdatedAt := u\<rparr>)
      check_inventory rs = Inr (m, rs')"
    and P: "\<And>r. P r \<Longrightarrow> Inventory_ProductID r = q"
  shows "inv_change (\<lambda>p. if p = q then k * int m else 0) rs rs'" and "m = hits P rs"
proof -
  let ?f = "\<lambda>r. r\<lparr>Inventory_Quantity := Inventory_Quantity r + k, Inventory_UpdatedAt := u\<rparr>"
  have rs': "rs' = upd_where P ?f rs" and m: "m = hits P rs"
    and ok: "\<And>r. r \<in> set rs \<Longrightarrow> P r \<Longrightarrow> check_inventory (?f r) = None"
    using upd by (auto simp: sql_update_Inr)
  have "0 \<le> Inventory_Quantity r \<and> int4 (Inventory_Quantity r)" if "r \<in> set rs'" for r
    using that ok wf by (fastforce simp: rs' in_upd_where wf_inventory_def check_inventory_def split: if_splits)
  then show "inv_change (\<lambda>p. if p = q then k * int m else 0) rs rs'"
    unfolding inv_change_def rs' m using P
    by (simp add: map_upd_where stock_upd_where [where k = k and q = q])
  show "m = hits P rs" by (fact m)
qed

text \<open>\<open>inv_step \<delta> d d'\<close>: only the inventory changed, and by \<open>\<delta>\<close>.\<close>

definition inv_step :: "(int \<Rightarrow> int) \<Rightarrow> pg \<Rightarrow> pg \<Rightarrow> bool" where
  "inv_step \<delta> d d' \<longleftrightarrow>
     inv_change \<delta> (inventory (tbl d)) (inventory (tbl d')) \<and>
     tbl d' = (tbl d)\<lparr>inventory := inventory (tbl d')\<rparr> \<and>
     seq d' = seq d \<and> pg_now d' = pg_now d \<and> numeric d' = numeric d"

abbreviation wf_inv :: "pg \<Rightarrow> bool" where
  "wf_inv d \<equiv> wf_inventory (seq d T_inventory) (set (map Product_ID (products (tbl d)))) (inventory (tbl d))"

lemma inv_step_refl: "wf_inv d \<Longrightarrow> inv_step (\<lambda>_. 0) d d"
  by (simp add: inv_step_def inv_change_refl)

lemma inv_step_trans:
  assumes "inv_step f a b" and "inv_step g b c" and "\<And>p. h p = f p + g p"
  shows "inv_step h a c"
proof -
  have "inv_change h (inventory (tbl a)) (inventory (tbl c))"
    using assms by (auto simp: inv_step_def intro: inv_change_trans)
  moreover have "tbl c = (tbl a)\<lparr>inventory := inventory (tbl c)\<rparr>"
    using assms(1,2) unfolding inv_step_def
    by (metis (no_types, lifting) tables.update_convs(3) tables.surjective)
  ultimately show ?thesis using assms(1,2) by (simp add: inv_step_def)
qed

lemma inv_step_wf: "wf_inv d \<Longrightarrow> inv_step \<delta> d d' \<Longrightarrow> wf_inv d'"
  unfolding inv_step_def by (metis (no_types, lifting) inv_change_wf tables.select_convs(2)
      tables.surjective tables.update_convs(3))

section \<open>Reserving and releasing stock\<close>

lemma inv_step_on_table:
  assumes wf: "wf_inv d" and d1: "same d d1"
    and tab: "on_table inventory put_inventory (sql_update P
      (\<lambda>r. r\<lparr>Inventory_Quantity := Inventory_Quantity r + k, Inventory_UpdatedAt := u\<rparr>) check_inventory) d1
      = (Inr m, d')"
    and P: "\<And>r. P r \<Longrightarrow> Inventory_ProductID r = q"
  shows "inv_step (\<lambda>p. if p = q then k * int m else 0) d d'" and "m = hits P (inventory (tbl d))"
proof -
  obtain rs where upd: "sql_update P
      (\<lambda>r. r\<lparr>Inventory_Quantity := Inventory_Quantity r + k, Inventory_UpdatedAt := u\<rparr>) check_inventory
      (inventory (tbl d)) = Inr (m, rs)" and d': "d' = upd_tbl (put_inventory rs) d1"
    using tab d1 by (auto simp: on_table_Inr)
  note chg = inv_change_update [OF wf upd, OF P, simplified]
  from chg(1) show "inv_step (\<lambda>p. if p = q then k * int m else 0) d d'"
    using d1 by (simp add: inv_step_def d' put_inventory_def)
  from chg(2) show "m = hits P (inventory (tbl d))" .
qed

lemma reserve_stock_Inr:
  assumes wf: "wf_inv d" and res: "reserve_stock item d = (Inr u, d')"
  shows "inv_step (\<lambda>p. if p = Item_ProductID item then - Item_Quantity item else 0) d d'"
    and "Item_ProductID item \<in> set (map Inventory_ProductID (inventory (tbl d)))"
    and "Item_Quantity item \<le> stock (inventory (tbl d)) (Item_ProductID item)"
proof -
  let ?P = "\<lambda>r. Inventory_ProductID r = Item_ProductID item \<and> Item_Quantity item \<le> Inventory_Quantity r"
  obtain d1 where d1: "same d d1"
    and tab: "on_table inventory put_inventory (sql_update ?P
      (\<lambda>r. r\<lparr>Inventory_Quantity := Inventory_Quantity r + - Item_Quantity item,
             Inventory_UpdatedAt := pg_now d1\<rparr>) check_inventory) d1 = (Inr 1, d')"
    using res by (auto simp: reserve_stock_def bindE_Inr run split: if_splits dest!: stmt_Inr)
  note step = inv_step_on_table [OF wf d1 tab, of "Item_ProductID item", simplified]
  from step(1) show "inv_step (\<lambda>p. if p = Item_ProductID item then - Item_Quantity item else 0) d d'"
    by (simp cong: if_cong)
  from step(2) have "hits ?P (inventory (tbl d)) \<noteq> 0" by simp
  then obtain r where r: "r \<in> set (inventory (tbl d))" "?P r" by (auto simp: hits_0_iff)
  then show "Item_ProductID item \<in> set (map Inventory_ProductID (inventory (tbl d)))"
    by (auto simp: rev_image_eqI)
  have "stock (inventory (tbl d)) (Inventory_ProductID r) = Inventory_Quantity r"
    using wf r by (intro stock_row) (auto simp: wf_inventory_def)
  with r show "Item_Quantity item \<le> stock (inventory (tbl d)) (Item_ProductID item)" by simp
qed

lemma restock_Inr:
  assumes wf: "wf_inv d" and res: "restock item d = (Inr u, d')"
    and row: "Item_ProductID item \<in> set (map Inventory_ProductID (inventory (tbl d)))"
  shows "inv_step (\<lambda>p. if p = Item_ProductID item then Item_Quantity item else 0) d d'"
proof -
  let ?P = "\<lambda>r. Inventory_ProductID r = Item_ProductID item"
  obtain d1 m where d1: "same d d1"
    and tab: "on_table inventory put_inventory (sql_update ?P
      (\<lambda>r. r\<lparr>Inventory_Quantity := Inventory_Quantity r + Item_Quantity item,
             Inventory_UpdatedAt := pg_now d1\<rparr>) check_inventory) d1 = (Inr m, d')"
    using res by (auto simp: restock_def bindE_Inr run dest!: stmt_Inr)
  note step = inv_step_on_table [OF wf d1 tab, of "Item_ProductID item", simplified]
  have "distinct (map Inventory_ProductID (inventory (tbl d)))" using wf by (simp add: wf_inventory_def)
  then have "hits ?P (inventory (tbl d)) = 1"
    using row by (subst hits_1_distinct [where k = Inventory_ProductID]) auto
  with step show ?thesis by (simp cong: if_cong)
qed

text \<open>The two loops: the changes of the lines add up.\<close>

lemma reserve_loop:
  assumes wf: "wf_inv d" and res: "forE its reserve_stock d = (Inr u, d')"
  shows "inv_step (\<lambda>p. - wanted its p) d d'"
    and "\<forall>i \<in> set its. Item_ProductID i \<in> set (map Inventory_ProductID (inventory (tbl d)))"
proof -
  let ?I = "\<lambda>ys s. inv_step (\<lambda>p. - wanted ys p) d s \<and>
    (\<forall>i \<in> set ys. Item_ProductID i \<in> set (map Inventory_ProductID (inventory (tbl d))))"
  have "hoare (?I []) (forE its reserve_stock) (\<lambda>_. ?I its) (\<lambda>_ _. True)"
  proof (rule hoare_for_prefix, rule hoareI)
    fix ys x zs s v t
    assume inv: "?I ys s" and x: "reserve_stock x s = (Inr v, t)"
    then have "wf_inv s" using inv_step_wf [OF wf] by blast
    note step = reserve_stock_Inr [OF this x]
    have "inv_step (\<lambda>p. - wanted (ys @ [x]) p) d t"
      by (rule inv_step_trans [OF conjunct1 [OF inv] step(1)]) auto
    moreover have "map Inventory_ProductID (inventory (tbl s)) = map Inventory_ProductID (inventory (tbl d))"
      using inv by (simp add: inv_step_def inv_change_def)
    ultimately show "?I (ys @ [x]) t" using inv step(2) by auto
  qed simp
  from hoare_Inr [OF this _ res] inv_step_refl [OF wf]
  show "inv_step (\<lambda>p. - wanted its p) d d'"
    and "\<forall>i \<in> set its. Item_ProductID i \<in> set (map Inventory_ProductID (inventory (tbl d)))"
    by simp_all
qed

lemma restock_loop:
  assumes wf: "wf_inv d" and res: "forE its restock d = (Inr u, d')"
    and rows: "\<forall>i \<in> set its. Item_ProductID i \<in> set (map Inventory_ProductID (inventory (tbl d)))"
  shows "inv_step (\<lambda>p. wanted its p) d d'"
proof -
  let ?I = "\<lambda>ys s. inv_step (\<lambda>p. wanted ys p) d s"
  have "hoare (?I []) (forE its restock) (\<lambda>_. ?I its) (\<lambda>_ _. True)"
  proof (rule hoare_for_prefix, rule hoareI)
    fix ys x zs s v t
    assume its: "its = ys @ x # zs" and inv: "?I ys s" and x: "restock x s = (Inr v, t)"
    then have "wf_inv s" using inv_step_wf [OF wf] by blast
    moreover have "map Inventory_ProductID (inventory (tbl s)) = map Inventory_ProductID (inventory (tbl d))"
      using inv by (simp add: inv_step_def inv_change_def)
    ultimately have "inv_step (\<lambda>p. if p = Item_ProductID x then Item_Quantity x else 0) s t"
      using x rows its by (intro restock_Inr) auto
    then show "?I (ys @ [x]) t"
      by (rule inv_step_trans [OF inv]) auto
  qed simp
  from hoare_Inr [OF this _ res] inv_step_refl [OF wf] show ?thesis by simp
qed

section \<open>Inserts\<close>

lemma insert_order_Inr:
  assumes "insert_order now ord d = (Inr ord1, d')"
  obtains a where "numeric d (Order_TotalPrice ord) = Some a" "0 \<le> a"
    "ord1 = ord\<lparr>Order_ID := seq d T_orders,
       Order_CreatedAt := auto_time now (Order_CreatedAt ord),
       Order_UpdatedAt := auto_time now (Order_UpdatedAt ord)\<rparr>"
    "tbl d' = (tbl d)\<lparr>orders := orders (tbl d) @ [ord1\<lparr>Order_TotalPrice := a, Order_Items := []\<rparr>]\<rparr>"
    "seq d' = (seq d)(T_orders := seq d T_orders + 1)"
    "numeric d' = numeric d" "pg_now d' = pg_now d"
    "Order_UserID ord \<in> set (map User_ID (users (tbl d)))"
  using assms unfolding insert_order_def Let_def
  by (auto simp: bindE_Inr list_ex_iff rev_image_eqI dest!: stmt_Inr)

lemma insert_payment_Inr:
  assumes "insert_payment now pay d = (Inr pay1, d')"
  obtains a where "numeric d (Payment_Amount pay) = Some a" "0 \<le> a"
    "pay1 = pay\<lparr>Payment_ID := seq d T_payments,
       Payment_CreatedAt := auto_time now (Payment_CreatedAt pay),
       Payment_UpdatedAt := auto_time now (Payment_UpdatedAt pay)\<rparr>"
    "tbl d' = (tbl d)\<lparr>payments := payments (tbl d) @ [pay1\<lparr>Payment_Amount := a\<rparr>]\<rparr>"
    "seq d' = (seq d)(T_payments := seq d T_payments + 1)"
    "numeric d' = numeric d" "pg_now d' = pg_now d"
    "Payment_IdempotencyKey pay \<notin> set (map Payment_IdempotencyKey (payments (tbl d)))"
  using assms unfolding insert_payment_def Let_def
  by (auto simp: bindE_Inr list_ex_iff image_iff eq_commute [of "Payment_IdempotencyKey pay"] dest!: stmt_Inr)

text \<open>\<open>item_row d row it\<close>: \<open>row\<close> is what the table holds of the item \<open>it\<close>.\<close>

definition item_row :: "pg \<Rightarrow> OrderItem \<Rightarrow> OrderItem \<Rightarrow> bool" where
  "item_row d row it \<longleftrightarrow>
     item_key row = item_key it \<and> Item_Quantity row = Item_Quantity it \<and> 0 < Item_Quantity it \<and>
     numeric d (Item_PriceAtPurchase it) = Some (Item_PriceAtPurchase row)"

lemma insert_item_rows_Inr:
  assumes "insert_item_rows its d = (Inr its', d')"
    and "ids_ok Item_ID (seq d T_order_items) (order_items (tbl d))"
    and "distinct (map item_key (order_items (tbl d)))"
  shows "\<exists>rows n. tbl d' = (tbl d)\<lparr>order_items := order_items (tbl d) @ rows\<rparr> \<and>
    seq d' = (seq d)(T_order_items := n) \<and> numeric d' = numeric d \<and> pg_now d' = pg_now d \<and>
    ids_ok Item_ID n (order_items (tbl d) @ rows) \<and>
    distinct (map item_key (order_items (tbl d) @ rows)) \<and>
    list_all2 (item_row d) rows its \<and>
    map (\<lambda>i. i\<lparr>Item_ID := 0\<rparr>) its' = map (\<lambda>i. i\<lparr>Item_ID := 0\<rparr>) its"
  using assms
proof (induction its arbitrary: its' d)
  case Nil
  then show ?case by (auto simp: ret_def intro!: exI [of _ "[]"] exI [of _ "seq d T_order_items"])
next
  case (Cons it its)
  let ?n = "seq d T_order_items"
  obtain a rest d2 where a: "numeric d (Item_PriceAtPurchase it) = Some a"
    and q: "0 < Item_Quantity it"
    and fresh: "\<not> list_ex (\<lambda>r. item_key r = item_key it) (order_items (tbl d))"
    and d2: "d2 = upd_tbl (\<lambda>t. t\<lparr>order_items := order_items t @ [it\<lparr>Item_ID := ?n, Item_PriceAtPurchase := a\<rparr>]\<rparr>)
               (d\<lparr>seq := (seq d)(T_order_items := ?n + 1)\<rparr>)"
    and rest: "insert_item_rows its d2 = (Inr rest, d')" and its': "its' = it\<lparr>Item_ID := ?n\<rparr> # rest"
    using Cons.prems(1) by (auto simp: bindE_Inr add_item_def ret_def)
  let ?row = "it\<lparr>Item_ID := ?n, Item_PriceAtPurchase := a\<rparr>"
  have row: "item_row d ?row it" using a q by (simp add: item_row_def item_key_def)
  have "ids_ok Item_ID (?n + 1) (order_items (tbl d) @ [?row])"
    using Cons.prems(2) by (intro ids_ok_snoc [of _ ?n]) auto
  moreover have "distinct (map item_key (order_items (tbl d) @ [?row]))"
  proof -
    have "item_key ?row = item_key it" by (simp add: item_key_def)
    then show ?thesis using Cons.prems(3) fresh by (simp add: list_ex_iff image_iff eq_commute)
  qed
  ultimately have "\<exists>rows n. tbl d' = (tbl d2)\<lparr>order_items := order_items (tbl d2) @ rows\<rparr> \<and>
      seq d' = (seq d2)(T_order_items := n) \<and> numeric d' = numeric d2 \<and> pg_now d' = pg_now d2 \<and>
      ids_ok Item_ID n (order_items (tbl d2) @ rows) \<and>
      distinct (map item_key (order_items (tbl d2) @ rows)) \<and>
      list_all2 (item_row d2) rows its \<and>
      map (\<lambda>i. i\<lparr>Item_ID := 0\<rparr>) rest = map (\<lambda>i. i\<lparr>Item_ID := 0\<rparr>) its"
    by (intro Cons.IH [OF rest]) (simp_all add: d2)
  then obtain rows n where IH: "tbl d' = (tbl d2)\<lparr>order_items := order_items (tbl d2) @ rows\<rparr>"
      "seq d' = (seq d2)(T_order_items := n)" "numeric d' = numeric d2" "pg_now d' = pg_now d2"
      "ids_ok Item_ID n (order_items (tbl d2) @ rows)"
      "distinct (map item_key (order_items (tbl d2) @ rows))"
      "list_all2 (item_row d2) rows its"
      "map (\<lambda>i. i\<lparr>Item_ID := 0\<rparr>) rest = map (\<lambda>i. i\<lparr>Item_ID := 0\<rparr>) its"
    by (elim exE conjE)
  have "item_row d2 = item_row d" by (simp add: fun_eq_iff item_row_def d2)
  with IH row show ?case
    by (intro exI [of _ "?row # rows"] exI [of _ n]) (simp add: d2 its')
qed

lemma insert_items_Inr:
  assumes "insert_items its d = (Inr its', d')"
    and "ids_ok Item_ID (seq d T_order_items) (order_items (tbl d))"
    and "distinct (map item_key (order_items (tbl d)))"
  obtains rows n where "tbl d' = (tbl d)\<lparr>order_items := order_items (tbl d) @ rows\<rparr>"
    "seq d' = (seq d)(T_order_items := n)" "numeric d' = numeric d" "pg_now d' = pg_now d"
    "ids_ok Item_ID n (order_items (tbl d) @ rows)"
    "distinct (map item_key (order_items (tbl d) @ rows))"
    "list_all2 (item_row d) rows its" "its \<noteq> []"
    "map (\<lambda>i. i\<lparr>Item_ID := 0\<rparr>) its' = map (\<lambda>i. i\<lparr>Item_ID := 0\<rparr>) its"
proof -
  obtain d1 d2 where d1: "same d d1" and ne: "its \<noteq> []"
    and rows: "insert_item_rows its d1 = (Inr its', d2)" and "d' = d2"
    using assms(1) by (auto simp: insert_items_def raise_def ret_def bindE_Inr split: if_splits dest!: stmt_Inr)
  have "item_row d1 = item_row d" using d1 by (simp add: fun_eq_iff item_row_def)
  moreover have "ids_ok Item_ID (seq d1 T_order_items) (order_items (tbl d1))"
    "distinct (map item_key (order_items (tbl d1)))"
    using d1 assms(2,3) by simp_all
  note insert_item_rows_Inr [OF rows this]
  ultimately show ?thesis using d1 ne \<open>d' = d2\<close> that by (elim exE conjE) simp
qed

section \<open>A created order\<close>

text \<open>
  \<open>order_created d ord pay d'\<close>: the database after a successful \<open>CreateOrder\<close>: one more order, one
  row per line, one more payment for it, and the stock of every product reduced by what the lines
  ask for.
\<close>

definition order_created :: "pg \<Rightarrow> Order \<Rightarrow> Payment \<Rightarrow> pg \<Rightarrow> bool" where
  "order_created d ord pay d' \<longleftrightarrow>
     (\<exists>row rows prow.
        tbl d' = (tbl d)\<lparr>inventory := inventory (tbl d'), orders := orders (tbl d) @ [row],
          order_items := order_items (tbl d) @ rows, payments := payments (tbl d) @ [prow]\<rparr> \<and>
        Order_ID row = seq d T_orders \<and> Order_UserID row = Order_UserID ord \<and>
        Order_Status row = Order_Status ord \<and>
        numeric d (Order_TotalPrice ord) = Some (Order_TotalPrice row) \<and>
        list_all2 (item_row d) rows (map (\<lambda>i. i\<lparr>Item_OrderID := Order_ID row\<rparr>) (Order_Items ord)) \<and>
        Payment_ID prow = seq d T_payments \<and> Payment_OrderID prow = Order_ID row \<and>
        Payment_Status prow = Payment_Status pay \<and>
        Payment_IdempotencyKey prow = Payment_IdempotencyKey pay \<and>
        Payment_ProviderTxnID prow = Payment_ProviderTxnID pay \<and>
        numeric d (Payment_Amount pay) = Some (Payment_Amount prow) \<and>
        inv_change (\<lambda>p. - wanted (Order_Items ord) p) (inventory (tbl d)) (inventory (tbl d')))"

text \<open>What the transaction's body does to the state when it succeeds.\<close>

lemma create_order_body_Inr:
  assumes wf: "wf_db d" and res: "create_order_body t1 t2 ord pay d = (Inr (ord', pay'), d')"
  obtains row rows prow n where
    "tbl d' = (tbl d)\<lparr>inventory := inventory (tbl d'), orders := orders (tbl d) @ [row],
       order_items := order_items (tbl d) @ rows, payments := payments (tbl d) @ [prow]\<rparr>"
    "seq d' = (seq d)(T_orders := seq d T_orders + 1, T_order_items := n, T_payments := seq d T_payments + 1)"
    "inv_change (\<lambda>p. - wanted (Order_Items ord) p) (inventory (tbl d)) (inventory (tbl d'))"
    "\<forall>i \<in> set (Order_Items ord). Item_ProductID i \<in> set (map Inventory_ProductID (inventory (tbl d)))"
    "Order_ID row = seq d T_orders" "Order_UserID row = Order_UserID ord"
    "Order_Status row = Order_Status ord" "numeric d (Order_TotalPrice ord) = Some (Order_TotalPrice row)"
    "Order_UserID ord \<in> set (map User_ID (users (tbl d)))"
    "ids_ok Item_ID n (order_items (tbl d) @ rows)" "distinct (map item_key (order_items (tbl d) @ rows))"
    "list_all2 (item_row d) rows (map (\<lambda>i. i\<lparr>Item_OrderID := Order_ID row\<rparr>) (Order_Items ord))"
    "Payment_ID prow = seq d T_payments" "Payment_OrderID prow = Order_ID row"
    "Payment_Status prow = Payment_Status pay" "Payment_IdempotencyKey prow = Payment_IdempotencyKey pay"
    "Payment_ProviderTxnID prow = Payment_ProviderTxnID pay"
    "numeric d (Payment_Amount pay) = Some (Payment_Amount prow)"
    "Payment_IdempotencyKey pay \<notin> set (map Payment_IdempotencyKey (payments (tbl d)))"
    "Order_ID ord' = Order_ID row"
    "map (\<lambda>i. i\<lparr>Item_ID := 0\<rparr>) (Order_Items ord') =
       map (\<lambda>i. i\<lparr>Item_OrderID := Order_ID row, Item_ID := 0\<rparr>) (Order_Items ord)"
    "ord' = ord\<lparr>Order_ID := Order_ID ord', Order_Items := Order_Items ord',
       Order_CreatedAt := Order_CreatedAt ord', Order_UpdatedAt := Order_UpdatedAt ord'\<rparr>"
proof -
  have wfi: "wf_inv d" using wf by (simp add: wf_db_def wf_tables_def)
  obtain d1 ord1 d2 its d3 pay1 d4 where
    loop: "forE (Order_Items ord) reserve_stock d = (Inr (), d1)"
    and ins: "insert_order t1 ord d1 = (Inr ord1, d2)"
    and items: "insert_items (map (\<lambda>i. i\<lparr>Item_OrderID := Order_ID ord1\<rparr>) (Order_Items ord1)) d2 = (Inr its, d3)"
    and pays: "insert_payment t2 (pay\<lparr>Payment_OrderID := Order_ID ord1\<rparr>) d3 = (Inr pay1, d4)"
    and ret: "ord' = ord1\<lparr>Order_Items := its\<rparr>" "d' = d4"
    using res by (auto simp: create_order_body_def bindE_Inr ret_def)
  note step = reserve_loop [OF wfi loop]
  have inv: "tbl d1 = (tbl d)\<lparr>inventory := inventory (tbl d1)\<rparr>" "seq d1 = seq d" "numeric d1 = numeric d"
    using step(1) unfolding inv_step_def by blast+
  then have inv': "orders (tbl d1) = orders (tbl d)" "order_items (tbl d1) = order_items (tbl d)"
    "payments (tbl d1) = payments (tbl d)" "users (tbl d1) = users (tbl d)"
    by (cases "tbl d1"; cases "tbl d"; simp)+
  from ins obtain a where a: "numeric d1 (Order_TotalPrice ord) = Some a"
    "ord1 = ord\<lparr>Order_ID := seq d1 T_orders, Order_CreatedAt := auto_time t1 (Order_CreatedAt ord),
       Order_UpdatedAt := auto_time t1 (Order_UpdatedAt ord)\<rparr>"
    "tbl d2 = (tbl d1)\<lparr>orders := orders (tbl d1) @ [ord1\<lparr>Order_TotalPrice := a, Order_Items := []\<rparr>]\<rparr>"
    "seq d2 = (seq d1)(T_orders := seq d1 T_orders + 1)" "numeric d2 = numeric d1"
    "Order_UserID ord \<in> set (map User_ID (users (tbl d1)))"
    by (rule insert_order_Inr)
  let ?row = "ord1\<lparr>Order_TotalPrice := a, Order_Items := []\<rparr>"
  have "ids_ok Item_ID (seq d2 T_order_items) (order_items (tbl d2))"
    "distinct (map item_key (order_items (tbl d2)))"
    using wf a(3,4) inv inv' by (auto simp: wf_db_def wf_tables_def wf_items_def)
  with items obtain rows n where b: "tbl d3 = (tbl d2)\<lparr>order_items := order_items (tbl d2) @ rows\<rparr>"
    "seq d3 = (seq d2)(T_order_items := n)" "numeric d3 = numeric d2"
    "ids_ok Item_ID n (order_items (tbl d2) @ rows)" "distinct (map item_key (order_items (tbl d2) @ rows))"
    "list_all2 (item_row d2) rows (map (\<lambda>i. i\<lparr>Item_OrderID := Order_ID ord1\<rparr>) (Order_Items ord1))"
    "map (\<lambda>i. i\<lparr>Item_ID := 0\<rparr>) its =
       map (\<lambda>i. i\<lparr>Item_ID := 0\<rparr>) (map (\<lambda>i. i\<lparr>Item_OrderID := Order_ID ord1\<rparr>) (Order_Items ord1))"
    by (rule insert_items_Inr)
  from pays obtain c where c: "numeric d3 (Payment_Amount (pay\<lparr>Payment_OrderID := Order_ID ord1\<rparr>)) = Some c"
    "pay1 = (pay\<lparr>Payment_OrderID := Order_ID ord1\<rparr>)\<lparr>Payment_ID := seq d3 T_payments,
       Payment_CreatedAt := auto_time t2 (Payment_CreatedAt (pay\<lparr>Payment_OrderID := Order_ID ord1\<rparr>)),
       Payment_UpdatedAt := auto_time t2 (Payment_UpdatedAt (pay\<lparr>Payment_OrderID := Order_ID ord1\<rparr>))\<rparr>"
    "tbl d4 = (tbl d3)\<lparr>payments := payments (tbl d3) @ [pay1\<lparr>Payment_Amount := c\<rparr>]\<rparr>"
    "seq d4 = (seq d3)(T_payments := seq d3 T_payments + 1)"
    "Payment_IdempotencyKey (pay\<lparr>Payment_OrderID := Order_ID ord1\<rparr>)
       \<notin> set (map Payment_IdempotencyKey (payments (tbl d3)))"
    by (rule insert_payment_Inr)
  have rows: "item_row d2 = item_row d" using a(5) inv(3) by (simp add: fun_eq_iff item_row_def)
  have items1: "Order_Items ord1 = Order_Items ord" "Order_ID ord1 = seq d T_orders"
    using a(2) inv(2) by simp_all
  have inv2: "inventory (tbl d4) = inventory (tbl d1)" using a(3) b(1) c(3) by simp
  have tbl4: "tbl d4 = (tbl d)\<lparr>inventory := inventory (tbl d4), orders := orders (tbl d) @ [?row],
      order_items := order_items (tbl d) @ rows, payments := payments (tbl d) @ [pay1\<lparr>Payment_Amount := c\<rparr>]\<rparr>"
    using inv(1) inv2 inv' a(3) b(1) c(3) by (cases "tbl d"; cases "tbl d1") simp
  show ?thesis
  proof (rule that [where row = ?row and rows = rows and prow = "pay1\<lparr>Payment_Amount := c\<rparr>" and n = n], goal_cases)
    case 1 show ?case using tbl4 ret by simp
  next
    case 2 show ?case using ret a(4) b(2) c(4) inv(2) by (simp add: fun_upd_twist)
  next
    case 3 show ?case using step(1) ret inv2 by (simp add: inv_step_def)
  next
    case 4 show ?case using step(2) .
  next
    case 12 show ?case using b(6) rows items1 by simp
  next
    case 21 show ?case using b(7) ret items1 by (simp add: o_def)
  next
    case 22 show ?case using ret a(2) by simp
  qed (use a b c ret inv inv' rows items1 in simp_all)
qed

end
