(* ===== verification/OrderLifecycle.thy ===== *)
theory OrderLifecycle
  imports OrderRepo
begin

text \<open>
  What the transactions of \<open>internal/repository/order.go\<close> keep and guarantee, over the statement
  lemmas of \<open>OrderRepo\<close>: the well-formedness invariant \<open>wf_db\<close>, the number of units of every
  product, the at-most-once terminal transition of a payment, and the monotonicity of statuses.
\<close>

section \<open>CreateOrder\<close>

text \<open>The order and the payment the service passes to \<open>CreateOrder\<close> are both pending.\<close>

definition new_order :: "Order \<Rightarrow> Payment \<Rightarrow> bool" where
  "new_order ord pay \<longleftrightarrow> Order_Status ord = OrderStatusPending \<and>
     Payment_Status pay = PaymentStatusPending \<and> Payment_ProviderTxnID pay = None"

lemma item_rows_wanted:
  "list_all2 (item_row d) rows its \<Longrightarrow> wanted rows p = wanted its p"
  by (induction rule: list_all2_induct) (auto simp: item_row_def item_key_def)

lemma item_rows_keys:
  "list_all2 (item_row d) rows its \<Longrightarrow> map item_key rows = map item_key its"
  by (induction rule: list_all2_induct) (auto simp: item_row_def)

lemma item_rows_in:
  assumes "list_all2 (item_row d) rows its" and "r \<in> set rows"
  obtains i where "i \<in> set its" "item_row d r i"
  using assms by (metis in_set_conv_nth list_all2_conv_all_nth)

lemma settled_snoc:
  assumes "settled ords ps" and "Order_ID r \<notin> Order_ID ` set ords" and "Payment_OrderID p = Order_ID r"
    and "coupled (Payment_Status p) (Order_Status r)"
  shows "settled (ords @ [r]) (ps @ [p])"
proof -
  have set: "Payment_OrderID ` set ps = Order_ID ` set ords" using assms(1) by (simp add: settled_def)
  then have "x \<in> set ps \<Longrightarrow> Payment_OrderID x \<noteq> Order_ID r" for x
    using assms(2) by (metis imageI)
  moreover have "x \<in> set ords \<Longrightarrow> Order_ID x \<noteq> Order_ID r" for x
    using assms(2) by (metis imageI)
  ultimately show ?thesis using assms set by (fastforce simp: settled_def)
qed

lemma create_order_body_wf:
  assumes wf: "wf_db d" and new: "new_order ord pay"
    and res: "create_order_body t1 t2 ord pay d = (Inr x, d')"
  shows "wf_db d'"
proof -
  obtain ord' pay' where "x = (ord', pay')" by (cases x)
  with res have "create_order_body t1 t2 ord pay d = (Inr (ord', pay'), d')" by simp
  with wf show ?thesis
  proof (rule create_order_body_Inr)
    fix row rows prow n
    assume tbl: "tbl d' = (tbl d)\<lparr>inventory := inventory (tbl d'), orders := orders (tbl d) @ [row],
        order_items := order_items (tbl d) @ rows, payments := payments (tbl d) @ [prow]\<rparr>"
      and seq: "seq d' = (seq d)(T_orders := seq d T_orders + 1, T_order_items := n, T_payments := seq d T_payments + 1)"
      and inv: "inv_change (\<lambda>p. - wanted (Order_Items ord) p) (inventory (tbl d)) (inventory (tbl d'))"
      and prods: "\<forall>i \<in> set (Order_Items ord). Item_ProductID i \<in> set (map Inventory_ProductID (inventory (tbl d)))"
      and row: "Order_ID row = seq d T_orders" "Order_UserID row = Order_UserID ord" "Order_Status row = Order_Status ord"
      and user: "Order_UserID ord \<in> set (map User_ID (users (tbl d)))"
      and ids: "ids_ok Item_ID n (order_items (tbl d) @ rows)" "distinct (map item_key (order_items (tbl d) @ rows))"
      and items: "list_all2 (item_row d) rows (map (\<lambda>i. i\<lparr>Item_OrderID := Order_ID row\<rparr>) (Order_Items ord))"
      and pay: "Payment_ID prow = seq d T_payments" "Payment_OrderID prow = Order_ID row"
        "Payment_Status prow = Payment_Status pay" "Payment_IdempotencyKey prow = Payment_IdempotencyKey pay"
        "Payment_ProviderTxnID prow = Payment_ProviderTxnID pay"
        "Payment_IdempotencyKey pay \<notin> set (map Payment_IdempotencyKey (payments (tbl d)))"
    have f: "users (tbl d') = users (tbl d)" "products (tbl d') = products (tbl d)"
      "orders (tbl d') = orders (tbl d) @ [row]" "order_items (tbl d') = order_items (tbl d) @ rows"
      "payments (tbl d') = payments (tbl d) @ [prow]" "notifications (tbl d') = notifications (tbl d)"
      by (subst tbl; simp)+
    have w: "wf_users (seq d T_users) (users (tbl d))" "ids_ok Product_ID (seq d T_products) (products (tbl d))"
      "wf_inventory (seq d T_inventory) (set (map Product_ID (products (tbl d)))) (inventory (tbl d))"
      "wf_orders (seq d T_orders) (set (map User_ID (users (tbl d)))) (orders (tbl d))"
      "wf_items (seq d T_order_items) (set (map Order_ID (orders (tbl d))))
         (set (map Inventory_ProductID (inventory (tbl d)))) (order_items (tbl d))"
      "wf_payments (seq d T_payments) (payments (tbl d))" "settled (orders (tbl d)) (payments (tbl d))"
      "wf_notifications (seq d T_notifications) (set (map Order_ID (orders (tbl d)))) (notifications (tbl d))"
      using wf by (simp_all add: wf_db_def wf_tables_def)
    have pids: "map Inventory_ProductID (inventory (tbl d')) = map Inventory_ProductID (inventory (tbl d))"
      using inv by (simp add: inv_change_def)
    have "Order_ID row \<notin> Order_ID ` set (orders (tbl d))"
      unfolding row(1) using w(4) by (simp add: wf_orders_def ids_ok_fresh)
    then have "settled (orders (tbl d')) (payments (tbl d'))"
      unfolding f using w(7) pay row new by (intro settled_snoc) (auto simp: new_order_def coupled_def)
    moreover have "wf_orders (seq d' T_orders) (set (map User_ID (users (tbl d')))) (orders (tbl d'))"
      using w(4) row user by (auto simp: f seq wf_orders_def intro: ids_ok_snoc)
    moreover have "wf_payments (seq d' T_payments) (payments (tbl d'))"
      using w(6) pay new by (auto simp: f seq wf_payments_def new_order_def intro: ids_ok_snoc)
    moreover have "wf_items (seq d' T_order_items) (set (map Order_ID (orders (tbl d'))))
        (set (map Inventory_ProductID (inventory (tbl d')))) (order_items (tbl d'))"
    proof -
      have "0 < Item_Quantity r \<and> Item_OrderID r = Order_ID row \<and>
          Item_ProductID r \<in> set (map Inventory_ProductID (inventory (tbl d)))" if "r \<in> set rows" for r
        using items that by (rule item_rows_in) (use prods in \<open>auto simp: item_row_def item_key_def\<close>)
      then show ?thesis unfolding pids using w(5) ids by (auto simp: f seq wf_items_def)
    qed
    moreover have "wf_inventory (seq d' T_inventory) (set (map Product_ID (products (tbl d')))) (inventory (tbl d'))"
      using inv_change_wf [OF w(3) inv] by (simp add: f seq)
    moreover have "wf_notifications (seq d' T_notifications) (set (map Order_ID (orders (tbl d')))) (notifications (tbl d'))"
      using w(8) by (auto simp: f seq wf_notifications_def)
    ultimately show ?thesis using w(1,2) by (simp add: wf_db_def wf_tables_def f seq)
  qed
qed

lemma allocated_created:
  assumes "ids_ok Order_ID (seq d T_orders) (orders t)" and "Order_ID row = seq d T_orders"
    and "Order_Status row \<noteq> OrderStatusCancelled"
    and "\<forall>i \<in> set (order_items t). Item_OrderID i \<in> Order_ID ` set (orders t)"
    and "\<forall>i \<in> set rows. Item_OrderID i = Order_ID row"
    and "orders t' = orders t @ [row]" and "order_items t' = order_items t @ rows"
  shows "allocated t' p = allocated t p + wanted rows p"
proof -
  have "Item_OrderID i \<noteq> Order_ID row" if "i \<in> set (order_items t)" for i
    using that assms(2,4) ids_ok_fresh [OF assms(1)] by metis
  then have "filter (\<lambda>i. live (orders t') (Item_OrderID i)) (order_items t)
      = filter (\<lambda>i. live (orders t) (Item_OrderID i)) (order_items t)"
    by (intro filter_cong refl) (metis assms(6) live_snoc)
  moreover have "filter (\<lambda>i. live (orders t') (Item_OrderID i)) rows = rows"
    using assms(3,5) by (simp add: assms(6) live_snoc)
  ultimately show ?thesis by (simp add: allocated_def assms(7))
qed

lemma create_order_body_units:
  assumes wf: "wf_db d" and new: "new_order ord pay"
    and res: "create_order_body t1 t2 ord pay d = (Inr x, d')"
  shows "units (tbl d') p = units (tbl d) p"
    and "allocated (tbl d') p = allocated (tbl d) p + wanted (Order_Items ord) p"
    and "wanted (Order_Items ord) p \<le> stock (inventory (tbl d)) p"
proof -
  obtain ord' pay' where "x = (ord', pay')" by (cases x)
  with res have "create_order_body t1 t2 ord pay d = (Inr (ord', pay'), d')" by simp
  with wf obtain row rows prow n where
    tbl: "tbl d' = (tbl d)\<lparr>inventory := inventory (tbl d'), orders := orders (tbl d) @ [row],
        order_items := order_items (tbl d) @ rows, payments := payments (tbl d) @ [prow]\<rparr>"
    and inv: "inv_change (\<lambda>p. - wanted (Order_Items ord) p) (inventory (tbl d)) (inventory (tbl d'))"
    and row: "Order_ID row = seq d T_orders" "Order_Status row = Order_Status ord"
    and items: "list_all2 (item_row d) rows (map (\<lambda>i. i\<lparr>Item_OrderID := Order_ID row\<rparr>) (Order_Items ord))"
    by (rule create_order_body_Inr) blast
  have f: "orders (tbl d') = orders (tbl d) @ [row]" "order_items (tbl d') = order_items (tbl d) @ rows"
    by (subst tbl; simp)+
  have "Item_OrderID r = Order_ID row" if "r \<in> set rows" for r
    using items that by (rule item_rows_in) (auto simp: item_row_def item_key_def)
  moreover have "wanted rows p = wanted (Order_Items ord) p" for p
    using item_rows_wanted [OF items] by simp
  ultimately show alloc: "allocated (tbl d') p = allocated (tbl d) p + wanted (Order_Items ord) p" for p
    using wf row new f
    by (subst allocated_created [of d "tbl d" row rows "tbl d'"])
      (auto simp: wf_db_def wf_tables_def wf_orders_def wf_items_def new_order_def)
  have "stock (inventory (tbl d')) p = stock (inventory (tbl d)) p - wanted (Order_Items ord) p"
    using inv by (simp add: inv_change_def)
  moreover have "0 \<le> stock (inventory (tbl d')) p"
    using inv by (intro stock_nonneg) (simp add: inv_change_def)
  ultimately show "units (tbl d') p = units (tbl d) p"
    and "wanted (Order_Items ord) p \<le> stock (inventory (tbl d)) p"
    by (simp_all add: units_def alloc)
qed

lemma seq_grows_insert_item_rows [simp, intro]: "seq_grows (insert_item_rows its)"
  by (induction its) (auto intro!: seq_grows_intros simp: add_item_def)

lemma seq_grows_create_order_body: "seq_grows (create_order_body t1 t2 ord pay)"
  unfolding create_order_body_def reserve_stock_def insert_order_def insert_items_def insert_payment_def Let_def
  by (intro seq_grows_intros seq_grows_insert_item_rows)

lemma CreateOrder_wf:
  assumes "wf_db d" and "new_order ord pay" and "repo_CreateOrder t1 t2 ord pay d = (r, d')"
  shows "wf_db d'"
  using assms create_order_body_wf seq_grows_create_order_body unfolding repo_CreateOrder_def
  by (blast intro: wf_transaction)

section \<open>Terminal transitions\<close>

text \<open>
  The two guarded updates of a terminal transition, as one function on tables: the payment with the
  identity of \<open>pay\<close> moves on when it is pending, and so does its order.
\<close>

abbreviation pending_payment :: "Payment \<Rightarrow> Payment \<Rightarrow> bool" where
  "pending_payment pay r \<equiv> Payment_ID r = Payment_ID pay \<and> Payment_Status r = PaymentStatusPending"

abbreviation pending_order :: "Payment \<Rightarrow> Order \<Rightarrow> bool" where
  "pending_order pay r \<equiv> Order_ID r = Payment_OrderID pay \<and> Order_Status r = OrderStatusPending"

definition settle :: "Payment \<Rightarrow> (Payment \<Rightarrow> Payment) \<Rightarrow> OrderStatus \<Rightarrow> time \<Rightarrow> tables \<Rightarrow> tables" where
  "settle pay f s now t = t\<lparr>
     orders := upd_where (pending_order pay) (\<lambda>r. r\<lparr>Order_Status := s, Order_UpdatedAt := now\<rparr>) (orders t),
     payments := upd_where (pending_payment pay) (\<lambda>r. (f r)\<lparr>Payment_UpdatedAt := now\<rparr>) (payments t)\<rparr>"

text \<open>\<open>pay\<close> was read from the database: its row is still there, whatever its status is by now.\<close>

definition stored :: "tables \<Rightarrow> Payment \<Rightarrow> bool" where
  "stored t pay \<longleftrightarrow>
     (\<exists>r \<in> set (payments t). Payment_ID r = Payment_ID pay \<and> Payment_OrderID r = Payment_OrderID pay)"

definition is_pending :: "tables \<Rightarrow> Payment \<Rightarrow> bool" where
  "is_pending t pay \<longleftrightarrow> (\<exists>r \<in> set (payments t). pending_payment pay r)"

lemma hits_pending:
  assumes "wf_db d"
  shows "hits (pending_payment pay) (payments (tbl d)) = 1 \<longleftrightarrow> is_pending (tbl d) pay"
    and "hits (pending_payment pay) (payments (tbl d)) \<noteq> 1 \<Longrightarrow>
      upd_where (pending_payment pay) f (payments (tbl d)) = payments (tbl d)"
proof -
  have dist: "distinct (map Payment_ID (payments (tbl d)))"
    using assms by (auto simp: wf_db_def wf_tables_def wf_payments_def ids_ok_def)
  show "hits (pending_payment pay) (payments (tbl d)) = 1 \<longleftrightarrow> is_pending (tbl d) pay"
    unfolding is_pending_def by (rule hits_1_distinct [OF dist]) simp
  have "hits (pending_payment pay) (payments (tbl d)) \<le> 1"
    by (rule hits_distinct [OF dist]) simp
  then show "upd_where (pending_payment pay) f (payments (tbl d)) = payments (tbl d)"
    if "hits (pending_payment pay) (payments (tbl d)) \<noteq> 1"
    using that by (intro upd_where_none) simp
qed

lemma finish_payment_Inr:
  "finish_payment f pay d = (Inr n, d') \<Longrightarrow>
     n = hits (pending_payment pay) (payments (tbl d)) \<and> seq d' = seq d \<and> pg_now d' = pg_now d \<and>
     numeric d' = numeric d \<and>
     tbl d' = (tbl d)\<lparr>payments :=
       upd_where (pending_payment pay) (\<lambda>r. (f r)\<lparr>Payment_UpdatedAt := pg_now d\<rparr>) (payments (tbl d))\<rparr>"
  by (auto simp: finish_payment_def on_table_def put_payments_def dest!: stmt_Inr)

lemma finish_order_Inr:
  "finish_order s pay d = (Inr n, d') \<Longrightarrow>
     seq d' = seq d \<and> pg_now d' = pg_now d \<and> numeric d' = numeric d \<and>
     tbl d' = (tbl d)\<lparr>orders :=
       upd_where (pending_order pay) (\<lambda>r. r\<lparr>Order_Status := s, Order_UpdatedAt := pg_now d\<rparr>) (orders (tbl d))\<rparr>"
  by (auto simp: finish_order_def on_table_def put_orders_def dest!: stmt_Inr)

lemma finish_both:
  assumes "finish_payment f pay d = (Inr n, d1)" and "finish_order s pay d1 = (Inr m, d2)"
  shows "tbl d2 = settle pay f s (pg_now d) (tbl d)" "seq d2 = seq d" "pg_now d2 = pg_now d"
    "numeric d2 = numeric d"
  using finish_payment_Inr [OF assms(1)] finish_order_Inr [OF assms(2)]
  by (simp_all add: settle_def)

lemma mark_paid_body_Inr:
  assumes wf: "wf_db d" and res: "mark_paid_body pay txn d = (Inr b, d')"
  shows "b \<longleftrightarrow> is_pending (tbl d) pay" and "seq d' = seq d" and "numeric d' = numeric d"
    and "tbl d' = (if b then settle pay (set_paid txn) OrderStatusConfirmed (pg_now d) (tbl d) else tbl d)"
proof -
  obtain n d1 where f: "finish_payment (set_paid txn) pay d = (Inr n, d1)"
    and k: "if n \<noteq> 1 then \<not> b \<and> d' = d1
      else b \<and> (\<exists>m. finish_order OrderStatusConfirmed pay d1 = (Inr m, d'))"
    using res by (auto simp: mark_paid_body_def bindE_Inr ret_def split: if_splits)
  have "b \<longleftrightarrow> is_pending (tbl d) pay \<and>
    seq d' = seq d \<and> numeric d' = numeric d \<and>
    tbl d' = (if b then settle pay (set_paid txn) OrderStatusConfirmed (pg_now d) (tbl d) else tbl d)"
    if "n = 1" using that k finish_both [OF f] finish_payment_Inr [OF f] hits_pending(1) [OF wf] by auto
  moreover have "\<not> b" "seq d' = seq d" "numeric d' = numeric d" "tbl d' = tbl d"
    "\<not> is_pending (tbl d) pay" if "n \<noteq> 1"
    using that k finish_payment_Inr [OF f] hits_pending [OF wf, of pay] by auto
  ultimately show "b \<longleftrightarrow> is_pending (tbl d) pay" "seq d' = seq d" "numeric d' = numeric d"
    "tbl d' = (if b then settle pay (set_paid txn) OrderStatusConfirmed (pg_now d) (tbl d) else tbl d)"
    using k by (auto split: if_splits)
qed

text \<open>A status change of a payment that \<open>settle\<close> may perform together with order status \<open>s\<close>.\<close>

definition terminal :: "(Payment \<Rightarrow> Payment) \<Rightarrow> OrderStatus \<Rightarrow> bool" where
  "terminal f s \<longleftrightarrow>
     (\<forall>r. Payment_ID (f r) = Payment_ID r \<and> Payment_OrderID (f r) = Payment_OrderID r \<and>
        Payment_IdempotencyKey (f r) = Payment_IdempotencyKey r \<and> Payment_Amount (f r) = Payment_Amount r \<and>
        Payment_Status (f r) \<noteq> PaymentStatusPending \<and> coupled (Payment_Status (f r)) s \<and>
        (Payment_ProviderTxnID r = None \<longrightarrow>
           (Payment_Status (f r) = PaymentStatusPaid \<longleftrightarrow> Payment_ProviderTxnID (f r) \<noteq> None)))"

lemma terminal_paid [simp, intro]: "terminal (set_paid txn) OrderStatusConfirmed"
  by (simp add: terminal_def set_paid_def coupled_def)

lemma terminal_failed [simp, intro]: "terminal set_failed OrderStatusCancelled"
  by (simp add: terminal_def set_failed_def coupled_def)

lemma settle_settled:
  assumes wf: "settled ords ps" "distinct (map Payment_ID ps)"
    and st: "r \<in> set ps" "Payment_ID r = Payment_ID pay" "Payment_OrderID r = Payment_OrderID pay"
      "Payment_Status r = PaymentStatusPending"
    and f: "terminal f s"
  shows "settled (upd_where (pending_order pay) (\<lambda>r. r\<lparr>Order_Status := s, Order_UpdatedAt := now\<rparr>) ords)
    (upd_where (pending_payment pay) (\<lambda>r. (f r)\<lparr>Payment_UpdatedAt := now\<rparr>) ps)"
    (is "settled ?ords ?ps")
proof -
  have keys: "map Payment_OrderID ?ps = map Payment_OrderID ps" "map Order_ID ?ords = map Order_ID ords"
    using f by (auto intro!: map_upd_where simp: terminal_def)
  have "coupled (Payment_Status p) (Order_Status q)"
    if in': "q \<in> set ?ords" "p \<in> set ?ps" "Payment_OrderID p = Order_ID q" for p q
  proof -
    from in' obtain q0 p0 where q0: "q0 \<in> set ords"
      "q = (if pending_order pay q0 then q0\<lparr>Order_Status := s, Order_UpdatedAt := now\<rparr> else q0)"
      and p0: "p0 \<in> set ps" "p = (if pending_payment pay p0 then (f p0)\<lparr>Payment_UpdatedAt := now\<rparr> else p0)"
      by (auto simp: in_upd_where)
    then have "Payment_OrderID p0 = Order_ID q0"
      using in'(3) f by (auto simp: terminal_def split: if_splits)
    then have c: "coupled (Payment_Status p0) (Order_Status q0)"
      using wf(1) q0(1) p0(1) by (auto simp: settled_def)
    show ?thesis
    proof (cases "p0 = r")
      case True
      with c st \<open>Payment_OrderID p0 = Order_ID q0\<close> have "pending_order pay q0" by (auto simp: coupled_def)
      with True st f q0 p0 show ?thesis by (simp add: terminal_def)
    next
      case False
      then have "\<not> pending_payment pay p0"
        using distinct_map_eqD [OF wf(2) p0(1) st(1)] st(2) by auto
      moreover have "Order_ID q0 \<noteq> Payment_OrderID pay"
        using False distinct_map_eqD [of Payment_OrderID ps p0 r] wf(1) p0(1) st
          \<open>Payment_OrderID p0 = Order_ID q0\<close> by (auto simp: settled_def)
      ultimately show ?thesis using c q0 p0 by auto
    qed
  qed
  then show ?thesis using wf(1) unfolding settled_def keys by blast
qed

lemma settle_wf:
  assumes wf: "wf_tables s t" and st: "stored t pay" "is_pending t pay" and f: "terminal f os"
  shows "wf_tables s (settle pay f os now t)"
proof -
  let ?ords = "upd_where (pending_order pay) (\<lambda>r. r\<lparr>Order_Status := os, Order_UpdatedAt := now\<rparr>) (orders t)"
  let ?ps = "upd_where (pending_payment pay) (\<lambda>r. (f r)\<lparr>Payment_UpdatedAt := now\<rparr>) (payments t)"
  have dist: "distinct (map Payment_ID (payments t))"
    using wf by (simp add: wf_tables_def wf_payments_def ids_ok_def)
  from st obtain r where "r \<in> set (payments t)" "Payment_ID r = Payment_ID pay"
    "Payment_OrderID r = Payment_OrderID pay" "Payment_Status r = PaymentStatusPending"
    using distinct_map_eqD [OF dist] unfolding stored_def is_pending_def by metis
  then have "settled ?ords ?ps"
    using wf dist f by (intro settle_settled) (simp_all add: wf_tables_def)
  have ids: "map Order_ID ?ords = map Order_ID (orders t)"
    by (auto intro!: map_upd_where)
  have "wf_orders (s T_orders) (set (map User_ID (users t))) ?ords"
    using wf by (auto simp: wf_tables_def wf_orders_def in_upd_where)
  have "map Payment_IdempotencyKey ?ps = map Payment_IdempotencyKey (payments t)"
    using f by (auto intro!: map_upd_where simp: terminal_def)
  moreover have "Payment_Status p = PaymentStatusPaid \<longleftrightarrow> Payment_ProviderTxnID p \<noteq> None" if p: "p \<in> set ?ps" for p
  proof -
    from p obtain q where q: "q \<in> set (payments t)"
      "p = (if pending_payment pay q then (f q)\<lparr>Payment_UpdatedAt := now\<rparr> else q)"
      by (auto simp: in_upd_where)
    with wf have "Payment_Status q = PaymentStatusPaid \<longleftrightarrow> Payment_ProviderTxnID q \<noteq> None"
      by (simp add: wf_tables_def wf_payments_def)
    with q f show ?thesis by (cases "pending_payment pay q") (simp_all add: terminal_def)
  qed
  ultimately have "wf_payments (s T_payments) ?ps"
    using wf f by (simp add: wf_tables_def wf_payments_def terminal_def)
  moreover note \<open>settled ?ords ?ps\<close> \<open>wf_orders (s T_orders) (set (map User_ID (users t))) ?ords\<close>
  ultimately show ?thesis
    using wf arg_cong [OF ids, of set] by (simp add: wf_tables_def settle_def)
qed

text \<open>A pending payment that was read from the database belongs to a pending order.\<close>

lemma pending_order_row:
  assumes wf: "wf_tables s t" and st: "stored t pay" "is_pending t pay"
  obtains r where "r \<in> set (orders t)" "pending_order pay r"
proof -
  have dist: "distinct (map Payment_ID (payments t))"
    using wf by (simp add: wf_tables_def wf_payments_def ids_ok_def)
  from st obtain p where p: "p \<in> set (payments t)" "Payment_ID p = Payment_ID pay"
    "Payment_OrderID p = Payment_OrderID pay" "Payment_Status p = PaymentStatusPending"
    using distinct_map_eqD [OF dist] unfolding stored_def is_pending_def by metis
  have set: "settled (orders t) (payments t)" using wf by (simp add: wf_tables_def)
  then have "Payment_OrderID ` set (payments t) = Order_ID ` set (orders t)" by (simp add: settled_def)
  then have "Payment_OrderID p \<in> Order_ID ` set (orders t)" using p(1) by blast
  then obtain r where r: "r \<in> set (orders t)" "Order_ID r = Payment_OrderID p" by auto
  with set p(1) have "coupled (Payment_Status p) (Order_Status r)" unfolding settled_def by metis
  with p r that show ?thesis by (simp add: coupled_def)
qed

lemma settle_frame [simp]:
  "users (settle pay f s now t) = users t" "products (settle pay f s now t) = products t"
  "inventory (settle pay f s now t) = inventory t" "order_items (settle pay f s now t) = order_items t"
  "notifications (settle pay f s now t) = notifications t"
  by (simp_all add: settle_def)

lemma live_settle:
  "live (orders (settle pay f s now t)) k \<longleftrightarrow>
     (\<exists>r \<in> set (orders t). Order_ID r = k \<and>
        (if pending_order pay r then s else Order_Status r) \<noteq> OrderStatusCancelled)"
proof -
  have "(\<exists>x \<in> set (orders (settle pay f s now t)). P x) \<longleftrightarrow>
      (\<exists>r \<in> set (orders t). P (if pending_order pay r then r\<lparr>Order_Status := s, Order_UpdatedAt := now\<rparr> else r))" for P
    by (auto simp: settle_def upd_where_def)
  then show ?thesis unfolding live_def by (auto intro!: bex_cong split: if_splits)
qed

lemma live_settle_confirmed:
  "s \<noteq> OrderStatusCancelled \<Longrightarrow> live (orders (settle pay f s now t)) k \<longleftrightarrow> live (orders t) k"
  unfolding live_settle live_def [of "orders t"] by (rule bex_cong) auto

lemma live_settle_cancelled:
  assumes "distinct (map Order_ID (orders t))" and "r \<in> set (orders t)" "pending_order pay r"
  shows "live (orders (settle pay f OrderStatusCancelled now t)) k \<longleftrightarrow>
    live (orders t) k \<and> k \<noteq> Payment_OrderID pay"
proof -
  have "q = r" if "q \<in> set (orders t)" "Order_ID q = Payment_OrderID pay" for q
    using distinct_map_eqD [OF assms(1) that(1) assms(2)] that assms(3) by simp
  then show ?thesis using assms(3) by (simp only: live_settle) (auto simp: live_def split: if_splits)
qed

lemma allocated_settle_confirmed:
  "s \<noteq> OrderStatusCancelled \<Longrightarrow> allocated (settle pay f s now t) p = allocated t p"
  by (simp add: allocated_def live_settle_confirmed)

abbreviation items_of :: "int \<Rightarrow> tables \<Rightarrow> OrderItem list" where
  "items_of oid t \<equiv> filter (\<lambda>i. Item_OrderID i = oid) (order_items t)"

lemma allocated_settle_cancelled:
  assumes wf: "wf_tables s t" and st: "stored t pay" "is_pending t pay"
  shows "allocated (settle pay f OrderStatusCancelled now t) p
    = allocated t p - wanted (items_of (Payment_OrderID pay) t) p"
proof -
  from assms obtain r where r: "r \<in> set (orders t)" "pending_order pay r" by (rule pending_order_row)
  have dist: "distinct (map Order_ID (orders t))"
    using wf by (simp add: wf_tables_def wf_orders_def ids_ok_def)
  let ?L = "filter (\<lambda>i. live (orders t) (Item_OrderID i)) (order_items t)"
  have "live (orders t) (Payment_OrderID pay)" using r by (auto simp: live_def)
  then have "filter (\<lambda>i. Item_OrderID i = Payment_OrderID pay) ?L = items_of (Payment_OrderID pay) t"
    by (auto intro!: filter_cong)
  moreover have "filter (\<lambda>i. Item_OrderID i \<noteq> Payment_OrderID pay) ?L
      = filter (\<lambda>i. live (orders (settle pay f OrderStatusCancelled now t)) (Item_OrderID i)) (order_items t)"
    by (auto simp: live_settle_cancelled [OF dist r] conj_commute intro!: filter_cong)
  ultimately show ?thesis
    using wanted_partition [of "\<lambda>i. Item_OrderID i = Payment_OrderID pay" ?L p]
    by (simp add: allocated_def)
qed

lemma fail_cancel_body_Inr:
  assumes wf: "wf_db d" and st: "stored (tbl d) pay" and res: "fail_cancel_body pay d = (Inr b, d')"
  shows "b \<longleftrightarrow> is_pending (tbl d) pay" and "seq d' = seq d"
    and "\<not> b \<Longrightarrow> tbl d' = tbl d"
    and "b \<Longrightarrow> tbl d' = (settle pay set_failed OrderStatusCancelled (pg_now d) (tbl d))\<lparr>inventory := inventory (tbl d')\<rparr>"
    and "b \<Longrightarrow> inv_change (wanted (items_of (Payment_OrderID pay) (tbl d))) (inventory (tbl d)) (inventory (tbl d'))"
proof -
  let ?its = "items_of (Payment_OrderID pay)"
  obtain n d1 where f: "finish_payment set_failed pay d = (Inr n, d1)"
    and k: "if n \<noteq> 1 then \<not> b \<and> d' = d1
      else b \<and> (\<exists>m d2 its d3. finish_order OrderStatusCancelled pay d1 = (Inr m, d2) \<and>
        query [Payment_OrderID pay] ?its d2 = (Inr its, d3) \<and> forE its restock d3 = (Inr (), d'))"
    using res by (auto simp: fail_cancel_body_def bindE_Inr ret_def split: if_splits)
  have no: "\<not> b" "seq d' = seq d" "tbl d' = tbl d" "\<not> is_pending (tbl d) pay" if "n \<noteq> 1"
    using that k finish_payment_Inr [OF f] hits_pending [OF wf, of pay] by auto
  have yes: "b \<and> is_pending (tbl d) pay \<and> seq d' = seq d \<and>
    tbl d' = (settle pay set_failed OrderStatusCancelled (pg_now d) (tbl d))\<lparr>inventory := inventory (tbl d')\<rparr> \<and>
    inv_change (wanted (?its (tbl d))) (inventory (tbl d)) (inventory (tbl d'))" if "n = 1"
  proof -
    from k that obtain m d2 its d3 where o: "finish_order OrderStatusCancelled pay d1 = (Inr m, d2)"
      and q: "query [Payment_OrderID pay] ?its d2 = (Inr its, d3)"
      and loop: "forE its restock d3 = (Inr (), d')" and b by auto
    note both = finish_both [OF f o]
    have d3: "same d2 d3" "its = ?its (tbl d2)" using q by (auto dest: query_Inr query_same)
    have pend: "is_pending (tbl d) pay"
      using that finish_payment_Inr [OF f] hits_pending(1) [OF wf] by simp
    have "wf_inv d3" "\<forall>i \<in> set its. Item_ProductID i \<in> set (map Inventory_ProductID (inventory (tbl d3)))"
      using wf d3 both by (auto simp: wf_db_def wf_tables_def wf_items_def)
    then have "inv_step (wanted its) d3 d'" using restock_loop [OF _ loop] by simp
    then show ?thesis using \<open>b\<close> pend both d3 by (simp add: inv_step_def)
  qed
  show "b \<longleftrightarrow> is_pending (tbl d) pay" "seq d' = seq d" using yes no by blast+
  show "tbl d' = tbl d" if "\<not> b" using that yes no by blast
  show "tbl d' = (settle pay set_failed OrderStatusCancelled (pg_now d) (tbl d))\<lparr>inventory := inventory (tbl d')\<rparr>"
    "inv_change (wanted (?its (tbl d))) (inventory (tbl d)) (inventory (tbl d'))" if b
    using that yes no by blast+
qed

section \<open>Keeping the invariant and the units\<close>

lemma seq_grows_mark_paid_body: "seq_grows (mark_paid_body pay txn)"
  unfolding mark_paid_body_def finish_payment_def finish_order_def by (intro seq_grows_intros)

lemma seq_grows_fail_cancel_body: "seq_grows (fail_cancel_body pay)"
  unfolding fail_cancel_body_def finish_payment_def finish_order_def restock_def by (intro seq_grows_intros)

lemma mark_paid_body_keeps:
  assumes wf: "wf_db d" and st: "stored (tbl d) pay" and res: "mark_paid_body pay txn d = (Inr b, d')"
  shows "wf_db d'" and "units (tbl d') p = units (tbl d) p"
  using mark_paid_body_Inr [OF wf res] wf settle_wf [of "seq d" "tbl d" pay "set_paid txn", OF _ st]
  by (auto simp: wf_db_def units_def allocated_settle_confirmed)

lemma fail_cancel_body_keeps:
  assumes wf: "wf_db d" and st: "stored (tbl d) pay" and res: "fail_cancel_body pay d = (Inr b, d')"
  shows "wf_db d'" and "units (tbl d') p = units (tbl d) p"
proof -
  note body = fail_cancel_body_Inr [OF wf st res]
  have "wf_db d' \<and> units (tbl d') p = units (tbl d) p" if b
  proof
    let ?t = "settle pay set_failed OrderStatusCancelled (pg_now d) (tbl d)"
    have pend: "is_pending (tbl d) pay" using that body(1) by simp
    have t: "wf_tables (seq d) ?t"
      using wf st pend by (intro settle_wf) (auto simp: wf_db_def)
    have inv: "inv_change (wanted (items_of (Payment_OrderID pay) (tbl d))) (inventory ?t) (inventory (tbl d'))"
      using body(5) that by simp
    have tbl: "tbl d' = ?t\<lparr>inventory := inventory (tbl d')\<rparr>" using body(4) that .
    have pids: "set (map Inventory_ProductID (inventory (tbl d'))) = set (map Inventory_ProductID (inventory ?t))"
      using inv by (simp only: inv_change_def)
    have "wf_inventory (seq d T_inventory) (set (map Product_ID (products ?t))) (inventory (tbl d'))"
      using t by (intro inv_change_wf [OF _ inv]) (simp add: wf_tables_def)
    then have "wf_tables (seq d) (?t\<lparr>inventory := inventory (tbl d')\<rparr>)"
      using t pids by (simp add: wf_tables_def)
    then show "wf_db d'" using tbl body(2) by (simp add: wf_db_def)
    have "orders (tbl d') = orders ?t" "order_items (tbl d') = order_items ?t"
      by (subst tbl; simp)+
    then have "allocated (tbl d') p = allocated ?t p" by (simp add: allocated_def)
    also have "\<dots> = allocated (tbl d) p - wanted (items_of (Payment_OrderID pay) (tbl d)) p"
      using wf st pend by (intro allocated_settle_cancelled) (simp_all add: wf_db_def)
    finally show "units (tbl d') p = units (tbl d) p"
      using inv by (simp add: units_def inv_change_def)
  qed
  moreover have "wf_db d' \<and> units (tbl d') p = units (tbl d) p" if "\<not> b"
    using that body(2,3) wf by (simp add: wf_db_def)
  ultimately show "wf_db d'" "units (tbl d') p = units (tbl d) p" by blast+
qed

text \<open>
  What a transaction keeps whatever its outcome is: a property of the tables that its body keeps on
  success. The statements below do not depend on the fault schedule.
\<close>

lemma transaction_tables:
  assumes "transaction body d = (r, d')"
    and "\<And>d1 x d2. same d d1 \<Longrightarrow> body d1 = (Inr x, d2) \<Longrightarrow> R (tbl d) (tbl d2)" and "R (tbl d) (tbl d)"
  shows "R (tbl d) (tbl d')"
  using assms(1)
proof (cases rule: transaction_cases)
  case (committed d1 x d2)
  then show ?thesis using assms(2) [of d1 x d2] by simp
next
  case (ack_lost d1 x d2 m)
  then show ?thesis using assms(2) [of d1 x d2] by simp
qed (use assms(3) in \<open>simp_all add: rollback_def\<close>)

lemma wf_transaction_at:
  assumes "transaction body d = (r, d')" and "wf_db d" and grows: "seq_grows body"
    and "\<And>d1 x d2. same d d1 \<Longrightarrow> body d1 = (Inr x, d2) \<Longrightarrow> wf_db d2"
  shows "wf_db d'"
  using assms(1)
proof (cases rule: transaction_cases)
  case (body_failed d1 e d2)
  then show ?thesis
    using assms(2) wf_grow [of d d'] seq_growsD [OF grows, of d1] by (simp add: rollback_def)
next
  case (commit_failed d1 x d2 d3 m)
  then show ?thesis
    using assms(2) wf_grow [of d d'] seq_growsD [OF grows, of d1] by (simp add: rollback_def)
qed (use assms(2,4) in auto)

lemma CreateOrder_units:
  assumes "wf_db d" and "new_order ord pay" and "repo_CreateOrder t1 t2 ord pay d = (r, d')"
  shows "units (tbl d') p = units (tbl d) p"
  using assms(3) unfolding repo_CreateOrder_def
proof (rule transaction_tables [where R = "\<lambda>t t'. units t' p = units t p"])
  fix d1 x d2
  assume "same d d1" "create_order_body t1 t2 ord pay d1 = (Inr x, d2)"
  then show "units (tbl d2) p = units (tbl d) p"
    using create_order_body_units(1) [of d1 ord pay] assms(1,2) by simp
qed simp

lemma MarkPaid_keeps:
  assumes "wf_db d" and "stored (tbl d) pay" and res: "MarkPaidAndConfirm pay txn d = (r, d')"
  shows "wf_db d'" and "units (tbl d') p = units (tbl d) p"
proof -
  have body: "wf_db d2" "units (tbl d2) p = units (tbl d) p"
    if "same d d1" "mark_paid_body pay txn d1 = (Inr x, d2)" for d1 x d2
    using that assms(1,2) mark_paid_body_keeps [of d1 pay txn x d2] by simp_all
  show "wf_db d'"
    using res assms(1) seq_grows_mark_paid_body body(1) unfolding MarkPaidAndConfirm_def
    by (rule wf_transaction_at)
  show "units (tbl d') p = units (tbl d) p"
    using res body(2) unfolding MarkPaidAndConfirm_def
    by (rule transaction_tables [where R = "\<lambda>t t'. units t' p = units t p"]) simp_all
qed

lemma FailCancel_keeps:
  assumes "wf_db d" and "stored (tbl d) pay" and res: "FailCancelAndRestock pay d = (r, d')"
  shows "wf_db d'" and "units (tbl d') p = units (tbl d) p"
proof -
  have body: "wf_db d2" "units (tbl d2) p = units (tbl d) p"
    if "same d d1" "fail_cancel_body pay d1 = (Inr x, d2)" for d1 x d2
    using that assms(1,2) fail_cancel_body_keeps [of d1 pay x d2] by simp_all
  show "wf_db d'"
    using res assms(1) seq_grows_fail_cancel_body body(1) unfolding FailCancelAndRestock_def
    by (rule wf_transaction_at)
  show "units (tbl d') p = units (tbl d) p"
    using res body(2) unfolding FailCancelAndRestock_def
    by (rule transaction_tables [where R = "\<lambda>t t'. units t' p = units t p"]) simp_all
qed

section \<open>Rows only move on\<close>

text \<open>
  \<open>later t t'\<close>: every order and every payment of \<open>t\<close> is still there in \<open>t'\<close>, with its identity, its
  owner and its amount, at a status it may have moved to; a payment that has left \<open>pending\<close> is
  exactly as it was.
\<close>

definition payment_moves :: "Payment \<Rightarrow> Payment \<Rightarrow> bool" where
  "payment_moves r r' \<longleftrightarrow>
     Payment_ID r' = Payment_ID r \<and> Payment_OrderID r' = Payment_OrderID r \<and>
     Payment_IdempotencyKey r' = Payment_IdempotencyKey r \<and> Payment_Amount r' = Payment_Amount r \<and>
     Payment_Status r \<le> Payment_Status r' \<and> (Payment_Status r \<noteq> PaymentStatusPending \<longrightarrow> r' = r)"

definition order_moves :: "Order \<Rightarrow> Order \<Rightarrow> bool" where
  "order_moves r r' \<longleftrightarrow>
     Order_ID r' = Order_ID r \<and> Order_UserID r' = Order_UserID r \<and>
     Order_TotalPrice r' = Order_TotalPrice r \<and> Order_Status r \<le> Order_Status r'"

definition grown :: "('r \<Rightarrow> 'r \<Rightarrow> bool) \<Rightarrow> 'r list \<Rightarrow> 'r list \<Rightarrow> bool" where
  "grown R rs rs' \<longleftrightarrow> (\<exists>as bs. rs' = as @ bs \<and> list_all2 R rs as)"

definition later :: "tables \<Rightarrow> tables \<Rightarrow> bool" where
  "later t t' \<longleftrightarrow> grown payment_moves (payments t) (payments t') \<and>
     grown order_moves (orders t) (orders t') \<and> grown (=) (order_items t) (order_items t')"

lemma grown_refl: "(\<And>r. R r r) \<Longrightarrow> grown R rs rs"
  unfolding grown_def by (intro exI [of _ rs] exI [of _ "[]"]) (simp add: list_all2_refl)

lemma grown_trans:
  assumes "grown R xs ys" and "grown R ys zs" and "\<And>a b c. R a b \<Longrightarrow> R b c \<Longrightarrow> R a c"
  shows "grown R xs zs"
proof -
  from assms(1,2) obtain a b c e where ys: "ys = a @ b" "list_all2 R xs a"
    and zs: "zs = c @ e" "list_all2 R (a @ b) c"
    unfolding grown_def by blast
  from zs(2) obtain c1 c2 where c: "c = c1 @ c2" "list_all2 R a c1"
    by (auto simp: list_all2_append1)
  with ys have "list_all2 R xs c1" using list_all2_trans [of R R R] assms(3) by blast
  then show ?thesis using zs c unfolding grown_def by (intro exI [of _ c1] exI [of _ "c2 @ e"]) simp
qed

lemma grown_append: "grown R rs ss \<Longrightarrow> grown R rs (ss @ ts)"
  unfolding grown_def by (metis append.assoc)

lemma grown_upd_where: "(\<And>r. R r r) \<Longrightarrow> (\<And>r. P r \<Longrightarrow> R r (f r)) \<Longrightarrow> grown R rs (upd_where P f rs)"
  unfolding grown_def
  by (intro exI [of _ "upd_where P f rs"] exI [of _ "[]"]) (induction rs, auto)

lemma grown_in:
  assumes "grown R rs rs'" and "r \<in> set rs"
  obtains r' where "r' \<in> set rs'" "R r r'"
  using assms unfolding grown_def
  by (metis in_set_conv_nth list_all2_conv_all_nth Un_iff set_append)

lemma payment_moves_refl [simp]: "payment_moves r r"
  by (simp add: payment_moves_def)

lemma order_moves_refl [simp]: "order_moves r r"
  by (simp add: order_moves_def)

lemma later_refl [simp]: "later t t"
  by (simp add: later_def grown_refl)

lemma later_trans: "later a b \<Longrightarrow> later b c \<Longrightarrow> later a c"
  unfolding later_def
  by (elim conjE, intro conjI; rule grown_trans, assumption, assumption)
    (auto simp: payment_moves_def order_moves_def intro: order_trans)

lemma later_settle: "terminal f s \<Longrightarrow> later t (settle pay f s now t)"
  unfolding later_def settle_def
  by (auto intro!: grown_upd_where grown_refl
      simp: payment_moves_def order_moves_def terminal_def less_eq_PaymentStatus_def less_eq_OrderStatus_def)

lemma create_order_body_later:
  assumes "wf_db d" and "create_order_body t1 t2 ord pay d = (Inr x, d')"
  shows "later (tbl d) (tbl d')"
proof -
  obtain ord' pay' where "x = (ord', pay')" by (cases x)
  with assms(2) have "create_order_body t1 t2 ord pay d = (Inr (ord', pay'), d')" by simp
  with assms(1) obtain row rows prow where
    tbl: "tbl d' = (tbl d)\<lparr>inventory := inventory (tbl d'), orders := orders (tbl d) @ [row],
        order_items := order_items (tbl d) @ rows, payments := payments (tbl d) @ [prow]\<rparr>"
    by (rule create_order_body_Inr) blast
  have "orders (tbl d') = orders (tbl d) @ [row]" "order_items (tbl d') = order_items (tbl d) @ rows"
    "payments (tbl d') = payments (tbl d) @ [prow]"
    by (subst tbl; simp)+
  then show ?thesis by (simp add: later_def grown_append grown_refl)
qed

lemma mark_paid_body_later:
  "wf_db d \<Longrightarrow> mark_paid_body pay txn d = (Inr b, d') \<Longrightarrow> later (tbl d) (tbl d')"
  by (auto dest!: mark_paid_body_Inr(4) simp: later_settle)

lemma fail_cancel_body_later:
  assumes "wf_db d" and "stored (tbl d) pay" and "fail_cancel_body pay d = (Inr b, d')"
  shows "later (tbl d) (tbl d')"
proof (cases b)
  case True
  have "later (tbl d) (settle pay set_failed OrderStatusCancelled (pg_now d) (tbl d))"
    by (rule later_settle) simp
  then show ?thesis
    by (subst fail_cancel_body_Inr(4) [OF assms True]) (simp add: later_def)
next
  case False
  then show ?thesis using fail_cancel_body_Inr(3) [OF assms] by simp
qed

lemma CreateOrder_later:
  assumes "wf_db d" and "repo_CreateOrder t1 t2 ord pay d = (r, d')"
  shows "later (tbl d) (tbl d')"
  using assms(2) unfolding repo_CreateOrder_def
proof (rule transaction_tables [where R = later])
  fix d1 x d2
  assume "same d d1" "create_order_body t1 t2 ord pay d1 = (Inr x, d2)"
  then show "later (tbl d) (tbl d2)" using create_order_body_later [of d1] assms(1) by simp
qed simp

lemma MarkPaid_later:
  assumes "wf_db d" and "MarkPaidAndConfirm pay txn d = (r, d')"
  shows "later (tbl d) (tbl d')"
  using assms(2) unfolding MarkPaidAndConfirm_def
proof (rule transaction_tables [where R = later])
  fix d1 x d2
  assume "same d d1" "mark_paid_body pay txn d1 = (Inr x, d2)"
  then show "later (tbl d) (tbl d2)" using mark_paid_body_later [of d1] assms(1) by simp
qed simp

lemma FailCancel_later:
  assumes "wf_db d" and "stored (tbl d) pay" and "FailCancelAndRestock pay d = (r, d')"
  shows "later (tbl d) (tbl d')"
  using assms(3) unfolding FailCancelAndRestock_def
proof (rule transaction_tables [where R = later])
  fix d1 x d2
  assume "same d d1" "fail_cancel_body pay d1 = (Inr x, d2)"
  then show "later (tbl d) (tbl d2)" using fail_cancel_body_later [of d1] assms(1,2) by simp
qed simp

section \<open>At most one terminal transition\<close>

lemma later_stored: "later t t' \<Longrightarrow> stored t pay \<Longrightarrow> stored t' pay"
  unfolding later_def stored_def
  by (elim conjE bexE, erule (1) grown_in [of payment_moves]) (auto simp: payment_moves_def)

lemma later_settled_payment:
  assumes "later t t'" and "wf_tables s t'" and "stored t pay" and "\<not> is_pending t pay"
  shows "\<not> is_pending t' pay"
proof
  assume "is_pending t' pay"
  then obtain q where q: "q \<in> set (payments t')" "pending_payment pay q" by (auto simp: is_pending_def)
  from assms(3) obtain r where r: "r \<in> set (payments t)" "Payment_ID r = Payment_ID pay"
    by (auto simp: stored_def)
  with assms(4) have "Payment_Status r \<noteq> PaymentStatusPending" by (auto simp: is_pending_def)
  moreover from assms(1) r(1) obtain r' where "r' \<in> set (payments t')" "payment_moves r r'"
    unfolding later_def by (auto elim: grown_in)
  ultimately have "r \<in> set (payments t')" by (auto simp: payment_moves_def)
  moreover have "distinct (map Payment_ID (payments t'))"
    using assms(2) by (simp add: wf_tables_def wf_payments_def ids_ok_def)
  ultimately have "r = q" using q r by (auto dest: distinct_map_eqD)
  with q \<open>Payment_Status r \<noteq> PaymentStatusPending\<close> show False by simp
qed

lemma settle_not_pending:
  assumes "terminal f s"
  shows "\<not> is_pending (settle pay f s now t) pay"
proof -
  have "Payment_Status ((f r)\<lparr>Payment_UpdatedAt := now\<rparr>) \<noteq> PaymentStatusPending" for r
    using assms by (simp add: terminal_def)
  then show ?thesis by (auto simp: is_pending_def settle_def upd_where_def)
qed

lemma MarkPaid_Inr:
  assumes "wf_db d" and "MarkPaidAndConfirm pay txn d = (Inr b, d')"
  shows "b \<longleftrightarrow> is_pending (tbl d) pay" and "\<not> is_pending (tbl d') pay"
    and "tbl d' = (if b then settle pay (set_paid txn) OrderStatusConfirmed (pg_now d) (tbl d) else tbl d)"
proof -
  from assms(2) obtain d1 d2 where d1: "same d d1" and body: "mark_paid_body pay txn d1 = (Inr b, d2)"
    and d2: "same d2 d'"
    unfolding MarkPaidAndConfirm_def by (rule transaction_Inr)
  have "wf_db d1" using assms(1) d1 by simp
  note res = mark_paid_body_Inr [OF this body]
  show b: "b \<longleftrightarrow> is_pending (tbl d) pay"
    and t: "tbl d' = (if b then settle pay (set_paid txn) OrderStatusConfirmed (pg_now d) (tbl d) else tbl d)"
    using res d1 d2 by simp_all
  show "\<not> is_pending (tbl d') pay"
    unfolding t using b settle_not_pending [OF terminal_paid] by simp
qed

lemma FailCancel_Inr:
  assumes "wf_db d" and "stored (tbl d) pay" and "FailCancelAndRestock pay d = (Inr b, d')"
  shows "b \<longleftrightarrow> is_pending (tbl d) pay" and "\<not> is_pending (tbl d') pay"
    and "\<not> b \<Longrightarrow> tbl d' = tbl d"
    and "b \<Longrightarrow> tbl d' = (settle pay set_failed OrderStatusCancelled (pg_now d) (tbl d))\<lparr>inventory := inventory (tbl d')\<rparr>"
    and "b \<Longrightarrow> inv_change (wanted (items_of (Payment_OrderID pay) (tbl d))) (inventory (tbl d)) (inventory (tbl d'))"
proof -
  from assms(3) obtain d1 d2 where d1: "same d d1" and body: "fail_cancel_body pay d1 = (Inr b, d2)"
    and d2: "same d2 d'"
    unfolding FailCancelAndRestock_def by (rule transaction_Inr)
  have "wf_db d1" "stored (tbl d1) pay" using assms(1,2) d1 by simp_all
  note res = fail_cancel_body_Inr [OF this body]
  show b: "b \<longleftrightarrow> is_pending (tbl d) pay" using res(1) d1 by simp
  show n: "\<not> b \<Longrightarrow> tbl d' = tbl d" using res(3) d1 d2 by simp
  show y: "b \<Longrightarrow> tbl d' = (settle pay set_failed OrderStatusCancelled (pg_now d) (tbl d))\<lparr>inventory := inventory (tbl d')\<rparr>"
    using res(4) d1 d2 by simp
  show "b \<Longrightarrow> inv_change (wanted (items_of (Payment_OrderID pay) (tbl d))) (inventory (tbl d)) (inventory (tbl d'))"
    using res(5) d1 d2 by simp
  show "\<not> is_pending (tbl d') pay"
  proof (cases b)
    case True
    have "payments (tbl d') = payments (settle pay set_failed OrderStatusCancelled (pg_now d) (tbl d))"
      by (subst y [OF True]) simp
    then show ?thesis using settle_not_pending [OF terminal_failed, of pay] by (simp add: is_pending_def)
  qed (use b n in simp)
qed

end
