(* ===== verification/Sample.thy ===== *)
theory Sample
  imports Schema
begin

text \<open>
  A small shop on which the properties are exercised: one customer and one admin, two products, a
  confirmed order and a pending one. \<open>sample_numeric\<close> is a conversion to \<open>NUMERIC(12,2)\<close>: round to
  the cent, refuse what has more than ten digits before the point.
\<close>

definition sample_numeric :: "rat \<Rightarrow> rat option" where
  "sample_numeric x = (if \<bar>x\<bar> < 10 ^ 10 then Some (of_int \<lfloor>x * 100 + 1 / 2\<rfloor> / 100) else None)"

definition sample_users :: "User list" where
  "sample_users =
     [\<lparr>User_ID = 1, User_Name = ''Ann'', User_Email = ''ann@shop'', User_Password = ''pw1'',
       User_Role = UserRoleCustomer, User_CreatedAt = 1, User_UpdatedAt = 1\<rparr>,
      \<lparr>User_ID = 2, User_Name = ''Bo'', User_Email = ''bo@shop'', User_Password = ''pw2'',
       User_Role = UserRoleAdmin, User_CreatedAt = 1, User_UpdatedAt = 1\<rparr>]"

definition sample_product :: "int \<Rightarrow> string \<Rightarrow> rat \<Rightarrow> Product" where
  "sample_product i name price =
     \<lparr>Product_ID = i, Product_Name = name, Product_Image = None, Product_Description = None,
      Product_Price = price, Product_Inventory = None, Product_CreatedAt = 1, Product_UpdatedAt = 1\<rparr>"

definition sample_stock :: "int \<Rightarrow> int \<Rightarrow> Inventory" where
  "sample_stock i q =
     \<lparr>Inventory_ID = i, Inventory_ProductID = i, Inventory_Quantity = q, Inventory_UpdatedAt = 1\<rparr>"

definition sample_order :: "int \<Rightarrow> OrderStatus \<Rightarrow> rat \<Rightarrow> Order" where
  "sample_order i s a =
     \<lparr>Order_ID = i, Order_UserID = 1, Order_Status = s, Order_TotalPrice = a, Order_Items = [],
      Order_CreatedAt = 10, Order_UpdatedAt = 10\<rparr>"

definition sample_item :: "int \<Rightarrow> int \<Rightarrow> int \<Rightarrow> int \<Rightarrow> rat \<Rightarrow> OrderItem" where
  "sample_item i oid pid q price =
     \<lparr>Item_ID = i, Item_OrderID = oid, Item_ProductID = pid, Item_Quantity = q, Item_PriceAtPurchase = price\<rparr>"

definition sample_payment :: "int \<Rightarrow> string \<Rightarrow> PaymentStatus \<Rightarrow> rat \<Rightarrow> string option \<Rightarrow> Payment" where
  "sample_payment i key s amount txn =
     \<lparr>Payment_ID = i, Payment_OrderID = i, Payment_IdempotencyKey = key, Payment_Status = s,
      Payment_Amount = amount, Payment_ProviderTxnID = txn, Payment_CreatedAt = 10, Payment_UpdatedAt = 10\<rparr>"

definition sample_tables :: tables where
  "sample_tables =
     \<lparr>users = sample_users,
      products = [sample_product 1 ''tea'' 5, sample_product 2 ''mug'' (25 / 2)],
      inventory = [sample_stock 1 3, sample_stock 2 7],
      orders = [sample_order 1 OrderStatusConfirmed 5, sample_order 2 OrderStatusPending 30],
      order_items = [sample_item 1 1 1 1 5, sample_item 2 2 1 1 5, sample_item 3 2 2 2 (25 / 2)],
      payments = [sample_payment 1 ''k1'' PaymentStatusPaid 5 (Some ''fake-1''),
                  sample_payment 2 ''k2'' PaymentStatusPending 30 None],
      notifications = []\<rparr>"

definition sample_seq :: "table \<Rightarrow> int" where
  "sample_seq T = (case T of T_order_items \<Rightarrow> 4 | _ \<Rightarrow> 3)"

definition sample_db :: pg where
  "sample_db = \<lparr>tbl = sample_tables, seq = sample_seq, replies = [], pg_now = 50, numeric = sample_numeric\<rparr>"

lemmas sample_defs = sample_db_def sample_tables_def sample_seq_def sample_users_def sample_product_def
  sample_stock_def sample_order_def sample_item_def sample_payment_def

lemma wf_sample [simp]: "wf_db sample_db"
  by code_simp

lemma replies_sample [simp]: "replies sample_db = []"
  by (simp add: sample_db_def)

text \<open>A new order of Ann's: two teas and one mug.\<close>

definition sample_new_order :: Order where
  "sample_new_order =
     \<lparr>Order_ID = 0, Order_UserID = 1, Order_Status = OrderStatusPending, Order_TotalPrice = 45 / 2,
      Order_Items = [sample_item 0 0 1 2 5, sample_item 0 0 2 1 (25 / 2)], Order_CreatedAt = 0, Order_UpdatedAt = 0\<rparr>"

definition sample_new_payment :: Payment where
  "sample_new_payment =
     \<lparr>Payment_ID = 0, Payment_OrderID = 0, Payment_IdempotencyKey = ''k3'', Payment_Status = PaymentStatusPending,
      Payment_Amount = 45 / 2, Payment_ProviderTxnID = None, Payment_CreatedAt = 0, Payment_UpdatedAt = 0\<rparr>"

end
