(* ===== verification/OrderPlacing.thy ===== *)
theory OrderPlacing
  imports OrderLifecycle Sample
begin

text \<open>
  When \<open>CreateOrder\<close> of \<open>internal/repository/order.go\<close> succeeds and what it answers when it does
  not, on a database that answers every statement (\<open>replies d = []\<close>).
\<close>

section \<open>Enough stock is enough\<close>

text \<open>A monetary argument that its column accepts.\<close>

definition money_ok :: "pg \<Rightarrow> rat \<Rightarrow> bool" where
  "money_ok d x = (case numeric d x of None \<Rightarrow> False | Some a \<Rightarrow> 0 \<le> a)"

lemma money_okE:
  assumes "money_ok d x"
  obtains a where "numeric d x = Some a" "0 \<le> a"
  using assms by (auto simp: money_ok_def split: option.splits)

text \<open>Everything the schema asks of the rows that \<open>CreateOrder\<close> is about to insert, except stock.\<close>

definition rows_ok :: "pg \<Rightarrow> Order \<Rightarrow> Payment \<Rightarrow> bool" where
  "rows_ok d ord pay \<longleftrightarrow>
     Order_Items ord \<noteq> [] \<and> distinct (map Item_ProductID (Order_Items ord)) \<and>
     list_all (\<lambda>i. 0 < Item_Quantity i \<and> int4 (Item_Quantity i) \<and> int4 (Item_ProductID i) \<and>
       money_ok d (Item_PriceAtPurchase i)) (Order_Items ord) \<and>
     int4 (Order_UserID ord) \<and> Order_UserID ord \<in> set (map User_ID (users (tbl d))) \<and>
     money_ok d (Order_TotalPrice ord) \<and>
     money_ok d (Payment_Amount pay) \<and>
     Payment_IdempotencyKey pay \<notin> set (map Payment_IdempotencyKey (payments (tbl d))) \<and>
     int4 (seq d T_orders) \<and> int4 (seq d T_payments) \<and>
     0 \<le> seq d T_order_items \<and> int4 (seq d T_order_items + int (length (Order_Items ord)))"

definition in_stock :: "pg \<Rightarrow> OrderItem \<Rightarrow> bool" where
  "in_stock d i \<longleftrightarrow> list_ex (\<lambda>r. Inventory_ProductID r = Item_ProductID i \<and>
     Item_Quantity i \<le> Inventory_Quantity r) (inventory (tbl d))"

lemma reserve_stock_ok:
  assumes "replies d = []" and "wf_inv d" and "int4 (Item_Quantity i)" "int4 (Item_ProductID i)" "0 < Item_Quantity i"
  shows "in_stock d i \<Longrightarrow> \<exists>d'. reserve_stock i d = (Inr (), d') \<and> replies d' = []"
    and "\<not> in_stock d i \<Longrightarrow> reserve_stock i d = (Inl (InsufficientStockError (Item_ProductID i)), d)"
proof -
  let ?P = "\<lambda>r. Inventory_ProductID r = Item_ProductID i \<and> Item_Quantity i \<le> Inventory_Quantity r"
  let ?f = "\<lambda>r. r\<lparr>Inventory_Quantity := Inventory_Quantity r - Item_Quantity i, Inventory_UpdatedAt := pg_now d\<rparr>"
  have ok: "\<forall>r \<in> set (inventory (tbl d)). ?P r \<longrightarrow> check_inventory (?f r) = None"
    using assms(2,5) by (auto simp: check_inventory_def wf_inventory_def int4_def)
  then have upd: "sql_update ?P ?f check_inventory (inventory (tbl d))
      = Inr (hits ?P (inventory (tbl d)), upd_where ?P ?f (inventory (tbl d)))"
    by (simp add: sql_update_Inr)
  have stmt: "stmt [Item_Quantity i, Item_ProductID i, Item_Quantity i]
      (\<lambda>d. on_table inventory put_inventory (sql_update ?P
        (\<lambda>r. r\<lparr>Inventory_Quantity := Inventory_Quantity r - Item_Quantity i, Inventory_UpdatedAt := pg_now d\<rparr>)
        check_inventory) d) d
    = (Inr (hits ?P (inventory (tbl d))), upd_tbl (put_inventory (upd_where ?P ?f (inventory (tbl d)))) d)"
    using assms(1,3,4) by (simp add: stmt_ok on_table_def upd)
  have "distinct (map Inventory_ProductID (inventory (tbl d)))" using assms(2) by (simp add: wf_inventory_def)
  then have hits: "hits ?P (inventory (tbl d)) = 1 \<longleftrightarrow> in_stock d i" "hits ?P (inventory (tbl d)) \<le> 1"
    using hits_1_distinct [of Inventory_ProductID "inventory (tbl d)" ?P "Item_ProductID i"]
      hits_distinct [of Inventory_ProductID "inventory (tbl d)" ?P "Item_ProductID i"]
    by (auto simp: in_stock_def list_ex_iff)
  show "\<exists>d'. reserve_stock i d = (Inr (), d') \<and> replies d' = []" if "in_stock d i"
    using that hits(1) assms(1) unfolding reserve_stock_def bindE_def stmt by (simp add: ret_def)
  show "reserve_stock i d = (Inl (InsufficientStockError (Item_ProductID i)), d)" if "\<not> in_stock d i"
  proof -
    from that hits have none: "hits ?P (inventory (tbl d)) = 0" by simp
    then have "upd_where ?P ?f (inventory (tbl d)) = inventory (tbl d)" by (rule upd_where_none)
    then show ?thesis using none unfolding reserve_stock_def bindE_def stmt
      by (simp add: raise_def put_inventory_def)
  qed
qed

lemma in_stock_iff:
  assumes "wf_inv d" and "0 < Item_Quantity i"
  shows "in_stock d i \<longleftrightarrow> Item_Quantity i \<le> stock (inventory (tbl d)) (Item_ProductID i)"
proof -
  have row: "stock (inventory (tbl d)) (Item_ProductID i) = Inventory_Quantity r"
    if "r \<in> set (inventory (tbl d))" "Inventory_ProductID r = Item_ProductID i" for r
    using that assms(1) stock_row [of "inventory (tbl d)" r] by (simp add: wf_inventory_def)
  show ?thesis
  proof (cases "Item_ProductID i \<in> Inventory_ProductID ` set (inventory (tbl d))")
    case True
    then obtain r where "r \<in> set (inventory (tbl d))" "Inventory_ProductID r = Item_ProductID i" by auto
    then show ?thesis unfolding in_stock_def list_ex_iff using row by metis
  next
    case False
    then have "\<not> in_stock d i" unfolding in_stock_def list_ex_iff by (metis imageI)
    then show ?thesis using assms(2) stock_absent [OF False] by simp
  qed
qed

text \<open>The reservation loop stops at the first line whose product is short.\<close>

lemma reserve_loop_result:
  assumes "replies d = []" and "wf_inv d" and "distinct (map Item_ProductID its)"
    and "list_all (\<lambda>i. 0 < Item_Quantity i \<and> int4 (Item_Quantity i) \<and> int4 (Item_ProductID i)) its"
  shows "\<exists>d'. replies d' = [] \<and> forE its reserve_stock d =
    (case find (\<lambda>i. \<not> in_stock d i) its of
       None \<Rightarrow> Inr () | Some i \<Rightarrow> Inl (InsufficientStockError (Item_ProductID i)), d')"
  using assms
proof (induction its arbitrary: d)
  case Nil
  then show ?case by (simp add: ret_def)
next
  case (Cons i its)
  then have i: "0 < Item_Quantity i" "int4 (Item_Quantity i)" "int4 (Item_ProductID i)" by simp_all
  note one = reserve_stock_ok [OF Cons.prems(1,2) i(2,3,1)]
  show ?case
  proof (cases "in_stock d i")
    case False
    then show ?thesis using one(2) Cons.prems(1) by (simp add: bindE_def)
  next
    case True
    with one(1) obtain d1 where d1: "reserve_stock i d = (Inr (), d1)" "replies d1 = []" by blast
    note step = reserve_stock_Inr(1) [OF Cons.prems(2) d1(1)]
    have wf1: "wf_inv d1" using inv_step_wf [OF Cons.prems(2) step] .
    have "in_stock d1 j \<longleftrightarrow> in_stock d j" if "j \<in> set its" for j
    proof -
      have "Item_ProductID j \<noteq> Item_ProductID i" using Cons.prems(3) that by (auto simp: rev_image_eqI)
      then have "stock (inventory (tbl d1)) (Item_ProductID j) = stock (inventory (tbl d)) (Item_ProductID j)"
        using step by (simp add: inv_step_def inv_change_def)
      moreover have "0 < Item_Quantity j" using Cons.prems(4) that by (simp add: list_all_iff)
      ultimately show ?thesis using in_stock_iff [OF wf1] in_stock_iff [OF Cons.prems(2)] by simp
    qed
    then have "find (\<lambda>j. \<not> in_stock d1 j) its = find (\<lambda>j. \<not> in_stock d j) its"
      by (intro find_cong) simp_all
    moreover have "\<exists>d'. replies d' = [] \<and> forE its reserve_stock d1 =
        (case find (\<lambda>i. \<not> in_stock d1 i) its of
           None \<Rightarrow> Inr () | Some i \<Rightarrow> Inl (InsufficientStockError (Item_ProductID i)), d')"
      using Cons.prems(3,4) by (intro Cons.IH d1(2) wf1) simp_all
    ultimately show ?thesis using True d1(1) by (simp add: bindE_def)
  qed
qed

lemma insert_item_rows_ok:
  assumes "distinct (map item_key (order_items (tbl d) @ its))"
    and "list_all (\<lambda>i. 0 < Item_Quantity i \<and> money_ok d (Item_PriceAtPurchase i)) its"
    and "0 \<le> seq d T_order_items" "int4 (seq d T_order_items + int (length its))"
  shows "\<exists>its' d'. insert_item_rows its d = (Inr its', d') \<and> replies d' = replies d \<and>
    orders (tbl d') = orders (tbl d) \<and> products (tbl d') = products (tbl d)"
  using assms
proof (induction its arbitrary: d)
  case Nil
  then show ?case by (simp add: ret_def)
next
  case (Cons i its)
  let ?n = "seq d T_order_items"
  have "money_ok d (Item_PriceAtPurchase i)" using Cons.prems(2) by simp
  then obtain a where a: "numeric d (Item_PriceAtPurchase i) = Some a" "0 \<le> a" by (rule money_okE)
  let ?row = "i\<lparr>Item_ID := ?n, Item_PriceAtPurchase := a\<rparr>"
  let ?d = "upd_tbl (\<lambda>t. t\<lparr>order_items := order_items t @ [?row]\<rparr>) (d\<lparr>seq := (seq d)(T_order_items := ?n + 1)\<rparr>)"
  have n: "int4 ?n" using Cons.prems(3,4) by (simp add: int4_def)
  have key: "item_key ?row = item_key i" by (simp add: item_key_def)
  have fresh: "\<not> list_ex (\<lambda>r. item_key r = item_key i) (order_items (tbl d))"
    using Cons.prems(1) by (auto simp: list_ex_iff rev_image_eqI)
  have "distinct (map item_key (order_items (tbl ?d) @ its))" using Cons.prems(1) key by simp
  moreover have "int4 (seq ?d T_order_items + int (length its))" using Cons.prems(4) by (simp add: add.assoc)
  ultimately have "\<exists>its' d'. insert_item_rows its ?d = (Inr its', d') \<and> replies d' = replies ?d \<and>
      orders (tbl d') = orders (tbl ?d) \<and> products (tbl d') = products (tbl ?d)"
    using Cons.prems(2,3) by (intro Cons.IH [of ?d]) (simp_all add: money_ok_def)
  then obtain its' d' where rest: "insert_item_rows its ?d = (Inr its', d')" "replies d' = replies d"
    "orders (tbl d') = orders (tbl d)" "products (tbl d') = products (tbl d)"
    by auto
  have "0 < Item_Quantity i" using Cons.prems(2) by simp
  then have "insert_item_rows (i # its) d = (Inr (i\<lparr>Item_ID := ?n\<rparr> # its'), d')"
    using a n fresh rest(1)
    by (simp add: bindE_def nextval_def to_numeric_def require_that_def add_item_def ret_def)
  with rest show ?case by blast
qed

lemma insert_order_ok:
  assumes "replies d = []" and "int4 (Order_UserID ord)" and "int4 (seq d T_orders)"
    and "numeric d (Order_TotalPrice ord) = Some a" "0 \<le> a"
    and "Order_UserID ord \<in> set (map User_ID (users (tbl d)))"
  shows "\<exists>ord1 d'. insert_order now ord d = (Inr ord1, d') \<and> replies d' = []"
proof -
  have "list_ex (\<lambda>u. User_ID u = Order_UserID ord) (users (tbl d))"
    using assms(6) by (auto simp: list_ex_iff)
  then show ?thesis using assms(1-5)
    by (simp add: insert_order_def Let_def stmt_ok bindE_def nextval_def to_numeric_def require_that_def ret_def)
qed

lemma insert_payment_ok:
  assumes "replies d = []" and "int4 (Payment_OrderID pay)" and "int4 (seq d T_payments)"
    and "numeric d (Payment_Amount pay) = Some a" "0 \<le> a"
    and "Payment_IdempotencyKey pay \<notin> set (map Payment_IdempotencyKey (payments (tbl d)))"
    and "Payment_OrderID pay \<in> set (map Order_ID (orders (tbl d)))"
  shows "\<exists>pay1 d'. insert_payment now pay d = (Inr pay1, d') \<and> replies d' = []"
proof -
  have "\<not> list_ex (\<lambda>r. Payment_IdempotencyKey r = Payment_IdempotencyKey pay) (payments (tbl d))"
    using assms(6) by (auto simp: list_ex_iff rev_image_eqI)
  moreover have "list_ex (\<lambda>r. Order_ID r = Payment_OrderID pay) (orders (tbl d))"
    using assms(7) by (auto simp: list_ex_iff)
  ultimately show ?thesis using assms(1-5)
    by (simp add: insert_payment_def Let_def stmt_ok bindE_def nextval_def to_numeric_def require_that_def ret_def)
qed

lemma insert_items_ok:
  assumes "replies d = []" and "its \<noteq> []"
    and "list_all (\<lambda>i. int4 (Item_OrderID i) \<and> int4 (Item_ProductID i) \<and> int4 (Item_Quantity i)) its"
    and rows: "distinct (map item_key (order_items (tbl d) @ its))"
      "list_all (\<lambda>i. 0 < Item_Quantity i \<and> money_ok d (Item_PriceAtPurchase i)) its"
      "0 \<le> seq d T_order_items" "int4 (seq d T_order_items + int (length its))"
    and fk: "\<forall>i \<in> set its. Item_OrderID i \<in> set (map Order_ID (orders (tbl d)))"
      "\<forall>i \<in> set its. Item_ProductID i \<in> set (map Product_ID (products (tbl d)))"
  shows "\<exists>its' d'. insert_items its d = (Inr its', d') \<and> replies d' = []"
proof -
  obtain its' d' where ins: "insert_item_rows its d = (Inr its', d')" "replies d' = replies d"
    "orders (tbl d') = orders (tbl d)" "products (tbl d') = products (tbl d)"
    using insert_item_rows_ok [OF rows] by blast
  have args: "list_all int4 (concat (map (\<lambda>i. [Item_OrderID i, Item_ProductID i, Item_Quantity i]) its))"
    using assms(3) by (auto simp: list_all_iff)
  have "list_all (\<lambda>i. list_ex (\<lambda>r. Order_ID r = Item_OrderID i) (orders (tbl d)) \<and>
      list_ex (\<lambda>p. Product_ID p = Item_ProductID i) (products (tbl d))) its"
    using fk by (fastforce simp: list_all_iff list_ex_iff)
  then show ?thesis using assms(1,2) ins
    by (simp add: insert_items_def stmt_ok [OF assms(1) args] bindE_def require_that_def ret_def)
qed

lemma create_order_body_result:
  assumes ok: "replies d = []" and wf: "wf_db d" and rows: "rows_ok d ord pay"
  shows "\<exists>r d'. create_order_body t1 t2 ord pay d = (r, d') \<and> replies d' = [] \<and>
    (case find (\<lambda>i. \<not> in_stock d i) (Order_Items ord) of
       None \<Rightarrow> \<exists>x. r = Inr x | Some i \<Rightarrow> r = Inl (InsufficientStockError (Item_ProductID i)))"
proof -
  have wfi: "wf_inv d" using wf by (simp add: wf_db_def wf_tables_def)
  let ?its = "Order_Items ord"
  have lines: "distinct (map Item_ProductID ?its)"
    "list_all (\<lambda>i. 0 < Item_Quantity i \<and> int4 (Item_Quantity i) \<and> int4 (Item_ProductID i)) ?its"
    using rows by (auto simp: rows_ok_def list_all_iff)
  obtain d1 where loop: "forE ?its reserve_stock d = (case find (\<lambda>i. \<not> in_stock d i) ?its of
      None \<Rightarrow> Inr () | Some i \<Rightarrow> Inl (InsufficientStockError (Item_ProductID i)), d1)" and d1: "replies d1 = []"
    using reserve_loop_result [OF ok wfi lines] by blast
  show ?thesis
  proof (cases "find (\<lambda>i. \<not> in_stock d i) ?its")
    case (Some i)
    then show ?thesis using loop d1 by (simp add: create_order_body_def bindE_def)
  next
    case None
    then have l: "forE ?its reserve_stock d = (Inr (), d1)" using loop by simp
    note step = reserve_loop [OF wfi l]
    have inv: "tbl d1 = (tbl d)\<lparr>inventory := inventory (tbl d1)\<rparr>" "seq d1 = seq d" "numeric d1 = numeric d"
      using step(1) unfolding inv_step_def by blast+
    then have f: "orders (tbl d1) = orders (tbl d)" "order_items (tbl d1) = order_items (tbl d)"
      "payments (tbl d1) = payments (tbl d)" "users (tbl d1) = users (tbl d)" "products (tbl d1) = products (tbl d)"
      by (cases "tbl d1"; cases "tbl d"; simp)+
    obtain a where a: "numeric d (Order_TotalPrice ord) = Some a" "0 \<le> a" using rows by (auto simp: rows_ok_def elim: money_okE)
    obtain ord1 d2 where o: "insert_order t1 ord d1 = (Inr ord1, d2)" "replies d2 = []"
      using insert_order_ok [of d1 ord a t1] d1 inv f a rows by (auto simp: rows_ok_def)
    from o(1) obtain a2 where o1: "ord1 = ord\<lparr>Order_ID := seq d1 T_orders, Order_CreatedAt := auto_time t1 (Order_CreatedAt ord),
        Order_UpdatedAt := auto_time t1 (Order_UpdatedAt ord)\<rparr>"
      "tbl d2 = (tbl d1)\<lparr>orders := orders (tbl d1) @ [ord1\<lparr>Order_TotalPrice := a2, Order_Items := []\<rparr>]\<rparr>"
      "seq d2 = (seq d1)(T_orders := seq d1 T_orders + 1)" "numeric d2 = numeric d1"
      by (rule insert_order_Inr)
    let ?its1 = "map (\<lambda>i. i\<lparr>Item_OrderID := Order_ID ord1\<rparr>) (Order_Items ord1)"
    have id1: "Order_ID ord1 = seq d T_orders" "Order_Items ord1 = ?its" using o1(1) inv by simp_all
    have fresh: "Item_OrderID r \<noteq> seq d T_orders" if "r \<in> set (order_items (tbl d))" for r
    proof -
      have "Item_OrderID r \<in> Order_ID ` set (orders (tbl d))" "ids_ok Order_ID (seq d T_orders) (orders (tbl d))"
        using wf that by (simp_all add: wf_db_def wf_tables_def wf_items_def wf_orders_def)
      then show ?thesis using ids_ok_fresh by metis
    qed
    have "distinct (map item_key (order_items (tbl d)))"
      using wf by (simp add: wf_db_def wf_tables_def wf_items_def)
    then have keys: "distinct (map item_key (order_items (tbl d2) @ ?its1))"
      using lines(1) fresh id1 o1(2) f
      by (auto simp: distinct_map item_key_def inj_on_def)
    have fk: "\<forall>i \<in> set ?its. Item_ProductID i \<in> set (map Product_ID (products (tbl d)))"
      using step(2) wfi by (fastforce simp: wf_inventory_def)
    have r: "?its \<noteq> []" "int4 (seq d T_orders)"
      "\<forall>i \<in> set ?its. 0 < Item_Quantity i \<and> int4 (Item_Quantity i) \<and> int4 (Item_ProductID i) \<and>
         money_ok d (Item_PriceAtPurchase i)"
      "0 \<le> seq d T_order_items" "int4 (seq d T_order_items + int (length ?its))" "int4 (seq d T_payments)"
      "Payment_IdempotencyKey pay \<notin> set (map Payment_IdempotencyKey (payments (tbl d)))"
      using rows by (simp_all add: rows_ok_def list_all_iff)
    have s2: "seq d2 T_order_items = seq d T_order_items" "seq d2 T_payments = seq d T_payments"
      and n2: "numeric d2 = numeric d"
      using o1(3,4) inv by simp_all
    have "\<exists>its' d3. insert_items ?its1 d2 = (Inr its', d3) \<and> replies d3 = []"
    proof (rule insert_items_ok [OF o(2) _ _ keys], goal_cases)
      case 1 show ?case using r(1) id1(2) by simp
    next
      case 2 show ?case using r(2,3) id1 by (simp add: list_all_iff)
    next
      case 3 show ?case using r(3) id1(2) n2 by (simp add: list_all_iff money_ok_def)
    next
      case 4 show ?case using r(4) s2 by simp
    next
      case 5 show ?case using r(5) s2 id1(2) by simp
    next
      case 6 show ?case using o1(2) by simp
    next
      case 7 show ?case using fk o1(2) f(5) id1(2) by simp
    qed
    then obtain its' d3 where i: "insert_items ?its1 d2 = (Inr its', d3)" "replies d3 = []" by blast
    have "ids_ok Item_ID (seq d2 T_order_items) (order_items (tbl d2))"
      using wf o1(2,3) inv f by (simp add: wf_db_def wf_tables_def wf_items_def)
    moreover have "distinct (map item_key (order_items (tbl d2)))" using keys by simp
    ultimately obtain rws n where i1: "tbl d3 = (tbl d2)\<lparr>order_items := order_items (tbl d2) @ rws\<rparr>"
      "seq d3 = (seq d2)(T_order_items := n)" "numeric d3 = numeric d2"
      by (rule insert_items_Inr [OF i(1)])
    obtain c where c: "numeric d (Payment_Amount pay) = Some c" "0 \<le> c" using rows by (auto simp: rows_ok_def elim: money_okE)
    obtain pay1 d4 where "insert_payment t2 (pay\<lparr>Payment_OrderID := Order_ID ord1\<rparr>) d3 = (Inr pay1, d4)"
      "replies d4 = []"
      using insert_payment_ok [of d3 "pay\<lparr>Payment_OrderID := Order_ID ord1\<rparr>" c t2] i(2) i1 s2 n2 o1(2) f(3) c r(2,6,7) id1(1)
      by auto
    with None l o(1) i(1) show ?thesis
      by (simp add: create_order_body_def bindE_def map_err_def ret_def)
  qed
qed

lemma create_order_body_created:
  assumes "wf_db d" and "create_order_body t1 t2 ord pay d = (Inr x, d')"
  shows "order_created d ord pay d'"
proof -
  obtain ord' pay' where "x = (ord', pay')" by (cases x)
  with assms(2) have "create_order_body t1 t2 ord pay d = (Inr (ord', pay'), d')" by simp
  with assms(1) show ?thesis
    by (rule create_order_body_Inr) (unfold order_created_def, blast)
qed

lemma item_row_same: "same d d1 \<Longrightarrow> item_row d1 = item_row d"
  by (simp add: fun_eq_iff item_row_def)

lemma order_created_same:
  "same d d1 \<Longrightarrow> same d2 d' \<Longrightarrow> order_created d1 ord pay d2 \<Longrightarrow> order_created d ord pay d'"
  by (simp add: order_created_def item_row_same)

lemma CreateOrder_outcome_stock:
  assumes "replies d = []" and "wf_db d" and "rows_ok d ord pay"
  shows "case find (\<lambda>i. \<not> in_stock d i) (Order_Items ord) of
      None \<Rightarrow> \<exists>ord' pay' d'. repo_CreateOrder t1 t2 ord pay d = (Inr (ord', pay'), d') \<and>
        order_created d ord pay d'
    | Some i \<Rightarrow> \<exists>d'. repo_CreateOrder t1 t2 ord pay d =
        (Inl (InsufficientStockError (Item_ProductID i)), d') \<and> tbl d' = tbl d"
proof -
  obtain r d' where body: "create_order_body t1 t2 ord pay d = (r, d')" "replies d' = []"
    and r: "case find (\<lambda>i. \<not> in_stock d i) (Order_Items ord) of
       None \<Rightarrow> \<exists>x. r = Inr x | Some i \<Rightarrow> r = Inl (InsufficientStockError (Item_ProductID i))"
    using create_order_body_result [OF assms] by blast
  show ?thesis
  proof (cases "find (\<lambda>i. \<not> in_stock d i) (Order_Items ord)")
    case None
    with r obtain x where x: "r = Inr x" by auto
    with body assms have "repo_CreateOrder t1 t2 ord pay d = (Inr x, d')" "order_created d ord pay d'"
      by (simp_all add: repo_CreateOrder_def transaction_no_faults create_order_body_created)
    then show ?thesis using None by (cases x) simp
  next
    case (Some i)
    with r body assms(1) show ?thesis
      by (simp add: repo_CreateOrder_def transaction_body_error rollback_def)
  qed
qed

section \<open>Properties\<close>

text \<open>
  C1. \<open>CreateOrder\<close> on a well-formed database that answers every statement, for lines of distinct
  products that satisfy the schema: if every line is in stock the call succeeds and the database
  gains exactly the order, its items and its pending payment, with the stock of every product reduced
  by the ordered quantity; otherwise the answer is \<open>InsufficientStockError\<close> of the first line that is
  short, and no table changes.
\<close>

theorem CreateOrder_outcome:
  assumes "replies d = []" and "wf_db d" and "rows_ok d ord pay"
  shows "case find (\<lambda>i. \<not> in_stock d i) (Order_Items ord) of
      None \<Rightarrow> \<exists>ord' pay' d'. repo_CreateOrder t1 t2 ord pay d = (Inr (ord', pay'), d') \<and>
        order_created d ord pay d'
    | Some i \<Rightarrow> \<exists>d'. repo_CreateOrder t1 t2 ord pay d =
        (Inl (InsufficientStockError (Item_ProductID i)), d') \<and> tbl d' = tbl d"
  using assms by (rule CreateOrder_outcome_stock)

theorem CreateOrder_outcome_witness:
  "replies sample_db = [] \<and> wf_db sample_db \<and> rows_ok sample_db sample_new_order sample_new_payment \<and>
   (\<exists>ord' pay' d'. repo_CreateOrder 60 61 sample_new_order sample_new_payment sample_db
      = (Inr (ord', pay'), d') \<and> order_created sample_db sample_new_order sample_new_payment d')"
proof -
  have "rows_ok sample_db sample_new_order sample_new_payment"
    "find (\<lambda>i. \<not> in_stock sample_db i) (Order_Items sample_new_order) = None"
    by code_simp+
  then show ?thesis
    using CreateOrder_outcome [of sample_db sample_new_order sample_new_payment 60 61] by simp
qed

text \<open>
  C2. \<open>CreateOrder\<close> is atomic under every fault of the connection: when it returns no error the order,
  its items, its payment and the reservation are all there; when it returns an error either no table
  changed, or the error is one of the driver and the whole order is there (the acknowledgement of the
  commit was lost).
\<close>

theorem CreateOrder_atomic:
  assumes "wf_db d" and "repo_CreateOrder t1 t2 ord pay d = (r, d')"
  shows "case r of Inr _ \<Rightarrow> order_created d ord pay d'
    | Inl e \<Rightarrow> tbl d' = tbl d \<or> (\<exists>m. e = DriverError m) \<and> order_created d ord pay d'"
proof -
  have body: "order_created d ord pay d3"
    if "same d d1" "create_order_body t1 t2 ord pay d1 = (Inr x, d2)" "same d2 d3" for d1 x d2 d3
    using that assms(1) create_order_body_created [of d1] order_created_same [of d d1 d2] by simp
  from assms(2) show ?thesis
    unfolding repo_CreateOrder_def
    by (cases rule: transaction_cases) (use body in \<open>auto simp: rollback_def\<close>)
qed

text \<open>The sample database with a connection that breaks right after the seventh exchange, the commit.\<close>

definition sample_lost :: pg where
  "sample_lost = sample_db\<lparr>replies := [Ok, Ok, Ok, Ok, Ok, Ok, Lost ''broken pipe'']\<rparr>"

theorem CreateOrder_atomic_witness:
  "wf_db sample_lost \<and>
   (\<exists>d'. repo_CreateOrder 60 61 sample_new_order sample_new_payment sample_lost
      = (Inl (DriverError ''broken pipe''), d') \<and>
      length (orders (tbl d')) = 3 \<and> order_created sample_lost sample_new_order sample_new_payment d')"
proof -
  have wf: "wf_db sample_lost" by code_simp
  let ?c = "repo_CreateOrder 60 61 sample_new_order sample_new_payment sample_lost"
  obtain d' where d': "?c = (fst ?c, d')" by (cases ?c) simp
  have "fst ?c = Inl (DriverError ''broken pipe'')" by code_simp
  with d' have c: "?c = (Inl (DriverError ''broken pipe''), d')" by metis
  have len: "length (orders (tbl (snd ?c))) = 3" "length (orders (tbl sample_lost)) = 2" by code_simp+
  have "tbl d' \<noteq> tbl sample_lost" using len c by auto
  then show ?thesis using CreateOrder_atomic [OF wf c] len(1) c wf by auto
qed

text \<open>
  C3. \<open>CreateOrder\<close> keeps the invariant of the database and the number of units of every product,
  whatever the connection does; so the orders that are not cancelled never hold more units than there
  are (no overselling), and no stock is negative.
\<close>

theorem CreateOrder_no_oversell:
  assumes "wf_db d" and "new_order ord pay" and "repo_CreateOrder t1 t2 ord pay d = (r, d')"
  shows "wf_db d' \<and> (\<forall>p. units (tbl d') p = units (tbl d) p \<and>
    0 \<le> stock (inventory (tbl d')) p \<and> allocated (tbl d') p \<le> units (tbl d) p)"
proof -
  have wf: "wf_db d'" using assms by (rule CreateOrder_wf)
  moreover have units: "units (tbl d') p = units (tbl d) p" for p using assms by (rule CreateOrder_units)
  moreover have "0 \<le> stock (inventory (tbl d')) p" for p
    using wf wf_stock_nonneg by (intro stock_nonneg) auto
  ultimately show ?thesis using allocated_le_units [OF wf] by simp
qed

theorem CreateOrder_no_oversell_witness:
  "wf_db sample_db \<and> new_order sample_new_order sample_new_payment \<and>
   (\<exists>r d'. repo_CreateOrder 60 61 sample_new_order sample_new_payment sample_db = (r, d') \<and>
      wf_db d' \<and> units (tbl d') 1 = 5 \<and> allocated (tbl d') 1 = 4)"
proof -
  let ?c = "repo_CreateOrder 60 61 sample_new_order sample_new_payment sample_db"
  have new: "new_order sample_new_order sample_new_payment" by code_simp
  have "units (tbl sample_db) 1 = 5" "allocated (tbl (snd ?c)) 1 = 4" by code_simp+
  then show ?thesis
    using CreateOrder_no_oversell [OF wf_sample new, of 60 61 "fst ?c" "snd ?c"] new
    by (metis prod.collapse wf_sample)
qed

end
