(* ===== verification/ProductRepo.thy ===== *)
theory ProductRepo
  imports OrderLifecycle "HOL-Library.Sublist"
begin

text \<open>
  \<open>internal/repository/product.go\<close>: products and their inventory rows.

  A product row holds no inventory; the reads with \<open>Preload("Inventory")\<close> fill the field with a
  second query. \<open>Create\<close> and \<open>Save\<close> are gorm's: a struct with a zero primary key is inserted, any other
  is updated by its key, and an update that hits no row falls back to an insert with that key, which
  the \<open>GENERATED ALWAYS\<close> identity refuses.
\<close>

section \<open>Reads\<close>

definition scan_product :: "Product \<Rightarrow> Product" where
  "scan_product p = p\<lparr>Product_Price := fl (Product_Price p), Product_Inventory := None\<rparr>"

text \<open>\<open>Preload("Inventory")\<close> on products that were read.\<close>

definition with_inventory :: "Inventory list \<Rightarrow> Product \<Rightarrow> Product" where
  "with_inventory rows p = p\<lparr>Product_Inventory := find (\<lambda>r. Inventory_ProductID r = Product_ID p) rows\<rparr>"

definition preload_inventory :: "Product list \<Rightarrow> Product list dbm" where
  "preload_inventory ps =
     (if ps = [] then ret []
      else bindE (query (map Product_ID ps)
             (\<lambda>t. filter (\<lambda>r. Inventory_ProductID r \<in> set (map Product_ID ps)) (inventory t)))
        (\<lambda>rows. ret (map (with_inventory rows) ps)))"

text \<open>\<open>Offset(n)\<close> is only sent when it is positive.\<close>

definition sql_offset :: "int \<Rightarrow> 'a list \<Rightarrow> 'a list" where
  "sql_offset n rs = (if n \<le> 0 then rs else drop (nat n) rs)"

definition repo_ListProducts :: "int \<Rightarrow> int \<Rightarrow> (Product list \<times> int) dbm" where
  "repo_ListProducts limit offset =
     bindE (query [] (\<lambda>t. int (length (products t)))) (\<lambda>n.
     bindE (query [] (\<lambda>t. map scan_product
        (sql_limit limit (sql_offset offset (sort_key Product_ID (products t)))))) (\<lambda>ps.
     bindE (preload_inventory ps) (\<lambda>ps'. ret (ps', n))))"

definition repo_GetProduct :: "int \<Rightarrow> Product dbm" where
  "repo_GetProduct i =
     bindE (query [i] (\<lambda>t. first_by Product_ID (\<lambda>p. Product_ID p = i) (products t))) (\<lambda>r.
     bindE (of_result r) (\<lambda>p.
     bindE (preload_inventory [scan_product p]) (\<lambda>ps. ret (hd ps))))"

definition GetProductsByIDs :: "int list \<Rightarrow> Product list dbm" where
  "GetProductsByIDs ids =
     query ids (\<lambda>t. map scan_product (filter (\<lambda>p. Product_ID p \<in> set ids) (products t)))"

definition repo_GetInventory :: "int \<Rightarrow> Inventory dbm" where
  "repo_GetInventory productID =
     bindE (query [productID] (\<lambda>t. first_by Inventory_ID (\<lambda>r. Inventory_ProductID r = productID) (inventory t)))
       of_result"

section \<open>Writes\<close>

definition insert_product :: "time \<Rightarrow> Product \<Rightarrow> Product dbm" where
  "insert_product now p =
     (let p1 = p\<lparr>Product_CreatedAt := auto_time now (Product_CreatedAt p),
                 Product_UpdatedAt := auto_time now (Product_UpdatedAt p)\<rparr>
      in stmt []
        (bindE (nextval T_products) (\<lambda>i.
         bindE (to_numeric (Product_Price p)) (\<lambda>a.
         bindE (require_that (0 \<le> a) ErrCheckConstraintViolated) (\<lambda>_.
         \<lambda>d. (Inr (p1\<lparr>Product_ID := i\<rparr>),
              upd_tbl (\<lambda>t. t\<lparr>products := products t @
                [p1\<lparr>Product_ID := i, Product_Price := a, Product_Inventory := None\<rparr>]\<rparr>) d))))))"

definition insert_inventory :: "time \<Rightarrow> Inventory \<Rightarrow> Inventory dbm" where
  "insert_inventory now v =
     (let v1 = v\<lparr>Inventory_UpdatedAt := auto_time now (Inventory_UpdatedAt v)\<rparr>
      in stmt [Inventory_ProductID v, Inventory_Quantity v]
        (bindE (nextval T_inventory) (\<lambda>i.
         bindE (require_that (0 \<le> Inventory_Quantity v) ErrCheckConstraintViolated) (\<lambda>_.
         bindE (\<lambda>d. require_that
                 (\<not> list_ex (\<lambda>r. Inventory_ProductID r = Inventory_ProductID v) (inventory (tbl d)))
                 ErrDuplicatedKey d) (\<lambda>_.
         bindE (\<lambda>d. require_that (list_ex (\<lambda>p. Product_ID p = Inventory_ProductID v) (products (tbl d)))
                     ErrForeignKeyViolated d) (\<lambda>_.
         \<lambda>d. (Inr (v1\<lparr>Inventory_ID := i\<rparr>),
              upd_tbl (\<lambda>t. t\<lparr>inventory := inventory t @ [v1\<lparr>Inventory_ID := i\<rparr>]\<rparr>) d)))))))"

text \<open>\<open>db.Create(product)\<close>: the product, then its association, in gorm's own transaction.\<close>

definition create_product_body :: "time \<Rightarrow> time \<Rightarrow> Product \<Rightarrow> Product dbm" where
  "create_product_body t1 t2 p =
     bindE (insert_product t1 p) (\<lambda>p1.
       case Product_Inventory p1 of
         None \<Rightarrow> ret p1
       | Some v \<Rightarrow> bindE (insert_inventory t2 (v\<lparr>Inventory_ProductID := Product_ID p1\<rparr>))
           (\<lambda>v1. ret (p1\<lparr>Product_Inventory := Some v1\<rparr>)))"

definition repo_CreateProduct :: "time \<Rightarrow> time \<Rightarrow> Product \<Rightarrow> Product dbm" where
  "repo_CreateProduct t1 t2 p = transaction (create_product_body t1 t2 p)"

definition identity_always :: go_error where
  "identity_always = DriverError ''cannot insert a non-DEFAULT value into column id''"

definition check_product :: "Product \<Rightarrow> go_error option" where
  "check_product r = (if Product_Price r < 0 then Some ErrCheckConstraintViolated else None)"

definition save_product :: "time \<Rightarrow> Product \<Rightarrow> Product dbm" where
  "save_product now p =
     bindE
       (stmt [Product_ID p]
         (bindE (to_numeric (Product_Price p)) (\<lambda>a.
          on_table products put_products
            (sql_update (\<lambda>r. Product_ID r = Product_ID p)
              (\<lambda>r. p\<lparr>Product_Price := a, Product_Inventory := None, Product_UpdatedAt := now\<rparr>) check_product))))
       (\<lambda>n. if n = 0 then stmt [] (raise identity_always) else ret (p\<lparr>Product_UpdatedAt := now\<rparr>))"

definition save_inventory :: "time \<Rightarrow> Inventory \<Rightarrow> Inventory dbm" where
  "save_inventory now v =
     (if Inventory_ID v = 0 then insert_inventory now v
      else
        bindE
          (stmt [Inventory_ID v, Inventory_ProductID v, Inventory_Quantity v]
            (bindE (on_table inventory put_inventory
               (sql_update (\<lambda>r. Inventory_ID r = Inventory_ID v) (\<lambda>r. v\<lparr>Inventory_UpdatedAt := now\<rparr>)
                 check_inventory)) (\<lambda>n.
             bindE (\<lambda>d. require_that
                 (n = 0 \<or> hits (\<lambda>r. Inventory_ProductID r = Inventory_ProductID v) (inventory (tbl d)) = 1)
                 ErrDuplicatedKey d) (\<lambda>_.
             bindE (\<lambda>d. require_that
                 (n = 0 \<or> list_ex (\<lambda>p. Product_ID p = Inventory_ProductID v) (products (tbl d)))
                 ErrForeignKeyViolated d) (\<lambda>_. ret n)))))
          (\<lambda>n. if n = 0 then stmt [] (raise identity_always) else ret (v\<lparr>Inventory_UpdatedAt := now\<rparr>)))"

definition update_product_body :: "time \<Rightarrow> time \<Rightarrow> Product \<Rightarrow> Product dbm" where
  "update_product_body t1 t2 p =
     bindE (save_product t1 p) (\<lambda>p1.
       case Product_Inventory p1 of
         None \<Rightarrow> ret p1
       | Some v \<Rightarrow> bindE (save_inventory t2 v) (\<lambda>v1. ret (p1\<lparr>Product_Inventory := Some v1\<rparr>)))"

definition repo_UpdateProduct :: "time \<Rightarrow> time \<Rightarrow> Product \<Rightarrow> Product dbm" where
  "repo_UpdateProduct t1 t2 p = transaction (update_product_body t1 t2 p)"

section \<open>The invariant\<close>

lemma seq_grows_insert_product [simp, intro]: "seq_grows (insert_product now p)"
  unfolding insert_product_def Let_def by (intro seq_grows_intros)

lemma seq_grows_insert_inventory [simp, intro]: "seq_grows (insert_inventory now v)"
  unfolding insert_inventory_def Let_def by (intro seq_grows_intros)

lemma seq_grows_create_product_body: "seq_grows (create_product_body t1 t2 p)"
  unfolding create_product_body_def
  by (intro seq_grows_bind seq_grows_insert_product) (auto intro!: seq_grows_intros split: option.split)

lemma seq_grows_update_product_body: "seq_grows (update_product_body t1 t2 p)"
proof -
  have "seq_grows (save_product t1 p)"
    unfolding save_product_def by (intro seq_grows_intros)
  moreover have "seq_grows (save_inventory t2 v)" for v
    unfolding save_inventory_def by (intro seq_grows_intros seq_grows_insert_inventory)
  ultimately show ?thesis
    unfolding update_product_body_def by (auto intro!: seq_grows_intros split: option.split)
qed

lemma insert_product_Inr:
  assumes "insert_product now p d = (Inr p1, d')"
  obtains a where "numeric d (Product_Price p) = Some a" "0 \<le> a" "int4 (seq d T_products)"
    "p1 = p\<lparr>Product_ID := seq d T_products,
       Product_CreatedAt := auto_time now (Product_CreatedAt p),
       Product_UpdatedAt := auto_time now (Product_UpdatedAt p)\<rparr>"
    "tbl d' = (tbl d)\<lparr>products := products (tbl d) @ [p1\<lparr>Product_Price := a, Product_Inventory := None\<rparr>]\<rparr>"
    "seq d' = (seq d)(T_products := seq d T_products + 1)" "numeric d' = numeric d"
  using assms unfolding insert_product_def Let_def
  by (auto simp: bindE_Inr nextval_Inr dest!: stmt_Inr)

lemma insert_inventory_Inr:
  assumes "insert_inventory now v d = (Inr v1, d')"
  obtains "0 \<le> Inventory_Quantity v" "int4 (Inventory_Quantity v)"
    "v1 = v\<lparr>Inventory_ID := seq d T_inventory, Inventory_UpdatedAt := auto_time now (Inventory_UpdatedAt v)\<rparr>"
    "tbl d' = (tbl d)\<lparr>inventory := inventory (tbl d) @ [v1]\<rparr>"
    "seq d' = (seq d)(T_inventory := seq d T_inventory + 1)"
    "Inventory_ProductID v \<notin> set (map Inventory_ProductID (inventory (tbl d)))"
    "Inventory_ProductID v \<in> set (map Product_ID (products (tbl d)))"
proof -
  obtain d1 where d1: "same d d1" and args: "list_all int4 [Inventory_ProductID v, Inventory_Quantity v]"
    and q: "0 \<le> Inventory_Quantity v"
    and uniq: "\<not> list_ex (\<lambda>r. Inventory_ProductID r = Inventory_ProductID v) (inventory (tbl d))"
    and fk: "list_ex (\<lambda>p. Product_ID p = Inventory_ProductID v) (products (tbl d))"
    and v1: "v1 = v\<lparr>Inventory_UpdatedAt := auto_time now (Inventory_UpdatedAt v), Inventory_ID := seq d T_inventory\<rparr>"
    and d': "d' = upd_tbl (\<lambda>t. t\<lparr>inventory := inventory t @ [v1]\<rparr>) (d1\<lparr>seq := (seq d)(T_inventory := seq d T_inventory + 1)\<rparr>)"
    using assms unfolding insert_inventory_def Let_def
    by (auto simp: bindE_Inr dest!: stmt_Inr)
  show ?thesis
  proof (rule that)
    show "Inventory_ProductID v \<notin> set (map Inventory_ProductID (inventory (tbl d)))"
      using uniq by (simp add: list_ex_key)
    show "Inventory_ProductID v \<in> set (map Product_ID (products (tbl d)))"
      using fk by (simp add: list_ex_key)
  qed (use args q v1 d' d1 in simp_all)
qed

lemma ids_ok_map:
  assumes "map k rs' = map k rs"
  shows "ids_ok k n rs' \<longleftrightarrow> ids_ok k n rs"
proof -
  have "k ` set rs' = k ` set rs" using arg_cong [OF assms, of set] by simp
  then have "(\<forall>r \<in> set rs'. k r < n) \<longleftrightarrow> (\<forall>r \<in> set rs. k r < n)" by (metis (no_types, lifting) imageE imageI)
  then show ?thesis using assms by (simp add: ids_ok_def)
qed

lemma wf_add_product:
  assumes wf: "wf_tables s t" and p: "Product_ID p = s T_products"
  shows "wf_tables (s(T_products := s T_products + 1)) (t\<lparr>products := products t @ [p]\<rparr>)"
  using wf p unfolding wf_tables_def wf_inventory_def
  by (auto intro: ids_ok_snoc)

lemma wf_add_inventory:
  assumes wf: "wf_tables s t" and v: "Inventory_ID v = s T_inventory"
    "0 \<le> Inventory_Quantity v" "int4 (Inventory_Quantity v)"
    "Inventory_ProductID v \<notin> set (map Inventory_ProductID (inventory t))"
    "Inventory_ProductID v \<in> set (map Product_ID (products t))"
  shows "wf_tables (s(T_inventory := s T_inventory + 1)) (t\<lparr>inventory := inventory t @ [v]\<rparr>)"
proof -
  have "wf_inventory (s T_inventory + 1) (set (map Product_ID (products t))) (inventory t @ [v])"
    using wf v unfolding wf_tables_def wf_inventory_def by (auto intro: ids_ok_snoc)
  moreover have "wf_items (s T_order_items) (set (map Order_ID (orders t)))
      (set (map Inventory_ProductID (inventory t @ [v]))) (order_items t)"
    using wf unfolding wf_tables_def wf_items_def by auto
  ultimately show ?thesis using wf by (simp add: wf_tables_def)
qed

lemma create_product_body_keeps:
  assumes wf: "wf_db d" and res: "create_product_body t1 t2 p d = (Inr x, d')"
  shows "wf_db d'" and "orders (tbl d') = orders (tbl d)" and "order_items (tbl d') = order_items (tbl d)"
    and "payments (tbl d') = payments (tbl d)" and "prefix (inventory (tbl d)) (inventory (tbl d'))"
proof -
  obtain p1 d1 where i: "insert_product t1 p d = (Inr p1, d1)"
    and k: "(case Product_Inventory p1 of None \<Rightarrow> ret p1
      | Some v \<Rightarrow> bindE (insert_inventory t2 (v\<lparr>Inventory_ProductID := Product_ID p1\<rparr>))
           (\<lambda>v1. ret (p1\<lparr>Product_Inventory := Some v1\<rparr>))) d1 = (Inr x, d')"
    using res unfolding create_product_body_def bindE_Inr by blast
  from i obtain a where a: "p1 = p\<lparr>Product_ID := seq d T_products, Product_CreatedAt := auto_time t1 (Product_CreatedAt p),
       Product_UpdatedAt := auto_time t1 (Product_UpdatedAt p)\<rparr>"
    "tbl d1 = (tbl d)\<lparr>products := products (tbl d) @ [p1\<lparr>Product_Price := a, Product_Inventory := None\<rparr>]\<rparr>"
    "seq d1 = (seq d)(T_products := seq d T_products + 1)"
    by (rule insert_product_Inr)
  have wf1: "wf_tables (seq d1) (tbl d1)"
    using wf a(1) unfolding a(2,3) by (intro wf_add_product) (simp_all add: wf_db_def)
  have "wf_db d' \<and> orders (tbl d') = orders (tbl d) \<and> order_items (tbl d') = order_items (tbl d) \<and>
      payments (tbl d') = payments (tbl d) \<and> prefix (inventory (tbl d)) (inventory (tbl d'))"
  proof (cases "Product_Inventory p1")
    case None
    then show ?thesis using k wf1 a(2) by (simp add: wf_db_def ret_def)
  next
    case (Some v)
    then obtain v1 where "insert_inventory t2 (v\<lparr>Inventory_ProductID := Product_ID p1\<rparr>) d1 = (Inr v1, d')"
      using k by (auto simp: bindE_Inr ret_def)
    then show ?thesis
      by (rule insert_inventory_Inr)
        (use wf_add_inventory [OF wf1] a(2) in \<open>simp add: wf_db_def\<close>)
  qed
  then show "wf_db d'" "orders (tbl d') = orders (tbl d)" "order_items (tbl d') = order_items (tbl d)"
    "payments (tbl d') = payments (tbl d)" "prefix (inventory (tbl d)) (inventory (tbl d'))" by blast+
qed

text \<open>\<open>p\<close> and its inventory were read from the database (or the inventory row is to be inserted).\<close>

definition known_product :: "tables \<Rightarrow> Product \<Rightarrow> bool" where
  "known_product t p \<longleftrightarrow>
     Product_ID p \<in> set (map Product_ID (products t)) \<and>
     (case Product_Inventory p of
        None \<Rightarrow> True
      | Some v \<Rightarrow> Inventory_ProductID v = Product_ID p \<and>
          (Inventory_ID v = 0 \<or>
           list_ex (\<lambda>r. Inventory_ID r = Inventory_ID v \<and> Inventory_ProductID r = Inventory_ProductID v) (inventory t)))"

lemma save_product_Inr:
  assumes "save_product now p d = (Inr p1, d')"
  obtains a where "numeric d (Product_Price p) = Some a" "0 \<le> a" "p1 = p\<lparr>Product_UpdatedAt := now\<rparr>"
    "Product_ID p \<in> set (map Product_ID (products (tbl d)))"
    "tbl d' = (tbl d)\<lparr>products := upd_where (\<lambda>r. Product_ID r = Product_ID p)
       (\<lambda>r. p\<lparr>Product_Price := a, Product_Inventory := None, Product_UpdatedAt := now\<rparr>) (products (tbl d))\<rparr>"
    "seq d' = seq d" "numeric d' = numeric d"
proof -
  let ?P = "\<lambda>r. Product_ID r = Product_ID p"
  let ?f = "\<lambda>a r. p\<lparr>Product_Price := a, Product_Inventory := None, Product_UpdatedAt := now\<rparr>"
  obtain d1 a where d1: "same d d1" and a: "numeric d (Product_Price p) = Some a"
    and n: "hits ?P (products (tbl d)) \<noteq> 0"
    and chk: "\<forall>r \<in> set (products (tbl d)). ?P r \<longrightarrow> check_product (?f a r) = None"
    and p1: "p1 = p\<lparr>Product_UpdatedAt := now\<rparr>"
    and d': "d' = upd_tbl (put_products (upd_where ?P (?f a) (products (tbl d)))) d1"
    using assms unfolding save_product_def
    by (auto simp: bindE_Inr on_table_Inr sql_update_Inr ret_def raise_def split: if_splits dest!: stmt_Inr)
  have "\<exists>r \<in> set (products (tbl d)). ?P r" using n by (auto simp: hits_0_iff)
  then have "Product_ID p \<in> set (map Product_ID (products (tbl d)))" "0 \<le> a"
    using chk by (auto simp: check_product_def rev_image_eqI split: if_splits)
  with that show ?thesis using a p1 d' d1 by (simp add: put_products_def)
qed

text \<open>\<open>set_stock v t t'\<close>: only the inventory differs, and it now holds \<open>v\<close>'s quantity of \<open>v\<close>'s product.\<close>

definition set_stock :: "Inventory \<Rightarrow> tables \<Rightarrow> tables \<Rightarrow> bool" where
  "set_stock v t t' \<longleftrightarrow>
     t' = t\<lparr>inventory := inventory t'\<rparr> \<and> 0 \<le> Inventory_Quantity v \<and>
     (\<forall>p. stock (inventory t') p = (if p = Inventory_ProductID v then Inventory_Quantity v else stock (inventory t) p))"

lemma stock_append: "stock (rs @ ss) p = stock rs p + stock ss p"
  by (induction rs) auto

lemma stock_set_row:
  assumes "distinct (map Inventory_ProductID rs)" and "r \<in> set rs"
    and "\<And>q. q \<in> set rs \<Longrightarrow> P q \<longleftrightarrow> q = r" and "Inventory_ProductID v = Inventory_ProductID r"
  shows "stock (upd_where P (\<lambda>_. v) rs) p = (if p = Inventory_ProductID v then Inventory_Quantity v else stock rs p)"
  using assms
proof (induction rs)
  case (Cons a rs)
  show ?case
  proof (cases "a = r")
    case True
    have "\<not> P q" if "q \<in> set rs" for q
    proof -
      have "q \<noteq> r" using that Cons.prems(1) True by auto
      then show ?thesis using Cons.prems(3) [of q] that by simp
    qed
    then have "upd_where P (\<lambda>_. v) rs = rs" by (intro upd_where_none) (simp add: hits_0_iff)
    moreover have "stock rs (Inventory_ProductID r) = 0"
      using Cons.prems(1) True by (intro stock_absent) auto
    ultimately show ?thesis using True Cons.prems(3) [of a] Cons.prems(4) by auto
  next
    case False
    then have "Inventory_ProductID a \<noteq> Inventory_ProductID r"
      using Cons.prems(1,2) by (auto simp: rev_image_eqI)
    moreover have "\<not> P a" using False Cons.prems(3) [of a] by simp
    moreover have "stock (upd_where P (\<lambda>_. v) rs) p
        = (if p = Inventory_ProductID v then Inventory_Quantity v else stock rs p)"
      using Cons.prems False by (intro Cons.IH) auto
    ultimately show ?thesis using Cons.prems(4) by auto
  qed
qed simp

lemma save_inventory_update:
  assumes "save_inventory now v d = (Inr v1, d')" and "Inventory_ID v \<noteq> 0"
  obtains "0 \<le> Inventory_Quantity v" "int4 (Inventory_Quantity v)"
    "v1 = v\<lparr>Inventory_UpdatedAt := now\<rparr>" "seq d' = seq d"
    "tbl d' = (tbl d)\<lparr>inventory := upd_where (\<lambda>r. Inventory_ID r = Inventory_ID v)
       (\<lambda>r. v\<lparr>Inventory_UpdatedAt := now\<rparr>) (inventory (tbl d))\<rparr>"
proof -
  let ?P = "\<lambda>r. Inventory_ID r = Inventory_ID v"
  obtain d1 where d1: "same d d1" and n: "hits ?P (inventory (tbl d)) \<noteq> 0"
    and chk: "\<forall>r \<in> set (inventory (tbl d)). ?P r \<longrightarrow> check_inventory (v\<lparr>Inventory_UpdatedAt := now\<rparr>) = None"
    and v1: "v1 = v\<lparr>Inventory_UpdatedAt := now\<rparr>"
    and d': "d' = upd_tbl (put_inventory (upd_where ?P (\<lambda>r. v\<lparr>Inventory_UpdatedAt := now\<rparr>) (inventory (tbl d)))) d1"
    using assms unfolding save_inventory_def
    by (auto simp: bindE_Inr on_table_Inr sql_update_Inr ret_def raise_def split: if_splits dest!: stmt_Inr)
  have "\<exists>r \<in> set (inventory (tbl d)). ?P r" using n by (auto simp: hits_0_iff)
  then have "0 \<le> Inventory_Quantity v" "int4 (Inventory_Quantity v)"
    using chk by (auto simp: check_inventory_def split: if_splits)
  then show ?thesis by (intro that) (use v1 d' d1 in \<open>simp_all add: put_inventory_def\<close>)
qed

lemma save_inventory_keeps:
  assumes wf: "wf_db d" and res: "save_inventory now v d = (Inr v1, d')"
    and known: "Inventory_ID v = 0 \<or>
      list_ex (\<lambda>r. Inventory_ID r = Inventory_ID v \<and> Inventory_ProductID r = Inventory_ProductID v) (inventory (tbl d))"
  shows "wf_db d'" and "set_stock v (tbl d) (tbl d')"
proof -
  have "wf_db d' \<and> set_stock v (tbl d) (tbl d')"
  proof (cases "Inventory_ID v = 0")
    case True
    with res have "insert_inventory now v d = (Inr v1, d')" by (simp add: save_inventory_def)
    then show ?thesis
    proof (rule insert_inventory_Inr)
      assume i: "0 \<le> Inventory_Quantity v" "int4 (Inventory_Quantity v)"
        "v1 = v\<lparr>Inventory_ID := seq d T_inventory, Inventory_UpdatedAt := auto_time now (Inventory_UpdatedAt v)\<rparr>"
        "tbl d' = (tbl d)\<lparr>inventory := inventory (tbl d) @ [v1]\<rparr>"
        "seq d' = (seq d)(T_inventory := seq d T_inventory + 1)"
        "Inventory_ProductID v \<notin> set (map Inventory_ProductID (inventory (tbl d)))"
        "Inventory_ProductID v \<in> set (map Product_ID (products (tbl d)))"
      then have "stock (inventory (tbl d)) (Inventory_ProductID v) = 0" by (intro stock_absent) simp
      moreover have "wf_tables (seq d') (tbl d')"
        unfolding i(4,5) using wf i by (intro wf_add_inventory) (simp_all add: wf_db_def)
      ultimately show ?thesis using i by (simp add: wf_db_def set_stock_def stock_append)
    qed
  next
    case False
    let ?v = "v\<lparr>Inventory_UpdatedAt := now\<rparr>"
    let ?P = "\<lambda>r. Inventory_ID r = Inventory_ID v"
    from False known obtain r where r: "r \<in> set (inventory (tbl d))" "?P r" "Inventory_ProductID r = Inventory_ProductID v"
      by (auto simp: list_ex_iff)
    have w: "wf_inv d" using wf by (simp add: wf_db_def wf_tables_def)
    then have dist: "distinct (map Inventory_ID (inventory (tbl d)))" "distinct (map Inventory_ProductID (inventory (tbl d)))"
      by (simp_all add: wf_inventory_def ids_ok_def)
    have P: "?P q \<longleftrightarrow> q = r" if "q \<in> set (inventory (tbl d))" for q
      using that r distinct_map_eqD [OF dist(1) that r(1)] by auto
    from res False show ?thesis
    proof (rule save_inventory_update)
      assume q: "0 \<le> Inventory_Quantity v" "int4 (Inventory_Quantity v)" "seq d' = seq d"
        and t: "tbl d' = (tbl d)\<lparr>inventory := upd_where ?P (\<lambda>r. ?v) (inventory (tbl d))\<rparr>"
      let ?rs = "upd_where ?P (\<lambda>r. ?v) (inventory (tbl d))"
      have st: "stock ?rs p = (if p = Inventory_ProductID v then Inventory_Quantity v else stock (inventory (tbl d)) p)" for p
        using stock_set_row [OF dist(2) r(1) P, of ?v p] r(3) by simp
      have keys: "map Inventory_ID ?rs = map Inventory_ID (inventory (tbl d))"
        "map Inventory_ProductID ?rs = map Inventory_ProductID (inventory (tbl d))"
        using P r(2,3) by (simp_all add: upd_where_def)
      have "\<forall>x \<in> set ?rs. 0 \<le> Inventory_Quantity x \<and> int4 (Inventory_Quantity x)"
        using w q by (auto simp: in_upd_where wf_inventory_def)
      then have "inv_change (\<lambda>p. stock ?rs p - stock (inventory (tbl d)) p) (inventory (tbl d)) ?rs"
        using keys by (simp add: inv_change_def)
      then have "wf_inventory (seq d T_inventory) (set (map Product_ID (products (tbl d)))) ?rs"
        by (rule inv_change_wf [OF w])
      then have "wf_db d'"
        using wf q(3) arg_cong [OF keys(2), of set] by (simp add: wf_db_def wf_tables_def t)
      then show ?thesis using q st by (simp add: set_stock_def t)
    qed
  qed
  then show "wf_db d'" "set_stock v (tbl d) (tbl d')" by blast+
qed

lemma wf_save_product:
  assumes "wf_tables s t" and "Product_ID p = i"
  shows "wf_tables s (t\<lparr>products := upd_where (\<lambda>r. Product_ID r = i) (\<lambda>r. p) (products t)\<rparr>)"
proof -
  have "map Product_ID (upd_where (\<lambda>r. Product_ID r = i) (\<lambda>r. p) (products t)) = map Product_ID (products t)"
    using assms(2) by (auto intro: map_upd_where)
  note keys = this ids_ok_map [OF this, of "s T_products"]
  show ?thesis using assms(1) keys unfolding wf_tables_def by (simp del: set_map)
qed

lemma update_product_body_keeps:
  assumes wf: "wf_db d" and known: "known_product (tbl d) p" and inv: "Product_Inventory p = Some v"
    and res: "update_product_body t1 t2 p d = (Inr x, d')"
  shows "wf_db d'" and "orders (tbl d') = orders (tbl d)" and "order_items (tbl d') = order_items (tbl d)"
    and "payments (tbl d') = payments (tbl d)"
    and "stock (inventory (tbl d')) q = (if q = Product_ID p then Inventory_Quantity v else stock (inventory (tbl d)) q)"
proof -
  obtain p1 d1 v1 where sp: "save_product t1 p d = (Inr p1, d1)" and sv: "save_inventory t2 v d1 = (Inr v1, d')"
  proof -
    obtain p1 d1 where sp: "save_product t1 p d = (Inr p1, d1)"
      and k: "(case Product_Inventory p1 of None \<Rightarrow> ret p1
       | Some v \<Rightarrow> bindE (save_inventory t2 v) (\<lambda>v1. ret (p1\<lparr>Product_Inventory := Some v1\<rparr>))) d1 = (Inr x, d')"
      using res unfolding update_product_body_def bindE_Inr by blast
    moreover have "Product_Inventory p1 = Some v" using sp inv by (auto elim!: save_product_Inr)
    ultimately show ?thesis using that by (auto simp: bindE_Inr ret_def)
  qed
  from sp obtain a where t: "tbl d1 = (tbl d)\<lparr>products := upd_where (\<lambda>r. Product_ID r = Product_ID p)
       (\<lambda>r. p\<lparr>Product_Price := a, Product_Inventory := None, Product_UpdatedAt := t1\<rparr>) (products (tbl d))\<rparr>"
    "seq d1 = seq d"
    by (rule save_product_Inr)
  have wf1: "wf_db d1" using wf unfolding wf_db_def t by (intro wf_save_product) simp_all
  have known1: "Inventory_ID v = 0 \<or>
      list_ex (\<lambda>r. Inventory_ID r = Inventory_ID v \<and> Inventory_ProductID r = Inventory_ProductID v) (inventory (tbl d1))"
    "Inventory_ProductID v = Product_ID p"
    using known inv unfolding t by (auto simp: known_product_def)
  note s = save_inventory_keeps [OF wf1 sv known1(1)]
  then have f: "tbl d' = (tbl d1)\<lparr>inventory := inventory (tbl d')\<rparr>" by (simp add: set_stock_def)
  have "orders (tbl d') = orders (tbl d1)" "order_items (tbl d') = order_items (tbl d1)"
    "payments (tbl d') = payments (tbl d1)" by (subst f; simp)+
  then show "wf_db d'" "orders (tbl d') = orders (tbl d)" "order_items (tbl d') = order_items (tbl d)"
    "payments (tbl d') = payments (tbl d)"
    and "stock (inventory (tbl d')) q = (if q = Product_ID p then Inventory_Quantity v else stock (inventory (tbl d)) q)"
    using s t known1(2) by (simp_all add: set_stock_def)
qed

text \<open>The two writes under every fault of the connection.\<close>

lemma CreateProduct_keeps:
  assumes "wf_db d" and res: "repo_CreateProduct t1 t2 p d = (r, d')"
  shows "wf_db d'" and "later (tbl d) (tbl d')"
proof -
  have body: "wf_db d2" "later (tbl d) (tbl d2)"
    if "same d d1" "create_product_body t1 t2 p d1 = (Inr x, d2)" for d1 x d2
    using that assms(1) create_product_body_keeps [of d1 t1 t2 p x d2]
    by (simp_all add: later_def grown_refl)
  show "wf_db d'"
    using res assms(1) seq_grows_create_product_body body(1) unfolding repo_CreateProduct_def
    by (rule wf_transaction_at)
  show "later (tbl d) (tbl d')"
    using res body(2) unfolding repo_CreateProduct_def
    by (rule transaction_tables [where R = later]) simp_all
qed

lemma UpdateProduct_keeps:
  assumes "wf_db d" and "known_product (tbl d) p" and "Product_Inventory p = Some v"
    and res: "repo_UpdateProduct t1 t2 p d = (r, d')"
  shows "wf_db d'" and "later (tbl d) (tbl d')"
proof -
  have body: "wf_db d2" "later (tbl d) (tbl d2)"
    if "same d d1" "update_product_body t1 t2 p d1 = (Inr x, d2)" for d1 x d2
    using that assms(1-3) update_product_body_keeps [of d1 p v t1 t2 x d2]
    by (simp_all add: later_def grown_refl)
  show "wf_db d'"
    using res assms(1) seq_grows_update_product_body body(1) unfolding repo_UpdateProduct_def
    by (rule wf_transaction_at)
  show "later (tbl d) (tbl d')"
    using res body(2) unfolding repo_UpdateProduct_def
    by (rule transaction_tables [where R = later]) simp_all
qed

section \<open>What the reads return\<close>

lemma preload_run:
  assumes "replies d = []" and "list_all int4 (map Product_ID ps)"
  shows "preload_inventory ps d = (Inr (map (with_inventory (inventory (tbl d))) ps), d)"
proof (cases "ps = []")
  case False
  have "find (\<lambda>r. Inventory_ProductID r = Product_ID p)
      (filter (\<lambda>r. Inventory_ProductID r \<in> set (map Product_ID ps)) rows)
    = find (\<lambda>r. Inventory_ProductID r = Product_ID p) rows" if "p \<in> set ps" for p and rows :: "Inventory list"
    using that by (induction rows) auto
  then show ?thesis
    using False assms by (auto simp: preload_inventory_def bindE_def query_ok ret_def with_inventory_def)
qed (simp add: preload_inventory_def ret_def)

lemma GetProduct_run:
  assumes "replies d = []" and "int4 i"
  shows "repo_GetProduct i d =
    (case first_by Product_ID (\<lambda>p. Product_ID p = i) (products (tbl d)) of
       Inl e \<Rightarrow> Inl e | Inr p \<Rightarrow> Inr (with_inventory (inventory (tbl d)) (scan_product p)), d)"
proof (cases "first_by Product_ID (\<lambda>p. Product_ID p = i) (products (tbl d))")
  case (Inl e)
  then show ?thesis using assms by (simp add: repo_GetProduct_def bindE_def query_ok of_result_def)
next
  case (Inr p)
  then have "p \<in> set (sort_key Product_ID (filter (\<lambda>p. Product_ID p = i) (products (tbl d))))"
    unfolding first_by_def
    by (cases "sort_key Product_ID (filter (\<lambda>p. Product_ID p = i) (products (tbl d)))") auto
  then have "Product_ID (scan_product p) = i" by (simp add: scan_product_def)
  with assms have pre: "preload_inventory [scan_product p] d
      = (Inr [with_inventory (inventory (tbl d)) (scan_product p)], d)"
    by (simp add: preload_run)
  show ?thesis
    using Inr assms pre by (simp add: repo_GetProduct_def bindE_def query_ok of_result_def ret_def)
qed

end
