(* ===== verification/ProductService.thy ===== *)
theory ProductService
  imports ProductRepo Sample
begin

text \<open>
  \<open>internal/services/product.go\<close>: pagination, creation and update of products, and their projection
  onto the responses.
\<close>

definition defaultPage :: int where "defaultPage = 1"
definition defaultPageSize :: int where "defaultPageSize = 20"
definition maxPageSize :: int where "maxPageSize = 100"

definition toInventoryResponse :: "Inventory \<Rightarrow> InventoryResponse" where
  "toInventoryResponse i =
     \<lparr>InventoryResp_ProductID = Inventory_ProductID i, InventoryResp_Quantity = Inventory_Quantity i,
      InventoryResp_UpdatedAt = Inventory_UpdatedAt i\<rparr>"

definition toProductResponse :: "Product \<Rightarrow> ProductResponse" where
  "toProductResponse p =
     \<lparr>ProductResp_ID = Product_ID p, ProductResp_Name = Product_Name p, ProductResp_Image = Product_Image p,
      ProductResp_Description = Product_Description p, ProductResp_Price = Product_Price p,
      ProductResp_Quantity = (case Product_Inventory p of None \<Rightarrow> 0 | Some v \<Rightarrow> Inventory_Quantity v),
      ProductResp_CreatedAt = Product_CreatedAt p, ProductResp_UpdatedAt = Product_UpdatedAt p\<rparr>"

text \<open>The page and the page size that a request is given; \<open>(page-1)*pageSize\<close> is an \<open>int\<close> product.\<close>

definition clamp_page :: "int \<Rightarrow> int" where
  "clamp_page p = (if p < 1 then defaultPage else p)"

definition clamp_page_size :: "int \<Rightarrow> int" where
  "clamp_page_size n =
     (let n1 = (if n < 1 then defaultPageSize else n) in if n1 > maxPageSize then maxPageSize else n1)"

definition page_offset :: "int \<Rightarrow> int \<Rightarrow> int" where
  "page_offset page pageSize = wrap64 (wrap64 (page - 1) * pageSize)"

definition svc_ListProducts :: "ListProductsRequest \<Rightarrow> ListProductsResponse dbm" where
  "svc_ListProducts req =
     (let page = clamp_page (Req_Page req); pageSize = clamp_page_size (Req_PageSize req)
      in bindE (repo_ListProducts pageSize (page_offset page pageSize)) (\<lambda>(ps, n).
           ret \<lparr>ListResp_Items = map toProductResponse ps, ListResp_Total = n,
                ListResp_Page = page, ListResp_PageSize = pageSize\<rparr>))"

definition new_product :: "ProductRequest \<Rightarrow> Product" where
  "new_product req =
     \<lparr>Product_ID = 0, Product_Name = ProductReq_Name req, Product_Image = ProductReq_Image req,
      Product_Description = ProductReq_Description req, Product_Price = ProductReq_Price req,
      Product_Inventory = Some \<lparr>Inventory_ID = 0, Inventory_ProductID = 0,
        Inventory_Quantity = ProductReq_Quantity req, Inventory_UpdatedAt = 0\<rparr>,
      Product_CreatedAt = 0, Product_UpdatedAt = 0\<rparr>"

definition svc_CreateProduct :: "time \<Rightarrow> time \<Rightarrow> ProductRequest \<Rightarrow> ProductResponse dbm" where
  "svc_CreateProduct t1 t2 req =
     bindE (repo_CreateProduct t1 t2 (new_product req)) (\<lambda>p. ret (toProductResponse p))"

definition svc_GetProduct :: "int \<Rightarrow> ProductResponse dbm" where
  "svc_GetProduct i = bindE (repo_GetProduct i) (\<lambda>p. ret (toProductResponse p))"

definition changed_product :: "int \<Rightarrow> ProductRequest \<Rightarrow> Product \<Rightarrow> Product" where
  "changed_product i req p =
     (let v = (case Product_Inventory p of
                 None \<Rightarrow> \<lparr>Inventory_ID = 0, Inventory_ProductID = i, Inventory_Quantity = 0, Inventory_UpdatedAt = 0\<rparr>
               | Some v \<Rightarrow> v)
      in p\<lparr>Product_Name := ProductReq_Name req, Product_Image := ProductReq_Image req,
           Product_Description := ProductReq_Description req, Product_Price := ProductReq_Price req,
           Product_Inventory := Some (v\<lparr>Inventory_Quantity := ProductReq_Quantity req\<rparr>)\<rparr>)"

definition svc_UpdateProduct :: "time \<Rightarrow> time \<Rightarrow> int \<Rightarrow> ProductRequest \<Rightarrow> ProductResponse dbm" where
  "svc_UpdateProduct t1 t2 i req =
     bindE (repo_GetProduct i) (\<lambda>p.
     bindE (repo_UpdateProduct t1 t2 (changed_product i req p)) (\<lambda>p1. ret (toProductResponse p1)))"

definition svc_GetInventory :: "int \<Rightarrow> InventoryResponse dbm" where
  "svc_GetInventory productID = bindE (repo_GetInventory productID) (\<lambda>v. ret (toInventoryResponse v))"

section \<open>Pagination\<close>

lemma clamp_page_size_bounds: "1 \<le> clamp_page_size n" "clamp_page_size n \<le> 100"
  by (auto simp: clamp_page_size_def Let_def defaultPageSize_def maxPageSize_def)

lemma clamp_page_pos: "1 \<le> clamp_page p"
  by (simp add: clamp_page_def defaultPage_def)

text \<open>Every page number below \<open>2 ^ 56\<close> is far from overflow, since a page has at most 100 products.\<close>

lemma page_offset_exact:
  assumes "1 \<le> page" "page \<le> 2 ^ 56" "1 \<le> n" "n \<le> 100"
  shows "page_offset page n = (page - 1) * n" "0 \<le> (page - 1) * n"
proof -
  show pos: "0 \<le> (page - 1) * n" using assms by simp
  have "(page - 1) * n \<le> 2 ^ 56 * 100" using assms by (intro mult_mono) auto
  with pos have "in_int64 ((page - 1) * n)" by (simp add: in_int64_def)
  moreover have "in_int64 (page - 1)" using assms by (simp add: in_int64_def)
  ultimately show "page_offset page n = (page - 1) * n" by (simp add: page_offset_def)
qed

text \<open>
  All products as the API shows them, in the order of their identities: the columns of the row, the
  price read as a \<open>float64\<close>, and the quantity of the inventory row of the product, 0 when it has none.
\<close>

definition catalogue :: "tables \<Rightarrow> ProductResponse list" where
  "catalogue t = map (\<lambda>p.
     \<lparr>ProductResp_ID = Product_ID p, ProductResp_Name = Product_Name p, ProductResp_Image = Product_Image p,
      ProductResp_Description = Product_Description p, ProductResp_Price = fl (Product_Price p),
      ProductResp_Quantity =
        (case find (\<lambda>r. Inventory_ProductID r = Product_ID p) (inventory t) of None \<Rightarrow> 0 | Some v \<Rightarrow> Inventory_Quantity v),
      ProductResp_CreatedAt = Product_CreatedAt p, ProductResp_UpdatedAt = Product_UpdatedAt p\<rparr>)
     (sort_key Product_ID (products t))"

lemma catalogue_responses:
  "catalogue t = map (\<lambda>p. toProductResponse (with_inventory (inventory t) (scan_product p))) (sort_key Product_ID (products t))"
  by (simp add: catalogue_def toProductResponse_def with_inventory_def scan_product_def)

lemma ListProducts_run:
  assumes "replies d = []" and "list_all (\<lambda>p. int4 (Product_ID p)) (products (tbl d))"
    and "clamp_page (Req_Page req) \<le> 2 ^ 56"
  shows "svc_ListProducts req d =
    (let page = clamp_page (Req_Page req); n = clamp_page_size (Req_PageSize req)
     in (Inr \<lparr>ListResp_Items = take (nat n) (drop (nat ((page - 1) * n)) (catalogue (tbl d))),
              ListResp_Total = int (length (products (tbl d))), ListResp_Page = page, ListResp_PageSize = n\<rparr>, d))"
proof -
  let ?page = "clamp_page (Req_Page req)" and ?n = "clamp_page_size (Req_PageSize req)"
  note off = page_offset_exact [OF clamp_page_pos assms(3) clamp_page_size_bounds, of "Req_PageSize req"]
  let ?ps = "take (nat ?n) (drop (nat ((?page - 1) * ?n)) (sort_key Product_ID (products (tbl d))))"
  have ids: "list_all int4 (map Product_ID (map scan_product ?ps))"
    using assms(2) by (auto simp: list_all_iff scan_product_def dest!: in_set_takeD in_set_dropD)
  have rows: "sql_limit ?n (sql_offset (page_offset ?page ?n) (sort_key Product_ID (products (tbl d)))) = ?ps"
    using off clamp_page_size_bounds [of "Req_PageSize req"] by (auto simp: sql_limit_def sql_offset_def)
  have "repo_ListProducts ?n (page_offset ?page ?n) d =
      (Inr (map (with_inventory (inventory (tbl d))) (map scan_product ?ps), int (length (products (tbl d)))), d)"
    using assms(1) preload_run [OF assms(1) ids] rows
    by (simp add: repo_ListProducts_def bindE_def query_ok ret_def)
  then show ?thesis
    by (simp add: svc_ListProducts_def bindE_def ret_def Let_def catalogue_responses take_map drop_map o_def)
qed

lemma clamp_values: "clamp_page page = max 1 page" "clamp_page_size n = (if n < 1 then 20 else min n 100)"
  by (simp_all add: clamp_page_def defaultPage_def clamp_page_size_def Let_def defaultPageSize_def maxPageSize_def)

lemma catalogue_pages:
  assumes "\<And>i. i < k \<Longrightarrow> page (Suc i) = take n (drop (i * n) xs)"
  shows "concat (map page [1..<Suc k]) = take (k * n) xs"
  using assms
proof (induction k)
  case (Suc k)
  have "take (Suc k * n) xs = take (k * n) xs @ take n (drop (k * n) xs)"
    by (simp only: mult_Suc add.commute [of n] take_add)
  with Suc show ?case by simp
qed simp

text \<open>
  C14. \<open>ListProducts\<close> answers any page below \<open>2 ^ 56\<close> (so that the offset cannot overflow) and any size
  asked for. The page is the one asked for, 1 when that is below 1; the size is the one asked for, 20
  when that is below 1 and 100 when it is above 100; both are echoed. The items are exactly the products
  of that page of the catalogue, the total is the number of all products, and nothing changes. The
  pages 1 to \<open>k\<close> of one size, one after the other, are the first \<open>k\<close> pages' worth of the catalogue: no
  product is repeated and none is skipped.
\<close>

theorem ListProducts_pages:
  assumes "replies d = []" and "list_all (\<lambda>p. int4 (Product_ID p)) (products (tbl d))"
    and "page \<le> 2 ^ 56" and "k \<le> 2 ^ 40" and "n = (if psize < 1 then 20 else min psize 100)"
  shows "svc_ListProducts \<lparr>Req_Page = page, Req_PageSize = psize\<rparr> d =
      (Inr \<lparr>ListResp_Items = take (nat n) (drop (nat ((max 1 page - 1) * n)) (catalogue (tbl d))),
            ListResp_Total = int (length (products (tbl d))), ListResp_Page = max 1 page, ListResp_PageSize = n\<rparr>, d) \<and>
    concat (map (\<lambda>p. case fst (svc_ListProducts \<lparr>Req_Page = int p, Req_PageSize = psize\<rparr> d) of
        Inr resp \<Rightarrow> ListResp_Items resp | Inl _ \<Rightarrow> []) [1..<Suc k])
      = take (k * nat n) (catalogue (tbl d))"
proof
  have run: "svc_ListProducts \<lparr>Req_Page = p, Req_PageSize = psize\<rparr> d =
      (Inr \<lparr>ListResp_Items = take (nat n) (drop (nat ((max 1 p - 1) * n)) (catalogue (tbl d))),
            ListResp_Total = int (length (products (tbl d))), ListResp_Page = max 1 p, ListResp_PageSize = n\<rparr>, d)"
    if "p \<le> 2 ^ 56" for p
    using ListProducts_run [OF assms(1,2), of "\<lparr>Req_Page = p, Req_PageSize = psize\<rparr>"] that
    by (simp add: Let_def clamp_values assms(5))
  then show "svc_ListProducts \<lparr>Req_Page = page, Req_PageSize = psize\<rparr> d =
      (Inr \<lparr>ListResp_Items = take (nat n) (drop (nat ((max 1 page - 1) * n)) (catalogue (tbl d))),
            ListResp_Total = int (length (products (tbl d))), ListResp_Page = max 1 page, ListResp_PageSize = n\<rparr>, d)"
    using assms(3) .
  have "0 \<le> n" using assms(5) by simp
  then have "nat (int i * n) = i * nat n" for i by (simp add: nat_mult_distrib)
  then have "(case fst (svc_ListProducts \<lparr>Req_Page = int (Suc i), Req_PageSize = psize\<rparr> d) of
      Inr resp \<Rightarrow> ListResp_Items resp | Inl _ \<Rightarrow> []) = take (nat n) (drop (i * nat n) (catalogue (tbl d)))" if "i < k" for i
    using run [of "int (Suc i)"] that assms(4) by simp
  then show "concat (map (\<lambda>p. case fst (svc_ListProducts \<lparr>Req_Page = int p, Req_PageSize = psize\<rparr> d) of
        Inr resp \<Rightarrow> ListResp_Items resp | Inl _ \<Rightarrow> []) [1..<Suc k]) = take (k * nat n) (catalogue (tbl d))"
    by (rule catalogue_pages)
qed

theorem ListProducts_pages_witness:
  "replies sample_db = [] \<and> list_all (\<lambda>p. int4 (Product_ID p)) (products (tbl sample_db)) \<and>
   svc_ListProducts \<lparr>Req_Page = 0, Req_PageSize = 0\<rparr> sample_db = (Inr \<lparr>ListResp_Items = take 20 (catalogue (tbl sample_db)),
      ListResp_Total = 2, ListResp_Page = 1, ListResp_PageSize = 20\<rparr>, sample_db)"
proof -
  have ids: "list_all (\<lambda>p. int4 (Product_ID p)) (products (tbl sample_db))"
    and "length (products (tbl sample_db)) = 2"
    by code_simp+
  then show ?thesis
    using ListProducts_pages [OF replies_sample ids, of 0 0 20 0] by simp
qed

section \<open>Creating a product\<close>

text \<open>
  C12. A product that \<open>CreateProduct\<close> accepts (a price its column takes, a quantity in range) is created
  under a new identity with its inventory. The response carries the name, image, description, price and
  quantity of the request, and reading the product back answers the same, with the price as the
  \<open>NUMERIC(12,2)\<close> column keeps it. Nothing else changes: the other products and their stock and all
  orders and payments are as before, and the invariant is kept.
\<close>

theorem CreateProduct_roundtrip:
  assumes "replies d = []" and "wf_db d" and "numeric d (ProductReq_Price req) = Some a" "0 \<le> a"
    and "0 \<le> ProductReq_Quantity req" "int4 (ProductReq_Quantity req)"
    and "int4 (seq d T_products)" "int4 (seq d T_inventory)"
  shows "\<exists>resp d'. svc_CreateProduct t1 t2 req d = (Inr resp, d') \<and>
    svc_GetProduct (ProductResp_ID resp) d' = (Inr (resp\<lparr>ProductResp_Price := fl a\<rparr>), d') \<and>
    ProductResp_ID resp \<notin> set (map Product_ID (products (tbl d))) \<and>
    ProductResp_Name resp = ProductReq_Name req \<and> ProductResp_Image resp = ProductReq_Image req \<and>
    ProductResp_Description resp = ProductReq_Description req \<and> ProductResp_Price resp = ProductReq_Price req \<and>
    ProductResp_Quantity resp = ProductReq_Quantity req \<and>
    stock (inventory (tbl d')) = (stock (inventory (tbl d)))(ProductResp_ID resp := ProductReq_Quantity req) \<and>
    (\<exists>row. products (tbl d') = products (tbl d) @ [row]) \<and>
    orders (tbl d') = orders (tbl d) \<and> payments (tbl d') = payments (tbl d) \<and> wf_db d'"
proof -
  let ?i = "seq d T_products"
  have fresh: "?i \<notin> set (map Product_ID (products (tbl d)))" "?i \<notin> set (map Inventory_ProductID (inventory (tbl d)))"
    using assms(2) ids_ok_fresh [of Product_ID ?i "products (tbl d)"]
    by (auto simp: wf_db_def wf_tables_def wf_inventory_def)
  let ?p = "(new_product req)\<lparr>Product_ID := ?i, Product_CreatedAt := t1, Product_UpdatedAt := t1\<rparr>"
  let ?v = "\<lparr>Inventory_ID = seq d T_inventory, Inventory_ProductID = ?i,
      Inventory_Quantity = ProductReq_Quantity req, Inventory_UpdatedAt = t2\<rparr>"
  let ?row = "?p\<lparr>Product_Price := a, Product_Inventory := None\<rparr>"
  let ?d = "d\<lparr>tbl := (tbl d)\<lparr>products := products (tbl d) @ [?row], inventory := inventory (tbl d) @ [?v]\<rparr>,
      seq := (seq d)(T_products := ?i + 1, T_inventory := seq d T_inventory + 1)\<rparr>"
  have body: "create_product_body t1 t2 (new_product req) d = (Inr (?p\<lparr>Product_Inventory := Some ?v\<rparr>), ?d)"
    using assms fresh
    by (simp add: create_product_body_def insert_product_def insert_inventory_def Let_def new_product_def bindE_def
        stmt_ok nextval_def to_numeric_def require_that_def ret_def auto_time_def list_ex_key)
  then have res: "svc_CreateProduct t1 t2 req d = (Inr (toProductResponse (?p\<lparr>Product_Inventory := Some ?v\<rparr>)), ?d)"
    using assms(1) by (simp add: svc_CreateProduct_def repo_CreateProduct_def transaction_no_faults bindE_def ret_def)
  have wf: "wf_db ?d" using create_product_body_keeps(1) [OF assms(2) body] .
  have "find (\<lambda>r. Inventory_ProductID r = ?i) (inventory (tbl d) @ [?v]) = Some ?v"
    using find_key [of Inventory_ProductID "inventory (tbl d) @ [?v]" ?v] fresh(2) assms(2)
    by (simp add: wf_db_def wf_tables_def wf_inventory_def)
  moreover have "filter (\<lambda>p. Product_ID p = ?i) (products (tbl d)) = []"
    unfolding filter_empty_conv using fresh(1) by (metis image_eqI list.set_map)
  ultimately have "svc_GetProduct ?i ?d = (Inr ((toProductResponse (?p\<lparr>Product_Inventory := Some ?v\<rparr>))\<lparr>ProductResp_Price := fl a\<rparr>), ?d)"
    using assms(1,7)
    by (simp add: svc_GetProduct_def GetProduct_run first_by_def bindE_def ret_def toProductResponse_def
        with_inventory_def scan_product_def)
  moreover have "stock (inventory (tbl d)) ?i = 0" using fresh(2) by (intro stock_absent) simp
  ultimately show ?thesis
    using res wf fresh(1) by (auto simp: toProductResponse_def new_product_def stock_append fun_eq_iff)
qed

definition sample_request :: ProductRequest where
  "sample_request = \<lparr>ProductReq_Name = ''pot'', ProductReq_Image = None, ProductReq_Description = None,
     ProductReq_Price = 20, ProductReq_Quantity = 4\<rparr>"

theorem CreateProduct_roundtrip_witness:
  "numeric sample_db (ProductReq_Price sample_request) = Some 20 \<and>
   (\<exists>resp d'. svc_CreateProduct 60 61 sample_request sample_db = (Inr resp, d') \<and>
      ProductResp_Quantity resp = 4 \<and> stock (inventory (tbl d')) (ProductResp_ID resp) = 4)"
proof -
  have "numeric sample_db (ProductReq_Price sample_request) = Some 20" "(0::rat) \<le> 20"
    "0 \<le> ProductReq_Quantity sample_request" "int4 (ProductReq_Quantity sample_request)"
    "int4 (seq sample_db T_products)" "int4 (seq sample_db T_inventory)" "ProductReq_Quantity sample_request = 4"
    by code_simp+
  then show ?thesis
    using CreateProduct_roundtrip [OF replies_sample wf_sample, of sample_request 20 60 61] by auto
qed

section \<open>Updating a product\<close>

lemma first_by_Inr: "first_by k P rs = Inr r \<Longrightarrow> r \<in> set rs \<and> P r"
proof -
  assume "first_by k P rs = Inr r"
  then have "r \<in> set (sort_key k (filter P rs))"
    unfolding first_by_def by (cases "sort_key k (filter P rs)") auto
  then show ?thesis by simp
qed

lemma preload_Inr:
  assumes "preload_inventory ps d = (Inr qs, d')"
  shows "same d d'" and "qs = map (with_inventory (filter (\<lambda>r. Inventory_ProductID r \<in> set (map Product_ID ps)) (inventory (tbl d)))) ps"
proof -
  have "same d d' \<and> qs = map (with_inventory (filter (\<lambda>r. Inventory_ProductID r \<in> set (map Product_ID ps)) (inventory (tbl d)))) ps"
    using assms unfolding preload_inventory_def
    by (auto simp: bindE_Inr ret_def split: if_splits dest: query_Inr query_same)
  then show "same d d'" and "qs = map (with_inventory (filter (\<lambda>r. Inventory_ProductID r \<in> set (map Product_ID ps)) (inventory (tbl d)))) ps"
    by blast+
qed

lemma same_trans: "same a b \<Longrightarrow> same b c \<Longrightarrow> same a c"
  unfolding same_def by (elim exE) (rule exI, simp)

lemma GetProduct_Inr:
  assumes "repo_GetProduct i d = (Inr p, d')"
  shows "same d d'" and "known_product (tbl d) (changed_product i req p)" and "Product_ID p = i"
proof -
  obtain p0 d1 ps where q: "query [i] (\<lambda>t. first_by Product_ID (\<lambda>p. Product_ID p = i) (products t)) d = (Inr (Inr p0), d1)"
    and pre: "preload_inventory [scan_product p0] d1 = (Inr ps, d')" and hd: "p = hd ps"
    using assms unfolding repo_GetProduct_def
    by (auto simp: bindE_Inr of_result_def ret_def)
  have s1: "same d d1" and p0: "p0 \<in> set (products (tbl d))" "Product_ID p0 = i"
    using query_same [OF q] query_Inr [OF q] first_by_Inr [of Product_ID _ "products (tbl d)" p0] by auto
  note pre' = preload_Inr [OF pre]
  show "same d d'" using s1 pre'(1) by (rule same_trans)
  have p: "p = with_inventory (filter (\<lambda>r. Inventory_ProductID r \<in> {Product_ID (scan_product p0)}) (inventory (tbl d))) (scan_product p0)"
    using pre'(2) s1 hd by simp
  show id: "Product_ID p = i" using p p0 by (simp add: with_inventory_def scan_product_def)
  have "case Product_Inventory p of None \<Rightarrow> True
      | Some v \<Rightarrow> v \<in> set (inventory (tbl d)) \<and> Inventory_ProductID v = i"
    using p p0(2)
    by (auto simp: with_inventory_def scan_product_def find_Some_iff split: option.splits dest!: nth_mem)
  then show "known_product (tbl d) (changed_product i req p)"
    using id p0 by (auto simp: known_product_def changed_product_def Let_def list_ex_iff rev_image_eqI split: option.splits)
qed

lemma GetProduct_Inl:
  assumes "repo_GetProduct i d = (Inl e, d')"
  shows "same d d'"
proof -
  have "same a b" if "preload_inventory ps a = (Inl e, b)" for ps a b
    using that by (auto simp: preload_inventory_def bindE_Inl ret_def split: if_splits dest: query_same)
  with assms show ?thesis
    unfolding repo_GetProduct_def
    by (auto simp: bindE_Inl of_result_def ret_def dest!: query_same intro: same_trans)
qed

lemma save_inventory_quantity:
  assumes "save_inventory now v d = (Inr v1, d')"
  shows "Inventory_Quantity v1 = Inventory_Quantity v"
proof (cases "Inventory_ID v = 0")
  case True
  then show ?thesis using assms by (auto simp: save_inventory_def elim!: insert_inventory_Inr)
next
  case False
  with assms show ?thesis by (rule save_inventory_update) simp
qed

lemma save_inventory_products:
  assumes "save_inventory now v d = (Inr v1, d')"
  shows "products (tbl d') = products (tbl d)"
proof (cases "Inventory_ID v = 0")
  case True
  then show ?thesis using assms by (auto simp: save_inventory_def elim!: insert_inventory_Inr)
next
  case False
  with assms show ?thesis by (rule save_inventory_update) simp
qed

text \<open>The row that \<open>Save\<close> writes and the product that it hands back.\<close>

lemma update_product_body_row:
  assumes "Product_Inventory p = Some v" and "update_product_body t1 t2 p d = (Inr p1, d')"
  obtains a v1 where "numeric d (Product_Price p) = Some a" "p1 = p\<lparr>Product_UpdatedAt := t1, Product_Inventory := Some v1\<rparr>"
    "Inventory_Quantity v1 = Inventory_Quantity v"
    "products (tbl d') = upd_where (\<lambda>r. Product_ID r = Product_ID p)
       (\<lambda>r. p\<lparr>Product_Price := a, Product_Inventory := None, Product_UpdatedAt := t1\<rparr>) (products (tbl d))"
proof -
  obtain p2 c where s: "save_product t1 p d = (Inr p2, c)"
    and q: "(case Product_Inventory p2 of None \<Rightarrow> ret p2
      | Some v \<Rightarrow> bindE (save_inventory t2 v) (\<lambda>v1. ret (p2\<lparr>Product_Inventory := Some v1\<rparr>))) c = (Inr p1, d')"
    using assms(2) unfolding update_product_body_def bindE_Inr by blast
  from s obtain a where a: "numeric d (Product_Price p) = Some a" "p2 = p\<lparr>Product_UpdatedAt := t1\<rparr>"
    "tbl c = (tbl d)\<lparr>products := upd_where (\<lambda>r. Product_ID r = Product_ID p)
       (\<lambda>r. p\<lparr>Product_Price := a, Product_Inventory := None, Product_UpdatedAt := t1\<rparr>) (products (tbl d))\<rparr>"
    by (rule save_product_Inr)
  with q assms(1) obtain v1 where v1: "save_inventory t2 v c = (Inr v1, d')" "p1 = p2\<lparr>Product_Inventory := Some v1\<rparr>"
    by (auto simp: bindE_Inr ret_def)
  show ?thesis
    using that [OF a(1), of v1] v1 a(2,3) save_inventory_products [OF v1(1)] save_inventory_quantity [OF v1(1)] by simp
qed

lemma GetProduct_created:
  assumes "wf_db d" and "repo_GetProduct i d = (Inr p, d')" and "row \<in> set (products (tbl d))" "Product_ID row = i"
  shows "Product_CreatedAt p = Product_CreatedAt row"
proof -
  obtain p0 d1 ps where q: "query [i] (\<lambda>t. first_by Product_ID (\<lambda>p. Product_ID p = i) (products t)) d = (Inr (Inr p0), d1)"
    and pre: "preload_inventory [scan_product p0] d1 = (Inr ps, d')" and hd: "p = hd ps"
    using assms(2) unfolding repo_GetProduct_def
    by (auto simp: bindE_Inr of_result_def ret_def)
  have "p0 \<in> set (products (tbl d))" "Product_ID p0 = i"
    using query_Inr [OF q] first_by_Inr [of Product_ID _ "products (tbl d)" p0] by auto
  moreover have "inj_on Product_ID (set (products (tbl d)))"
    using assms(1) by (simp add: wf_db_def wf_tables_def ids_ok_def distinct_map)
  ultimately have "p0 = row" using assms(3,4) by (auto dest: inj_onD)
  then show ?thesis using preload_Inr(2) [OF pre] hd by (simp add: with_inventory_def scan_product_def)
qed

lemma UpdateProduct_absent:
  assumes "replies d = []" "int4 i" "i \<notin> set (map Product_ID (products (tbl d)))"
  shows "svc_UpdateProduct t1 t2 i req d = (Inl ErrRecordNotFound, d)"
proof -
  have "filter (\<lambda>p. Product_ID p = i) (products (tbl d)) = []"
    unfolding filter_empty_conv using assms(3) by (metis image_eqI list.set_map)
  then show ?thesis
    using assms(1,2) by (simp add: svc_UpdateProduct_def bindE_def GetProduct_run first_by_def)
qed

text \<open>
  What the update has to do to a row, in terms of the request: the row of the product takes its name,
  image, description and price (as the column keeps it) and the time, and keeps its identity and the
  time it was created; every other row stays.
\<close>

definition row_updated :: "pg \<Rightarrow> time \<Rightarrow> int \<Rightarrow> ProductRequest \<Rightarrow> Product \<Rightarrow> Product \<Rightarrow> bool" where
  "row_updated d now i req p p' \<longleftrightarrow>
     (if Product_ID p = i
      then Product_ID p' = i \<and> Product_Name p' = ProductReq_Name req \<and> Product_Image p' = ProductReq_Image req \<and>
        Product_Description p' = ProductReq_Description req \<and> numeric d (ProductReq_Price req) = Some (Product_Price p') \<and>
        Product_CreatedAt p' = Product_CreatedAt p \<and> Product_UpdatedAt p' = now
      else p' = p)"

definition response_of :: "int \<Rightarrow> ProductRequest \<Rightarrow> ProductResponse \<Rightarrow> bool" where
  "response_of i req resp \<longleftrightarrow> ProductResp_ID resp = i \<and> ProductResp_Name resp = ProductReq_Name req \<and>
     ProductResp_Image resp = ProductReq_Image req \<and> ProductResp_Description resp = ProductReq_Description req \<and>
     ProductResp_Price resp = ProductReq_Price req \<and> ProductResp_Quantity resp = ProductReq_Quantity req"

lemma update_product_rows:
  assumes wf: "wf_db d" and read: "repo_GetProduct i d0 = (Inr p, d1)" "same d0 d" "wf_db d0"
    and body: "update_product_body t1 t2 (changed_product i req p) d = (Inr p1, d')"
  shows "list_all2 (row_updated d0 t1 i req) (products (tbl d)) (products (tbl d'))" and "response_of i req (toProductResponse p1)"
proof -
  let ?p = "changed_product i req p"
  have id: "Product_ID p = i" using GetProduct_Inr(3) [OF read(1)] .
  obtain v where v: "Product_Inventory ?p = Some v" "Inventory_Quantity v = ProductReq_Quantity req"
    by (simp add: changed_product_def Let_def)
  obtain a v1 where a: "numeric d (Product_Price ?p) = Some a" "p1 = ?p\<lparr>Product_UpdatedAt := t1, Product_Inventory := Some v1\<rparr>"
    "Inventory_Quantity v1 = Inventory_Quantity v"
    "products (tbl d') = upd_where (\<lambda>r. Product_ID r = Product_ID ?p)
       (\<lambda>r. ?p\<lparr>Product_Price := a, Product_Inventory := None, Product_UpdatedAt := t1\<rparr>) (products (tbl d))"
    by (rule update_product_body_row [OF v(1) body])
  have p: "Product_ID ?p = i" "Product_Name ?p = ProductReq_Name req" "Product_Image ?p = ProductReq_Image req"
    "Product_Description ?p = ProductReq_Description req" "Product_Price ?p = ProductReq_Price req"
    "Product_CreatedAt ?p = Product_CreatedAt p"
    by (simp_all add: changed_product_def Let_def id)
  have num: "numeric d0 (ProductReq_Price req) = Some a" using a(1) p(5) read(2) by simp
  have "row_updated d0 t1 i req row
      (if Product_ID row = i then ?p\<lparr>Product_Price := a, Product_Inventory := None, Product_UpdatedAt := t1\<rparr> else row)"
    if row: "row \<in> set (products (tbl d))" for row
  proof -
    have "row \<in> set (products (tbl d0))" using row read(2) by simp
    then have "Product_ID row = i \<longrightarrow> Product_CreatedAt p = Product_CreatedAt row"
      using GetProduct_created [OF read(3,1)] by blast
    then show ?thesis using num p by (simp add: row_updated_def)
  qed
  then show "list_all2 (row_updated d0 t1 i req) (products (tbl d)) (products (tbl d'))"
    unfolding a(4) p(1) upd_where_def by (simp add: list_all2_conv_all_nth)
  show "response_of i req (toProductResponse p1)"
    using a(2,3) v(2) p by (simp add: response_of_def toProductResponse_def)
qed

lemma UpdateProduct_answer:
  assumes wf: "wf_db d" and res: "svc_UpdateProduct t1 t2 i req d = (r, d')"
  shows "wf_db d' \<and> later (tbl d) (tbl d') \<and>
    (case r of
       Inr resp \<Rightarrow> i \<in> set (map Product_ID (products (tbl d))) \<and> response_of i req resp \<and>
         list_all2 (row_updated d t1 i req) (products (tbl d)) (products (tbl d')) \<and> 0 \<le> ProductReq_Quantity req \<and>
         stock (inventory (tbl d')) = (stock (inventory (tbl d)))(i := ProductReq_Quantity req)
     | Inl e \<Rightarrow> tbl d' = tbl d \<or> (\<exists>m. e = DriverError m))"
proof (cases "repo_GetProduct i d")
  case (Pair q d1)
  show ?thesis
  proof (cases q)
    case (Inl e)
    with Pair res have "r = Inl e" "d' = d1" by (simp_all add: svc_UpdateProduct_def bindE_def)
    with GetProduct_Inl [of i d e d1] Pair Inl wf show ?thesis by simp
  next
    case (Inr p)
    note read = GetProduct_Inr(1) [OF Pair [unfolded Inr]] GetProduct_Inr(2) [OF Pair [unfolded Inr], of req]
      GetProduct_Inr(3) [OF Pair [unfolded Inr]]
    let ?p = "changed_product i req p"
    obtain v where v: "Product_Inventory ?p = Some v" "Inventory_Quantity v = ProductReq_Quantity req"
      by (simp add: changed_product_def Let_def)
    obtain u d2 where upd: "repo_UpdateProduct t1 t2 ?p d1 = (u, d2)" by (cases "repo_UpdateProduct t1 t2 ?p d1")
    then have r: "r = (case u of Inl e \<Rightarrow> Inl e | Inr p1 \<Rightarrow> Inr (toProductResponse p1))" "d' = d2"
      using res Pair Inr by (auto simp: svc_UpdateProduct_def bindE_def ret_def split: sum.splits)
    have wf1: "wf_db d1" and known: "known_product (tbl d1) ?p" using wf read by simp_all
    note keeps = UpdateProduct_keeps [OF wf1 known v(1) upd]
    have id: "Product_ID ?p = i" using read(3) by (simp add: changed_product_def Let_def)
    have body: "list_all2 (row_updated d t1 i req) (products (tbl d)) (products (tbl b)) \<and> response_of i req (toProductResponse p1) \<and>
        0 \<le> ProductReq_Quantity req \<and>
        stock (inventory (tbl b)) = (stock (inventory (tbl d)))(i := ProductReq_Quantity req)"
      if b: "same d1 a" "update_product_body t1 t2 ?p a = (Inr p1, b)" for a b p1
    proof -
      have a: "wf_db a" "known_product (tbl a) ?p" using wf1 known b(1) by simp_all
      note k = update_product_body_keeps [OF a v(1) b(2)]
      have "stock (inventory (tbl b)) i = ProductReq_Quantity req" using k(5) [of i] id v(2) by simp
      moreover have "0 \<le> stock (inventory (tbl b)) i" using k(1) wf_stock_nonneg by (intro stock_nonneg) auto
      moreover have "list_all2 (row_updated d t1 i req) (products (tbl d)) (products (tbl b))" "response_of i req (toProductResponse p1)"
        using update_product_rows [OF a(1) Pair [unfolded Inr] same_trans [OF read(1) b(1)] wf b(2)] read(1) b(1) by simp_all
      ultimately show ?thesis using k(5) id v(2) b(1) read(1) by (auto simp: fun_eq_iff)
    qed
    show ?thesis
    proof (cases u)
      case (Inr p1)
      with upd obtain a b where "same d1 a" "update_product_body t1 t2 ?p a = (Inr p1, b)" "same b d2"
        unfolding repo_UpdateProduct_def by (auto elim: transaction_Inr)
      moreover have "i \<in> set (map Product_ID (products (tbl d)))" using known id read(1) by (simp add: known_product_def)
      ultimately show ?thesis using body Inr r keeps read(1) by simp
    next
      case (Inl e)
      with upd have "transaction (update_product_body t1 t2 ?p) d1 = (Inl e, d2)" by (simp add: repo_UpdateProduct_def)
      then have "tbl d2 = tbl d1 \<or> (\<exists>m. e = DriverError m)" by (rule transaction_Inl) auto
      with Inl r keeps read(1) show ?thesis by simp
    qed
  qed
qed



end
