(* ===== verification/Idempotency.thy ===== *)
theory Idempotency
  imports Models
begin

text \<open>
  \<open>internal/idempotency\<close>: the \<open>Store\<close> interface, its Redis implementation and the no-op one.

  The interface is the locale \<open>key_store\<close>; \<open>held\<close> says which keys are claimed. The Redis client is a
  package of its own, so its \<open>SetNX\<close> and \<open>Del\<close> are arguments of \<open>redis_Reserve\<close> and \<open>redis_Release\<close>; the
  locale \<open>redis_client\<close> states what Redis documents of the two commands, \<open>redis_expiry\<close> adds what it
  documents of the time to live, and \<open>sublocale\<close> shows that this is all the store needs. Properties of
  the store are stated for every client with these laws. \<open>redis\<close> is one such client, a keyspace with
  expiry and a connection that may fail: the locales are interpreted on it, so the laws can hold, and
  concrete runs use it.
\<close>

section \<open>The stores\<close>

datatype store_error = RedisReserve string string | RedisRelease string string

definition redis_Reserve ::
  "(string \<Rightarrow> string \<Rightarrow> duration \<Rightarrow> 'k \<Rightarrow> (string + bool) \<times> 'k) \<Rightarrow>
     string \<Rightarrow> duration \<Rightarrow> 'k \<Rightarrow> (store_error + bool) \<times> 'k"
where
  "redis_Reserve SetNX key ttl = map_err (RedisReserve key) (SetNX key ''1'' ttl)"

definition redis_Release ::
  "(string \<Rightarrow> 'k \<Rightarrow> (string + unit) \<times> 'k) \<Rightarrow> string \<Rightarrow> 'k \<Rightarrow> (store_error + unit) \<times> 'k"
where
  "redis_Release Del key = map_err (RedisRelease key) (Del key)"

definition noop_Reserve :: "string \<Rightarrow> duration \<Rightarrow> 'k \<Rightarrow> (store_error + bool) \<times> 'k" where
  "noop_Reserve key ttl = ret True"

definition noop_Release :: "string \<Rightarrow> 'k \<Rightarrow> (store_error + unit) \<times> 'k" where
  "noop_Release key = ret ()"

section \<open>The interface\<close>

locale key_store =
  fixes Reserve :: "string \<Rightarrow> duration \<Rightarrow> 'k \<Rightarrow> (store_error + bool) \<times> 'k"
    and Release :: "string \<Rightarrow> 'k \<Rightarrow> (store_error + unit) \<times> 'k"
    and held :: "'k \<Rightarrow> string \<Rightarrow> bool"
  assumes reserve_first:
      "0 < ttl \<Longrightarrow> Reserve k ttl s = (Inr True, s') \<Longrightarrow> \<not> held s k \<and> held s' = (held s)(k := True)"
    and reserve_again:
      "0 < ttl \<Longrightarrow> Reserve k ttl s = (Inr False, s') \<Longrightarrow> held s k \<and> held s' = held s"
    and reserve_error:
      "0 < ttl \<Longrightarrow> Reserve k ttl s = (Inl e, s') \<Longrightarrow> held s' = held s \<or> held s' = (held s)(k := True)"
    and release_ok:
      "Release k s = (Inr u, s') \<Longrightarrow> held s' = (held s)(k := False)"
    and release_error:
      "Release k s = (Inl e, s') \<Longrightarrow> held s' = held s \<or> held s' = (held s)(k := False)"
begin

text \<open>A claimed key is refused as long as the store answers.\<close>

lemma reserve_held:
  assumes "0 < ttl" and "held s k" and "Reserve k ttl s = (r, s')"
  shows "r = Inr False \<or> (\<exists>e. r = Inl e)"
  using assms reserve_first [of ttl k s s'] by (cases r) auto

text \<open>A call touches no other key.\<close>

lemma reserve_frame:
  assumes "0 < ttl" and "Reserve k ttl s = (r, s')" and "j \<noteq> k"
  shows "held s' j = held s j"
proof (cases r)
  case (Inl e)
  then show ?thesis using reserve_error [of ttl k s e s'] assms by auto
next
  case (Inr b)
  then show ?thesis using reserve_first [of ttl k s s'] reserve_again [of ttl k s s'] assms by (cases b) auto
qed

lemma release_frame:
  assumes "Release k s = (r, s')" and "j \<noteq> k"
  shows "held s' j = held s j"
  using assms release_ok [of k s _ s'] release_error [of k s _ s'] by (cases r) auto

end

section \<open>Redis\<close>

text \<open>
  \<open>SET key value NX EX ttl\<close> sets the key only when it does not exist and says whether it did; \<open>DEL\<close>
  removes it. A command whose reply is lost may or may not have been executed.
\<close>

locale redis_client =
  fixes SetNX :: "string \<Rightarrow> string \<Rightarrow> duration \<Rightarrow> 'k \<Rightarrow> (string + bool) \<times> 'k"
    and Del :: "string \<Rightarrow> 'k \<Rightarrow> (string + unit) \<times> 'k"
    and exists :: "'k \<Rightarrow> string \<Rightarrow> bool"
  assumes setnx_reply:
      "0 < ttl \<Longrightarrow> SetNX k v ttl s = (Inr b, s') \<Longrightarrow> b = (\<not> exists s k) \<and> exists s' = (exists s)(k := True)"
    and setnx_lost:
      "0 < ttl \<Longrightarrow> SetNX k v ttl s = (Inl e, s') \<Longrightarrow> exists s' = exists s \<or> exists s' = (exists s)(k := True)"
    and del_reply:
      "Del k s = (Inr u, s') \<Longrightarrow> exists s' = (exists s)(k := False)"
    and del_lost:
      "Del k s = (Inl e, s') \<Longrightarrow> exists s' = exists s \<or> exists s' = (exists s)(k := False)"

sublocale redis_client \<subseteq> key_store "redis_Reserve SetNX" "redis_Release Del" exists
proof (unfold_locales, goal_cases)
  case (1 ttl k s s')
  then show ?case using setnx_reply [of ttl k _ s True s'] by (auto simp: redis_Reserve_def)
next
  case (2 ttl k s s')
  then show ?case using setnx_reply [of ttl k _ s False s'] by (auto simp: redis_Reserve_def fun_upd_idem)
next
  case (3 ttl k s e s')
  then show ?case using setnx_lost [of ttl k _ s] by (auto simp: redis_Reserve_def map_err_Inl)
next
  case (4 k s u s')
  then show ?case using del_reply [of k s] by (simp add: redis_Release_def)
next
  case (5 k s e s')
  then show ?case using del_lost [of k s] by (auto simp: redis_Release_def map_err_Inl)
qed

context redis_client
begin

lemma store_contract: "key_store (redis_Reserve SetNX) (redis_Release Del) exists"
  by unfold_locales

end

text \<open>
  \<open>EX ttl\<close>: a key that was set expires once \<open>ttl\<close> has passed, and no sooner; \<open>pass dt\<close> is the server
  \<open>dt\<close> later. Other keys are not concerned.
\<close>

locale redis_expiry = redis_client +
  fixes pass :: "duration \<Rightarrow> 'k \<Rightarrow> 'k"
  assumes setnx_expires:
      "0 < ttl \<Longrightarrow> 0 \<le> dt \<Longrightarrow> SetNX k v ttl s = (Inr True, s') \<Longrightarrow> exists (pass dt s') k = (dt < ttl)"
    and setnx_others:
      "0 < ttl \<Longrightarrow> 0 \<le> dt \<Longrightarrow> SetNX k v ttl s = (r, s') \<Longrightarrow> j \<noteq> k \<Longrightarrow> exists (pass dt s') j = exists (pass dt s) j"
begin

text \<open>
  A claimed key stays claimed for exactly \<open>ttl\<close>: later on \<open>Reserve\<close> refuses it, or hands it out again.
\<close>

lemma reserve_window:
  assumes "0 < ttl" "0 \<le> dt" and first: "redis_Reserve SetNX k ttl s = (Inr True, s')"
    and second: "redis_Reserve SetNX k ttl' (pass dt s') = (Inr b, s'')" "0 < ttl'"
  shows "b \<longleftrightarrow> ttl \<le> dt"
proof -
  from first obtain v where "SetNX k v ttl s = (Inr True, s')" by (auto simp: redis_Reserve_def)
  then have "exists (pass dt s') k = (dt < ttl)" using setnx_expires assms(1,2) by blast
  moreover have "b = (\<not> exists (pass dt s') k)"
    using second setnx_reply [of ttl' k _ "pass dt s'" b s''] by (auto simp: redis_Reserve_def)
  ultimately show ?thesis by auto
qed

lemma reserve_others:
  assumes "0 < ttl" "0 \<le> dt" "redis_Reserve SetNX k ttl s = (r, s')" "j \<noteq> k"
  shows "exists (pass dt s') j = exists (pass dt s) j"
proof (cases "SetNX k ''1'' ttl s")
  case (Pair q t)
  then have "t = s'" using assms(3) by (auto simp: redis_Reserve_def map_err_def split: sum.splits)
  then show ?thesis using setnx_others [OF assms(1,2) Pair assms(4)] by simp
qed

end

text \<open>
  A keyspace: the clock of the server, the keys with their values and the time they expire at
  (\<open>None\<close> never), and the fate of the next commands (\<open>True\<close> works; \<open>False\<close> fails, after the effect when
  the second component says so).
\<close>

record redis =
  r_clock :: time
  r_keys :: "string \<Rightarrow> (string \<times> time option) option"
  r_link :: "(bool \<times> bool) list"

definition r_exists :: "redis \<Rightarrow> string \<Rightarrow> bool" where
  "r_exists s k = (case r_keys s k of
     None \<Rightarrow> False | Some (v, None) \<Rightarrow> True | Some (v, Some t) \<Rightarrow> r_clock s < t)"

definition r_command :: "(redis \<Rightarrow> 'a \<times> redis) \<Rightarrow> redis \<Rightarrow> (string + 'a) \<times> redis" where
  "r_command f s = (case r_link s of
     [] \<Rightarrow> (case f s of (x, s') \<Rightarrow> (Inr x, s'))
   | (works, effect) # l \<Rightarrow> (let s1 = s\<lparr>r_link := l\<rparr> in
       if works then (case f s1 of (x, s') \<Rightarrow> (Inr x, s'))
       else (Inl ''i/o timeout'', if effect then snd (f s1) else s1)))"

definition r_SetNX :: "string \<Rightarrow> string \<Rightarrow> duration \<Rightarrow> redis \<Rightarrow> (string + bool) \<times> redis" where
  "r_SetNX k v ttl = r_command (\<lambda>s.
     if r_exists s k then (False, s)
     else (True, s\<lparr>r_keys := (r_keys s)(k \<mapsto> (v, if 0 < ttl then Some (r_clock s + ttl) else None))\<rparr>))"

definition r_Del :: "string \<Rightarrow> redis \<Rightarrow> (string + unit) \<times> redis" where
  "r_Del k = r_command (\<lambda>s. ((), s\<lparr>r_keys := (r_keys s)(k := None)\<rparr>))"

definition r_tick :: "duration \<Rightarrow> redis \<Rightarrow> redis" where
  "r_tick dt s = s\<lparr>r_clock := r_clock s + dt\<rparr>"

lemma r_command_Inr:
  "r_command f s = (Inr x, s') \<Longrightarrow> \<exists>l. f (s\<lparr>r_link := l\<rparr>) = (x, s')"
proof (cases "r_link s")
  case Nil
  assume "r_command f s = (Inr x, s')"
  with Nil have "f s = (x, s')" by (auto simp: r_command_def split: prod.splits)
  moreover have "s\<lparr>r_link := r_link s\<rparr> = s" by simp
  ultimately show ?thesis by metis
qed (auto simp: r_command_def Let_def split: prod.splits if_splits)

lemma r_command_Inl:
  "r_command f s = (Inl e, s') \<Longrightarrow> \<exists>l. s' = s\<lparr>r_link := l\<rparr> \<or> s' = snd (f (s\<lparr>r_link := l\<rparr>))"
proof (cases "r_link s")
  case (Cons c l)
  assume "r_command f s = (Inl e, s')"
  with Cons have "s' = s\<lparr>r_link := l\<rparr> \<or> s' = snd (f (s\<lparr>r_link := l\<rparr>))"
    by (auto simp: r_command_def Let_def split: prod.splits if_splits)
  then show ?thesis ..
qed (auto simp: r_command_def split: prod.splits)

lemma r_exists_link [simp]: "r_exists (s\<lparr>r_link := l\<rparr>) = r_exists s"
  by (auto simp: fun_eq_iff r_exists_def split: option.splits)

lemma r_exists_del: "r_exists (s\<lparr>r_keys := (r_keys s)(k := None)\<rparr>) = (r_exists s)(k := False)"
  by (auto simp: fun_eq_iff r_exists_def split: option.splits)

lemma r_SetNX_effect:
  assumes "0 < ttl"
  shows "(case (if r_exists s k then (False, s)
      else (True, s\<lparr>r_keys := (r_keys s)(k \<mapsto> (v, if 0 < ttl then Some (r_clock s + ttl) else None))\<rparr>)) of
    (b, s') \<Rightarrow> b = (\<not> r_exists s k) \<and> r_exists s' = (r_exists s)(k := True))"
  using assms by (auto simp: fun_eq_iff r_exists_def split: option.splits)

interpretation redis_commands: redis_client r_SetNX r_Del r_exists
proof (unfold_locales, goal_cases)
  case (1 ttl k v s b s')
  then obtain l where "(if r_exists (s\<lparr>r_link := l\<rparr>) k then (False, s\<lparr>r_link := l\<rparr>)
      else (True, (s\<lparr>r_link := l\<rparr>)\<lparr>r_keys := (r_keys (s\<lparr>r_link := l\<rparr>))(k \<mapsto>
        (v, if 0 < ttl then Some (r_clock (s\<lparr>r_link := l\<rparr>) + ttl) else None))\<rparr>)) = (b, s')"
    unfolding r_SetNX_def by (blast dest: r_command_Inr)
  with r_SetNX_effect [OF 1(1), of "s\<lparr>r_link := l\<rparr>" k v] show ?case by simp
next
  case (2 ttl k v s e s')
  let ?f = "\<lambda>s. if r_exists s k then (False, s)
     else (True, s\<lparr>r_keys := (r_keys s)(k \<mapsto> (v, if 0 < ttl then Some (r_clock s + ttl) else None))\<rparr>)"
  from 2(2) obtain l where "s' = s\<lparr>r_link := l\<rparr> \<or> s' = snd (?f (s\<lparr>r_link := l\<rparr>))"
    unfolding r_SetNX_def by (blast dest: r_command_Inl)
  moreover obtain b t where f: "?f (s\<lparr>r_link := l\<rparr>) = (b, t)" by (cases "?f (s\<lparr>r_link := l\<rparr>)")
  have "r_exists t = (r_exists s)(k := True)"
    using r_SetNX_effect [OF 2(1), of "s\<lparr>r_link := l\<rparr>" k v] unfolding f by simp
  ultimately show ?case unfolding f by (elim disjE) simp_all
next
  case (3 k s u s')
  then obtain l where "s' = (s\<lparr>r_link := l\<rparr>)\<lparr>r_keys := (r_keys (s\<lparr>r_link := l\<rparr>))(k := None)\<rparr>"
    unfolding r_Del_def by (blast dest: r_command_Inr)
  then show ?case by (simp only: r_exists_del r_exists_link)
next
  case (4 k s e s')
  then obtain l where "s' = s\<lparr>r_link := l\<rparr> \<or>
      s' = snd ((\<lambda>s. ((), s\<lparr>r_keys := (r_keys s)(k := None)\<rparr>)) (s\<lparr>r_link := l\<rparr>))"
    unfolding r_Del_def by (blast dest: r_command_Inl)
  then show ?case by (elim disjE) (simp_all only: snd_conv r_exists_del r_exists_link simp_thms)
qed

lemma r_SetNX_fields:
  assumes "r_SetNX k v ttl s = (r, s')" and "0 < ttl"
  shows "r_clock s' = r_clock s" and "j \<noteq> k \<Longrightarrow> r_keys s' j = r_keys s j"
    and "r = Inr True \<Longrightarrow> r_keys s' k = Some (v, Some (r_clock s + ttl))"
  using assms by (auto simp: r_SetNX_def r_command_def Let_def split: list.splits prod.splits if_splits)

interpretation redis: redis_expiry r_SetNX r_Del r_exists r_tick
proof
  fix ttl dt :: int and k j v and s s' :: redis and r
  assume t: "0 < ttl" "0 \<le> dt"
  show "r_exists (r_tick dt s') k = (dt < ttl)" if "r_SetNX k v ttl s = (Inr True, s')"
    using r_SetNX_fields [OF that t(1)] by (simp add: r_exists_def r_tick_def)
  show "r_exists (r_tick dt s') j = r_exists (r_tick dt s) j" if "r_SetNX k v ttl s = (r, s')" "j \<noteq> k"
    using r_SetNX_fields(1,2) [OF that(1) t(1)] that(2) by (auto simp: r_exists_def r_tick_def split: option.splits)
qed

section \<open>The store on this keyspace\<close>

abbreviation store_Reserve :: "string \<Rightarrow> duration \<Rightarrow> redis \<Rightarrow> (store_error + bool) \<times> redis" where
  "store_Reserve \<equiv> redis_Reserve r_SetNX"

abbreviation store_Release :: "string \<Rightarrow> redis \<Rightarrow> (store_error + unit) \<times> redis" where
  "store_Release \<equiv> redis_Release r_Del"

lemma Reserve_run:
  "r_link s = [] \<Longrightarrow> store_Reserve k ttl s =
     (if r_exists s k then (Inr False, s)
      else (Inr True, s\<lparr>r_keys := (r_keys s)(k \<mapsto> (''1'', if 0 < ttl then Some (r_clock s + ttl) else None))\<rparr>))"
  by (simp add: redis_Reserve_def map_err_def r_SetNX_def r_command_def)

lemma Release_run:
  "r_link s = [] \<Longrightarrow> store_Release k s = (Inr (), s\<lparr>r_keys := (r_keys s)(k := None)\<rparr>)"
  by (simp add: redis_Release_def map_err_def r_Del_def r_command_def)

end
