(* ===== verification/Sha256.thy ===== *)
theory Sha256
  imports Prelude "HOL-Library.Word"
begin

unbundle bit_operations_syntax

text \<open>
  \<open>crypto/sha256\<close> and \<open>encoding/hex\<close> of Go's standard library as \<open>idempotencyKey\<close> uses them: the
  SHA-256 digest (FIPS 180-4) of a byte string and its lower-case hexadecimal text. A Go byte string is
  a \<open>string\<close>, one character per byte.
\<close>

type_synonym word32 = "32 word"

definition rotr :: "nat \<Rightarrow> word32 \<Rightarrow> word32" where
  "rotr n x = drop_bit n x OR push_bit (32 - n) x"

definition Ch :: "word32 \<Rightarrow> word32 \<Rightarrow> word32 \<Rightarrow> word32" where
  "Ch x y z = (x AND y) XOR (NOT x AND z)"

definition Maj :: "word32 \<Rightarrow> word32 \<Rightarrow> word32 \<Rightarrow> word32" where
  "Maj x y z = (x AND y) XOR (x AND z) XOR (y AND z)"

definition Sigma0 :: "word32 \<Rightarrow> word32" where
  "Sigma0 x = rotr 2 x XOR rotr 13 x XOR rotr 22 x"

definition Sigma1 :: "word32 \<Rightarrow> word32" where
  "Sigma1 x = rotr 6 x XOR rotr 11 x XOR rotr 25 x"

definition sigma0 :: "word32 \<Rightarrow> word32" where
  "sigma0 x = rotr 7 x XOR rotr 18 x XOR drop_bit 3 x"

definition sigma1 :: "word32 \<Rightarrow> word32" where
  "sigma1 x = rotr 17 x XOR rotr 19 x XOR drop_bit 10 x"

text \<open>
  The constants of the standard are the first 32 bits after the binary point of the cube roots (one per
  round) and the square roots (the initial state) of the first primes: the root of a prime shifted by 32
  binary places, found bit by bit and taken modulo \<open>2 ^ 32\<close>.
\<close>

fun root_bits :: "nat \<Rightarrow> nat \<Rightarrow> int \<Rightarrow> int \<Rightarrow> int" where
  "root_bits 0 e n r = r"
| "root_bits (Suc k) e n r = root_bits k e n (if (r + 2 ^ k) ^ e \<le> n then r + 2 ^ k else r)"

lemma root_bits_floor:
  assumes "r ^ e \<le> n" and "n < (r + 2 ^ k) ^ e"
  shows "root_bits k e n r ^ e \<le> n \<and> n < (root_bits k e n r + 1) ^ e"
  using assms by (induction k arbitrary: r) (auto simp: algebra_simps)

definition root_fraction :: "nat \<Rightarrow> int \<Rightarrow> word32" where
  "root_fraction e p = of_int (root_bits 37 e (p * 2 ^ (32 * e)) 0)"

text \<open>The primes up to 311, the 64th: a composite number below \<open>19 * 19\<close> has a divisor up to 17.\<close>

definition small_primes :: "int list" where
  "small_primes = filter (\<lambda>p. list_all (\<lambda>d. p \<le> d \<or> p mod d \<noteq> 0) [2, 3, 5, 7, 11, 13, 17]) [2..311]"

definition round_constants :: "word32 list" where
  "round_constants = map (root_fraction 3) small_primes"

lemma round_constants_ends:
  "length small_primes = 64" "root_fraction 3 2 = 0x428a2f98" "root_fraction 3 311 = 0xc67178f2"
  "root_fraction 2 2 = 0x6a09e667" "root_fraction 2 19 = 0x5be0cd19"
  by code_simp+

record digest =
  dA :: word32
  dB :: word32
  dC :: word32
  dD :: word32
  dE :: word32
  dF :: word32
  dG :: word32
  dH :: word32

definition initial_hash :: digest where
  "initial_hash = \<lparr>dA = root_fraction 2 2, dB = root_fraction 2 3, dC = root_fraction 2 5, dD = root_fraction 2 7,
     dE = root_fraction 2 11, dF = root_fraction 2 13, dG = root_fraction 2 17, dH = root_fraction 2 19\<rparr>"

section \<open>Padding\<close>

definition big_endian :: "nat \<Rightarrow> int \<Rightarrow> int list" where
  "big_endian n x = map (\<lambda>i. x div 256 ^ (n - 1 - i) mod 256) [0..<n]"

text \<open>One byte \<open>0x80\<close>, zeros up to 56 modulo 64, and the length in bits in eight bytes.\<close>

definition pad :: "int list \<Rightarrow> int list" where
  "pad m = m @ [0x80] @ replicate ((119 - length m mod 64) mod 64) 0 @ big_endian 8 (8 * int (length m))"

fun words_of :: "int list \<Rightarrow> word32 list" where
  "words_of (a # b # c # d # bs) = of_int (((a * 256 + b) * 256 + c) * 256 + d) # words_of bs"
| "words_of _ = []"

fun blocks_of :: "word32 list \<Rightarrow> word32 list list" where
  "blocks_of ws = (if length ws < 16 then [] else take 16 ws # blocks_of (drop 16 ws))"

declare blocks_of.simps [simp del]

section \<open>Compression\<close>

text \<open>The message schedule, kept as the sixteen words that the next one is computed from.\<close>

definition next_word :: "word32 list \<Rightarrow> word32" where
  "next_word w = sigma1 (w ! 14) + w ! 9 + sigma0 (w ! 1) + w ! 0"

definition sha_round :: "digest \<Rightarrow> word32 \<Rightarrow> word32 \<Rightarrow> digest" where
  "sha_round s k w =
     (let t1 = dH s + Sigma1 (dE s) + Ch (dE s) (dF s) (dG s) + k + w;
          t2 = Sigma0 (dA s) + Maj (dA s) (dB s) (dC s)
      in \<lparr>dA = t1 + t2, dB = dA s, dC = dB s, dD = dC s, dE = dD s + t1, dF = dE s, dG = dF s, dH = dG s\<rparr>)"

fun rounds :: "word32 list \<Rightarrow> word32 list \<Rightarrow> digest \<Rightarrow> digest" where
  "rounds [] w s = s"
| "rounds (k # ks) w s = rounds ks (tl w @ [next_word w]) (sha_round s k (w ! 0))"

definition add_digest :: "digest \<Rightarrow> digest \<Rightarrow> digest" where
  "add_digest a b = \<lparr>dA = dA a + dA b, dB = dB a + dB b, dC = dC a + dC b, dD = dD a + dD b,
     dE = dE a + dE b, dF = dF a + dF b, dG = dG a + dG b, dH = dH a + dH b\<rparr>"

definition compress :: "digest \<Rightarrow> word32 list \<Rightarrow> digest" where
  "compress s block = add_digest s (rounds round_constants block s)"

definition word_bytes :: "word32 \<Rightarrow> int list" where
  "word_bytes w = big_endian 4 (uint w)"

definition digest_bytes :: "digest \<Rightarrow> int list" where
  "digest_bytes s = concat (map word_bytes [dA s, dB s, dC s, dD s, dE s, dF s, dG s, dH s])"

text \<open>\<open>sha256.New()\<close>, the writes one after the other, \<open>Sum(nil)\<close>.\<close>

definition sha256 :: "string \<Rightarrow> int list" where
  "sha256 m = digest_bytes (foldl compress initial_hash (blocks_of (words_of (pad (map of_char m)))))"

section \<open>Hexadecimal text\<close>

definition hex_digit :: "int \<Rightarrow> char" where
  "hex_digit n = ''0123456789abcdef'' ! nat n"

definition EncodeToString :: "int list \<Rightarrow> string" where
  "EncodeToString bs = concat (map (\<lambda>b. [hex_digit (b div 16), hex_digit (b mod 16)]) bs)"

end
