(* ===== verification/Channel.thy ===== *)
theory Channel
  imports Models "HOL-Library.Sublist"
begin

text \<open>
  Channels of Go as the worker pool and the WebSocket hub use them: a buffered channel is its buffer, its
  capacity and whether it was closed. A send that is ready puts a value at the end of the buffer, a
  receive takes the first one. Sending on a closed channel and closing it twice are run-time panics.
\<close>

record 'a channel =
  chan_buf :: "'a list"
  chan_cap :: int
  chan_closed :: bool

text \<open>\<open>make(chan T, n)\<close>.\<close>

definition make_chan :: "int \<Rightarrow> 'a channel" where
  "make_chan n = \<lparr>chan_buf = [], chan_cap = n, chan_closed = False\<rparr>"

text \<open>
  \<open>select { case ch <- x: ... default: ... }\<close> on a channel nobody waits at: \<open>Inr True\<close> when the value
  was sent, \<open>Inr False\<close> when the default branch ran.
\<close>

definition try_send :: "'a \<Rightarrow> 'a channel \<Rightarrow> (go_error + bool) \<times> 'a channel" where
  "try_send x ch =
     (if chan_closed ch then (Inl (GoPanic ''send on closed channel''), ch)
      else if int (length (chan_buf ch)) < chan_cap ch then (Inr True, ch\<lparr>chan_buf := chan_buf ch @ [x]\<rparr>)
      else (Inr False, ch))"

text \<open>A receive: a value, \<open>ok = false\<close> once the channel is closed and empty, or not ready.\<close>

datatype 'a received = Received 'a | NotOk | NotReady

definition try_recv :: "'a channel \<Rightarrow> 'a received \<times> 'a channel" where
  "try_recv ch =
     (case chan_buf ch of
        x # xs \<Rightarrow> (Received x, ch\<lparr>chan_buf := xs\<rparr>)
      | [] \<Rightarrow> (if chan_closed ch then NotOk else NotReady, ch))"

definition close_chan :: "'a channel \<Rightarrow> (go_error + unit) \<times> 'a channel" where
  "close_chan ch =
     (if chan_closed ch then (Inl (GoPanic ''close of closed channel''), ch)
      else (Inr (), ch\<lparr>chan_closed := True\<rparr>))"

definition chan_ok :: "'a channel \<Rightarrow> bool" where
  "chan_ok ch \<longleftrightarrow> int (length (chan_buf ch)) \<le> chan_cap ch"

lemma make_chan_sel [simp]:
  "chan_buf (make_chan n) = []" "chan_cap (make_chan n) = n" "chan_closed (make_chan n) = False"
  by (simp_all add: make_chan_def)

lemma chan_ok_make [simp]: "chan_ok (make_chan n) \<longleftrightarrow> 0 \<le> n"
  by (simp add: chan_ok_def)

lemma try_send_ok: "try_send x ch = (r, ch') \<Longrightarrow> chan_ok ch \<Longrightarrow> chan_ok ch'"
  by (auto simp: try_send_def chan_ok_def split: if_splits)

lemma try_recv_ok: "try_recv ch = (r, ch') \<Longrightarrow> chan_ok ch \<Longrightarrow> chan_ok ch'"
  by (auto simp: try_recv_def chan_ok_def split: list.splits)

lemma try_send_frame:
  "try_send x ch = (r, ch') \<Longrightarrow> chan_cap ch' = chan_cap ch \<and> chan_closed ch' = chan_closed ch"
  by (auto simp: try_send_def split: if_splits)

lemma try_recv_frame:
  "try_recv ch = (r, ch') \<Longrightarrow> chan_cap ch' = chan_cap ch \<and> chan_closed ch' = chan_closed ch"
  by (auto simp: try_recv_def split: list.splits)

lemma try_send_open:
  assumes "\<not> chan_closed ch"
  obtains (sent) "try_send x ch = (Inr True, ch\<lparr>chan_buf := chan_buf ch @ [x]\<rparr>)"
      "int (length (chan_buf ch)) < chan_cap ch"
  | (full) "try_send x ch = (Inr False, ch)" "chan_cap ch \<le> int (length (chan_buf ch))"
  using assms by (cases "int (length (chan_buf ch)) < chan_cap ch") (auto simp: try_send_def)

lemma close_chan_open: "\<not> chan_closed ch \<Longrightarrow> close_chan ch = (Inr (), ch\<lparr>chan_closed := True\<rparr>)"
  by (simp add: close_chan_def)

text \<open>First in, first out: what was received followed by the buffer is what was sent.\<close>

lemma try_recv_fifo: "try_recv ch = (Received x, ch') \<Longrightarrow> chan_buf ch = x # chan_buf ch'"
  by (auto simp: try_recv_def split: list.splits if_splits)

end
