(* ===== verification/Pool.thy ===== *)
theory Pool
  imports Channel
begin

text \<open>
  The worker pool of \<open>internal/workers/pool.go\<close>: its two channels, its worker goroutines and the steps they
  and its callers make. \<open>Pool_accepted\<close> and \<open>Pool_taken\<close> are the history of the queue: the order ids
  that were sent on \<open>jobs\<close> and those that a worker has received. A run interleaves calls of \<open>Process\<close>,
  workers that take a job or come back from \<open>Fulfill\<close>, and the two closes of \<open>Stop\<close>. What \<open>Fulfill\<close>
  does is in \<open>Fulfillment\<close>; here it is the time between a take and a return.
\<close>

section \<open>State and operations\<close>

datatype worker = Waiting | is_Busy: Busy int | Exited

record Pool =
  Pool_jobs :: "int channel"
  Pool_quit :: "unit channel"
  Pool_workers :: "worker list"
  Pool_accepted :: "int list"
  Pool_taken :: "int list"

type_synonym 'a poolm = "(Pool, go_error, 'a) prog"

text \<open>\<open>make\<close> panics on a negative size.\<close>

definition NewPool :: "WorkerConfig \<Rightarrow> go_error + Pool" where
  "NewPool cfg =
     (if QueueSize cfg < 0 then Inl (GoPanic ''makechan: size out of range'')
      else Inr \<lparr>Pool_jobs = make_chan (QueueSize cfg), Pool_quit = make_chan 0, Pool_workers = [],
                Pool_accepted = [], Pool_taken = []\<rparr>)"

definition pool_Start :: "WorkerConfig \<Rightarrow> Pool \<Rightarrow> Pool" where
  "pool_Start cfg p = p\<lparr>Pool_workers := Pool_workers p @ replicate (nat (Count cfg)) Waiting\<rparr>"

definition idle :: "Pool \<Rightarrow> nat list" where
  "idle p = filter (\<lambda>w. Pool_workers p ! w = Waiting) [0..<length (Pool_workers p)]"

text \<open>
  The send in \<open>Process\<close> can proceed when the buffer has room, on a channel without a buffer when a worker
  waits at it, and on a closed channel, where it panics. Without a buffer the value goes to one of the
  workers that wait, the one that \<open>who\<close> selects.
\<close>

definition send_ready :: "Pool \<Rightarrow> bool" where
  "send_ready p \<longleftrightarrow> chan_closed (Pool_jobs p) \<or> int (length (chan_buf (Pool_jobs p))) < chan_cap (Pool_jobs p) \<or>
     chan_cap (Pool_jobs p) = 0 \<and> idle p \<noteq> []"

definition pool_send :: "nat \<Rightarrow> int \<Rightarrow> unit poolm" where
  "pool_send who orderID p =
     (case try_send orderID (Pool_jobs p) of
        (Inl e, ch) \<Rightarrow> (Inl e, p\<lparr>Pool_jobs := ch\<rparr>)
      | (Inr True, ch) \<Rightarrow> (Inr (), p\<lparr>Pool_jobs := ch, Pool_accepted := Pool_accepted p @ [orderID]\<rparr>)
      | (Inr False, ch) \<Rightarrow>
          (Inr (), p\<lparr>Pool_workers := (Pool_workers p)[idle p ! (who mod length (idle p)) := Busy orderID],
                     Pool_accepted := Pool_accepted p @ [orderID], Pool_taken := Pool_taken p @ [orderID]\<rparr>))"

text \<open>\<open>Process\<close>: when both the send and the receive from \<open>quit\<close> can proceed, the \<open>select\<close> takes either; \<open>pick\<close> is its choice.\<close>

definition pool_Process :: "bool \<Rightarrow> nat \<Rightarrow> int \<Rightarrow> unit poolm" where
  "pool_Process pick who orderID p =
     (if send_ready p \<and> (chan_closed (Pool_quit p) \<longrightarrow> pick) then pool_send who orderID p else (Inr (), p))"

text \<open>\<open>work\<close>: one receive of the \<open>range\<close> loop, and the return of \<open>Fulfill\<close>.\<close>

definition work_take :: "nat \<Rightarrow> Pool \<Rightarrow> Pool" where
  "work_take w p =
     (case try_recv (Pool_jobs p) of
        (Received orderID, ch) \<Rightarrow>
          p\<lparr>Pool_jobs := ch, Pool_workers := (Pool_workers p)[w := Busy orderID], Pool_taken := Pool_taken p @ [orderID]\<rparr>
      | (NotOk, ch) \<Rightarrow> p\<lparr>Pool_workers := (Pool_workers p)[w := Exited]\<rparr>
      | (NotReady, ch) \<Rightarrow> p)"

definition work_return :: "nat \<Rightarrow> Pool \<Rightarrow> Pool" where
  "work_return w p = p\<lparr>Pool_workers := (Pool_workers p)[w := Waiting]\<rparr>"

text \<open>\<open>Stop\<close>: close \<open>quit\<close>, then \<open>jobs\<close>, then wait until every worker has left its loop.\<close>

definition stop_intake :: "unit poolm" where
  "stop_intake p = (case close_chan (Pool_quit p) of (r, ch) \<Rightarrow> (r, p\<lparr>Pool_quit := ch\<rparr>))"

definition stop_jobs :: "unit poolm" where
  "stop_jobs p = (case close_chan (Pool_jobs p) of (r, ch) \<Rightarrow> (r, p\<lparr>Pool_jobs := ch\<rparr>))"

definition stop_waits :: "Pool \<Rightarrow> bool" where
  "stop_waits p \<longleftrightarrow> \<not> list_all (\<lambda>w. w = Exited) (Pool_workers p)"

section \<open>Runs\<close>

datatype pool_action = Enqueue bool nat int | Take nat | Return nat | CloseQuit | CloseJobs

fun pool_run :: "pool_action \<Rightarrow> unit poolm" where
  "pool_run (Enqueue pick who orderID) p = pool_Process pick who orderID p"
| "pool_run (Take w) p = (Inr (), work_take w p)"
| "pool_run (Return w) p = (Inr (), work_return w p)"
| "pool_run CloseQuit p = stop_intake p"
| "pool_run CloseJobs p = stop_jobs p"

definition can_take :: "Pool \<Rightarrow> nat \<Rightarrow> bool" where
  "can_take p w \<longleftrightarrow> w < length (Pool_workers p) \<and> Pool_workers p ! w = Waiting \<and>
     (chan_buf (Pool_jobs p) \<noteq> [] \<or> chan_closed (Pool_jobs p))"

definition can_return :: "Pool \<Rightarrow> nat \<Rightarrow> bool" where
  "can_return p w \<longleftrightarrow> w < length (Pool_workers p) \<and> is_Busy (Pool_workers p ! w)"

text \<open>\<open>Stop\<close> is called once, so each of its closes happens once and in this order.\<close>

fun pool_enabled :: "pool_action \<Rightarrow> Pool \<Rightarrow> bool" where
  "pool_enabled (Enqueue pick who orderID) p \<longleftrightarrow> True"
| "pool_enabled (Take w) p \<longleftrightarrow> can_take p w"
| "pool_enabled (Return w) p \<longleftrightarrow> can_return p w"
| "pool_enabled CloseQuit p \<longleftrightarrow> \<not> chan_closed (Pool_quit p)"
| "pool_enabled CloseJobs p \<longleftrightarrow> chan_closed (Pool_quit p) \<and> \<not> chan_closed (Pool_jobs p)"

inductive pool_reach :: "WorkerConfig \<Rightarrow> Pool \<Rightarrow> bool" for cfg where
  start: "NewPool cfg = Inr p \<Longrightarrow> pool_reach cfg (pool_Start cfg p)"
| step: "pool_reach cfg p \<Longrightarrow> pool_enabled a p \<Longrightarrow> pool_run a p = (r, p') \<Longrightarrow> pool_reach cfg p'"

section \<open>The abstract queue\<close>

text \<open>
  What the pool promises: a bounded queue. An order enters at the end while the queue is open and has
  room, or passes straight through to a worker when there is no room to wait at all, and leaves at the
  front; a closed queue only drains.
\<close>

record job_queue =
  Q_items :: "int list"
  Q_handed :: "int list"
  Q_open :: bool

definition queue_enter :: "int \<Rightarrow> job_queue \<Rightarrow> job_queue" where
  "queue_enter i q = q\<lparr>Q_items := Q_items q @ [i]\<rparr>"

definition queue_leave :: "job_queue \<Rightarrow> job_queue" where
  "queue_leave q = q\<lparr>Q_items := tl (Q_items q), Q_handed := Q_handed q @ [hd (Q_items q)]\<rparr>"

inductive queue_step :: "int \<Rightarrow> job_queue \<Rightarrow> job_queue \<Rightarrow> bool" for cap where
  idle: "queue_step cap q q"
| enter: "Q_open q \<Longrightarrow> int (length (Q_items q)) < cap \<Longrightarrow> queue_step cap q (queue_enter i q)"
| through: "Q_open q \<Longrightarrow> Q_items q = [] \<Longrightarrow> queue_step cap q (queue_leave (queue_enter i q))"
| leave: "Q_items q \<noteq> [] \<Longrightarrow> queue_step cap q (queue_leave q)"
| shut: "Q_open q \<Longrightarrow> queue_step cap q (q\<lparr>Q_open := False\<rparr>)"

inductive_cases queue_stepE: "queue_step cap q q'"

definition pool_queue :: "Pool \<Rightarrow> job_queue" where
  "pool_queue p = \<lparr>Q_items = chan_buf (Pool_jobs p), Q_handed = Pool_taken p, Q_open = (\<not> chan_closed (Pool_jobs p))\<rparr>"

section \<open>The invariant\<close>

definition pool_ok :: "WorkerConfig \<Rightarrow> Pool \<Rightarrow> bool" where
  "pool_ok cfg p \<longleftrightarrow> 0 \<le> QueueSize cfg \<and> chan_ok (Pool_jobs p) \<and> chan_cap (Pool_jobs p) = QueueSize cfg \<and>
     length (Pool_workers p) = nat (Count cfg) \<and> Pool_accepted p = Pool_taken p @ chan_buf (Pool_jobs p) \<and>
     (chan_closed (Pool_jobs p) \<longrightarrow> chan_closed (Pool_quit p)) \<and>
     (Exited \<in> set (Pool_workers p) \<longrightarrow> chan_closed (Pool_jobs p) \<and> chan_buf (Pool_jobs p) = [])"

lemma pool_ok_start: "NewPool cfg = Inr p \<Longrightarrow> pool_ok cfg (pool_Start cfg p)"
  by (auto simp: NewPool_def pool_Start_def pool_ok_def split: if_splits)

lemma in_idle: "w \<in> set (idle p) \<longleftrightarrow> w < length (Pool_workers p) \<and> Pool_workers p ! w = Waiting"
  by (auto simp: idle_def)

lemma set_update_Exited: "Exited \<in> set (ws[w := x]) \<Longrightarrow> x \<noteq> Exited \<Longrightarrow> Exited \<in> set ws"
  using set_update_subset_insert [of ws w x] by auto

text \<open>What a call of \<open>Process\<close> can do to a well-formed pool.\<close>

lemma Process_cases:
  assumes "pool_ok cfg p" and "pool_Process pick who i p = (r, p')"
  obtains (deferred) "r = Inr ()" "p' = p"
  | (queued) "r = Inr ()" "\<not> chan_closed (Pool_jobs p)" "int (length (chan_buf (Pool_jobs p))) < QueueSize cfg"
      "p' = p\<lparr>Pool_jobs := (Pool_jobs p)\<lparr>chan_buf := chan_buf (Pool_jobs p) @ [i]\<rparr>, Pool_accepted := Pool_accepted p @ [i]\<rparr>"
  | (handed) w where "r = Inr ()" "\<not> chan_closed (Pool_jobs p)" "chan_buf (Pool_jobs p) = []" "w \<in> set (idle p)"
      "p' = p\<lparr>Pool_workers := (Pool_workers p)[w := Busy i], Pool_accepted := Pool_accepted p @ [i], Pool_taken := Pool_taken p @ [i]\<rparr>"
  | (panicked) "r = Inl (GoPanic ''send on closed channel'')" "chan_closed (Pool_jobs p)" "pick" "p' = p"
proof -
  have cap: "chan_cap (Pool_jobs p) = QueueSize cfg" "int (length (chan_buf (Pool_jobs p))) \<le> QueueSize cfg"
    "chan_closed (Pool_jobs p) \<longrightarrow> chan_closed (Pool_quit p)" using assms(1) by (simp_all add: pool_ok_def chan_ok_def)
  show ?thesis
  proof (cases "send_ready p \<and> (chan_closed (Pool_quit p) \<longrightarrow> pick)")
    case False
    with assms(2) have "r = Inr ()" "p' = p" unfolding pool_Process_def by (auto split: if_splits)
    then show ?thesis by (rule deferred)
  next
    case True
    with assms(2) have s: "pool_send who i p = (r, p')" by (simp add: pool_Process_def)
    show ?thesis
    proof (cases "chan_closed (Pool_jobs p)")
      case True
      with s have "r = Inl (GoPanic ''send on closed channel'')" "p' = p" by (auto simp: pool_send_def try_send_def)
      then show ?thesis using True cap(3) \<open>send_ready p \<and> _\<close> panicked by blast
    next
      case False
      from False show ?thesis
      proof (cases rule: try_send_open [where x = i])
        case sent
        with s False cap show ?thesis by (intro queued) (auto simp: pool_send_def)
      next
        case full
        with True False cap have c: "QueueSize cfg = 0" "idle p \<noteq> []" "chan_buf (Pool_jobs p) = []"
          by (auto simp: send_ready_def)
        then have "idle p ! (who mod length (idle p)) \<in> set (idle p)" by (intro nth_mem) simp
        with s full False c show ?thesis by (intro handed) (auto simp: pool_send_def)
      qed
    qed
  qed
qed

lemma Process_ok:
  assumes ok: "pool_ok cfg p" and "pool_Process pick who i p = (r, p')"
  shows "pool_ok cfg p' \<and> queue_step (QueueSize cfg) (pool_queue p) (pool_queue p')"
  using assms
proof (cases rule: Process_cases)
  case queued
  have "queue_step (QueueSize cfg) (pool_queue p) (queue_enter i (pool_queue p))"
    using queued by (intro queue_step.enter) (simp_all add: pool_queue_def)
  then show ?thesis using ok queued by (auto simp: pool_ok_def chan_ok_def pool_queue_def queue_enter_def)
next
  case (handed w)
  have "queue_step (QueueSize cfg) (pool_queue p) (queue_leave (queue_enter i (pool_queue p)))"
    using handed by (intro queue_step.through) (simp_all add: pool_queue_def)
  moreover have "pool_ok cfg p'" using ok handed set_update_Exited [of "Pool_workers p" w "Busy i"] by (auto simp: pool_ok_def chan_ok_def)
  ultimately show ?thesis using handed by (simp add: pool_queue_def queue_enter_def queue_leave_def)
qed (use ok in \<open>auto intro: queue_step.idle\<close>)

lemma take_cases:
  assumes "can_take p w"
  obtains (job) i js where "chan_buf (Pool_jobs p) = i # js"
      "work_take w p = p\<lparr>Pool_jobs := (Pool_jobs p)\<lparr>chan_buf := js\<rparr>, Pool_workers := (Pool_workers p)[w := Busy i],
         Pool_taken := Pool_taken p @ [i]\<rparr>"
  | (leaves) "chan_buf (Pool_jobs p) = []" "chan_closed (Pool_jobs p)"
      "work_take w p = p\<lparr>Pool_workers := (Pool_workers p)[w := Exited]\<rparr>"
  using assms by (cases "chan_buf (Pool_jobs p)") (auto simp: can_take_def work_take_def try_recv_def)

lemma take_ok:
  assumes ok: "pool_ok cfg p" and "can_take p w"
  shows "pool_ok cfg (work_take w p) \<and> queue_step (QueueSize cfg) (pool_queue p) (pool_queue (work_take w p))"
  using assms(2)
proof (cases rule: take_cases)
  case (job i js)
  have "queue_step (QueueSize cfg) (pool_queue p) (queue_leave (pool_queue p))"
    using job by (intro queue_step.leave) (simp add: pool_queue_def)
  moreover have "pool_ok cfg (work_take w p)"
    using ok job set_update_Exited [of "Pool_workers p" w "Busy i"] by (auto simp: pool_ok_def chan_ok_def)
  ultimately show ?thesis using job by (simp add: pool_queue_def queue_leave_def)
next
  case leaves
  then show ?thesis using ok queue_step.idle [of "QueueSize cfg" "pool_queue p"]
    by (auto simp: pool_ok_def pool_queue_def)
qed

lemma return_ok:
  assumes "pool_ok cfg p"
  shows "pool_ok cfg (work_return w p) \<and> pool_queue (work_return w p) = pool_queue p"
  using assms set_update_Exited [of "Pool_workers p" w Waiting] by (auto simp: pool_ok_def pool_queue_def work_return_def)

lemma pool_step_ok:
  assumes "pool_ok cfg p" and "pool_enabled a p" and "pool_run a p = (r, p')"
  shows "pool_ok cfg p' \<and> queue_step (QueueSize cfg) (pool_queue p) (pool_queue p')"
proof (cases a)
  case (Enqueue pick who i)
  then show ?thesis using assms Process_ok by simp
next
  case (Take w)
  then show ?thesis using assms take_ok by auto
next
  case (Return w)
  then show ?thesis using assms return_ok [of cfg p w] queue_step.idle by auto
next
  case CloseQuit
  then show ?thesis using assms queue_step.idle [of "QueueSize cfg" "pool_queue p"]
    by (auto simp: stop_intake_def close_chan_def pool_ok_def pool_queue_def)
next
  case CloseJobs
  then show ?thesis using assms queue_step.shut [of "pool_queue p" "QueueSize cfg"]
    by (auto simp: stop_jobs_def close_chan_def pool_ok_def chan_ok_def pool_queue_def)
qed

lemma pool_reach_ok: "pool_reach cfg p \<Longrightarrow> pool_ok cfg p"
  by (induction rule: pool_reach.induct) (auto intro: pool_ok_start dest: pool_step_ok)

section \<open>Draining\<close>

text \<open>
  A step of a worker. Each one brings a stopped pool closer to the end: a job goes from the buffer to a
  worker, from the worker to its end, and an idle worker leaves.
\<close>

definition worker_step :: "Pool \<Rightarrow> Pool \<Rightarrow> bool" where
  "worker_step p p' \<longleftrightarrow> (\<exists>w. can_take p w \<and> p' = work_take w p \<or> can_return p w \<and> p' = work_return w p)"

primrec worker_left :: "worker \<Rightarrow> nat" where
  "worker_left Exited = 0"
| "worker_left Waiting = 1"
| "worker_left (Busy i) = 2"

definition work_left :: "Pool \<Rightarrow> nat" where
  "work_left p = 2 * length (chan_buf (Pool_jobs p)) + (\<Sum>w\<leftarrow>Pool_workers p. worker_left w)"

lemma worker_left_update:
  "w < length ws \<Longrightarrow> (\<Sum>x\<leftarrow>ws[w := y]. worker_left x) + worker_left (ws ! w) = (\<Sum>x\<leftarrow>ws. worker_left x) + worker_left y"
proof (induction ws arbitrary: w)
  case (Cons a ws)
  then show ?case by (cases w) fastforce+
qed simp

lemma worker_step_left: "worker_step p p' \<Longrightarrow> work_left p' < work_left p"
proof -
  assume "worker_step p p'"
  then obtain w where "can_take p w \<and> p' = work_take w p \<or> can_return p w \<and> p' = work_return w p"
    by (auto simp: worker_step_def)
  then show ?thesis
  proof (elim disjE conjE)
    assume t: "can_take p w" "p' = work_take w p"
    then have w: "w < length (Pool_workers p)" "Pool_workers p ! w = Waiting" by (simp_all add: can_take_def)
    from t(1) show ?thesis
    proof (cases rule: take_cases)
      case (job i js)
      then show ?thesis using t(2) w worker_left_update [OF w(1), of "Busy i"] by (simp add: work_left_def)
    next
      case leaves
      then show ?thesis using t(2) w worker_left_update [OF w(1), of Exited] by (simp add: work_left_def)
    qed
  next
    assume t: "can_return p w" "p' = work_return w p"
    then obtain i where w: "w < length (Pool_workers p)" "Pool_workers p ! w = Busy i" by (auto simp: can_return_def is_Busy_def)
    then show ?thesis using t(2) worker_left_update [OF w(1), of Waiting] by (simp add: work_left_def work_return_def)
  qed
qed

lemma worker_step_ok:
  assumes "pool_ok cfg p" and "worker_step p p'"
  shows "pool_ok cfg p'" and "Pool_accepted p' = Pool_accepted p" and "chan_closed (Pool_jobs p') = chan_closed (Pool_jobs p)"
proof -
  from assms(2) obtain w where w: "can_take p w \<and> p' = work_take w p \<or> can_return p w \<and> p' = work_return w p"
    by (auto simp: worker_step_def)
  then show "pool_ok cfg p'" using take_ok [OF assms(1)] return_ok [OF assms(1)] by auto
  from w show "Pool_accepted p' = Pool_accepted p" by (auto simp: work_return_def elim: take_cases)
  from w show "chan_closed (Pool_jobs p') = chan_closed (Pool_jobs p)" by (auto simp: work_return_def elim: take_cases)
qed

lemma stopped_stuck:
  assumes "chan_closed (Pool_jobs p)" and "\<nexists>p'. worker_step p p'"
  shows "\<not> stop_waits p"
proof -
  have "x = Exited" if x: "x \<in> set (Pool_workers p)" for x
  proof -
    obtain w where w: "w < length (Pool_workers p)" "Pool_workers p ! w = x" using x by (auto simp: in_set_conv_nth)
    have "\<not> can_take p w" "\<not> can_return p w" using assms(2) by (auto simp: worker_step_def)
    then show ?thesis using w assms(1) by (cases x) (auto simp: can_take_def can_return_def)
  qed
  then show ?thesis by (simp add: stop_waits_def list_all_iff)
qed

section \<open>The interface to the callers\<close>

text \<open>
  \<open>services.OrderProcessor\<close> and \<open>workers.Enqueuer\<close>: \<open>Process\<close> takes an order id and returns, as long as the
  processor is in service.
\<close>

locale processor =
  fixes Process :: "int \<Rightarrow> ('q, go_error, unit) prog"
    and in_service :: "'q \<Rightarrow> bool"
  assumes process_returns: "in_service q \<Longrightarrow> \<exists>q'. Process orderID q = (Inr (), q') \<and> in_service q'"
begin

lemma process_all: "in_service q \<Longrightarrow> \<exists>q'. forE ids Process q = (Inr (), q') \<and> in_service q'"
proof (induction ids arbitrary: q)
  case (Cons i ids)
  obtain q1 where "Process i q = (Inr (), q1)" "in_service q1" using process_returns [OF Cons.prems] by blast
  then show ?case using Cons.IH by (simp add: bindE_def)
qed (simp add: ret_def)

end

interpretation worker_pool: processor "pool_Process pick who" "\<lambda>p. pool_ok cfg p \<and> \<not> chan_closed (Pool_jobs p)" for pick who cfg
proof
  fix p i
  assume p: "pool_ok cfg p \<and> \<not> chan_closed (Pool_jobs p)"
  obtain r p' where run: "pool_Process pick who i p = (r, p')" by force
  from p have ok: "pool_ok cfg p" by simp
  from ok run have "r = Inr () \<and> \<not> chan_closed (Pool_jobs p')" using p by (cases rule: Process_cases) auto
  with run Process_ok [OF ok run] show "\<exists>q'. pool_Process pick who i p = (Inr (), q') \<and> pool_ok cfg q' \<and> \<not> chan_closed (Pool_jobs q')"
    by blast
qed

section \<open>Properties\<close>

text \<open>
  C32. The pool implements the bounded queue: in every reachable state each action of a caller, a worker or
  \<open>Stop\<close> is a step of the abstract queue. So the buffer never exceeds \<open>QueueSize\<close>, the orders handed to
  the workers are the accepted ones in the order in which they were accepted, none lost or handed out
  twice, and only \<open>Process\<close> after the queue was closed can panic.
\<close>

theorem Pool_refines_queue:
  assumes "pool_reach cfg p" and "pool_enabled a p" and "pool_run a p = (r, p')"
  shows "queue_step (QueueSize cfg) (pool_queue p) (pool_queue p') \<and>
    int (length (Q_items (pool_queue p'))) \<le> QueueSize cfg \<and>
    Pool_accepted p' = Q_handed (pool_queue p') @ Q_items (pool_queue p') \<and>
    (isl r \<longrightarrow> (\<exists>pick who i. a = Enqueue pick who i) \<and> \<not> Q_open (pool_queue p) \<and> p' = p)"
proof -
  note ok = pool_reach_ok [OF assms(1)]
  have step: "pool_ok cfg p'" "queue_step (QueueSize cfg) (pool_queue p) (pool_queue p')"
    using pool_step_ok [OF ok assms(2,3)] by auto
  have "(\<exists>pick who i. a = Enqueue pick who i) \<and> chan_closed (Pool_jobs p) \<and> p' = p" if "isl r"
  proof (cases a)
    case (Enqueue pick who i)
    with assms(3) have "pool_Process pick who i p = (r, p')" by simp
    with ok show ?thesis using that Enqueue by (cases rule: Process_cases) auto
  qed (use assms(2,3) that in \<open>auto simp: stop_intake_def stop_jobs_def close_chan_def\<close>)
  then show ?thesis using step by (simp add: pool_queue_def pool_ok_def chan_ok_def)
qed

definition sample_pool_cfg :: WorkerConfig where
  "sample_pool_cfg =
     \<lparr>Count = 1, QueueSize = 2, MaxRetries = 3, BaseBackoff = 200, MaxBackoff = 5000, AttemptTimeout = 5000, SweepInterval = 30,
      StaleAfter = 60, SweepBatchSize = 100, GatewayFailureRate = 0, ShutdownTimeout = 10\<rparr>"

definition sample_pool :: Pool where
  "sample_pool = (case NewPool sample_pool_cfg of Inr p \<Rightarrow> snd (pool_run (Enqueue True 0 7) (pool_Start sample_pool_cfg p)))"

definition stopped_pool :: Pool where
  "stopped_pool = snd (pool_run CloseJobs (snd (pool_run CloseQuit sample_pool)))"

lemma sample_pool_reach: "pool_reach sample_pool_cfg sample_pool"
proof -
  obtain p where p: "NewPool sample_pool_cfg = Inr p" by (simp add: NewPool_def sample_pool_cfg_def)
  have "pool_reach sample_pool_cfg (pool_Start sample_pool_cfg p)" using p by (rule pool_reach.start)
  then have "pool_reach sample_pool_cfg (snd (pool_run (Enqueue True 0 7) (pool_Start sample_pool_cfg p)))"
    by (rule pool_reach.step [where a = "Enqueue True 0 7" and r = "fst (pool_run (Enqueue True 0 7) (pool_Start sample_pool_cfg p))"]) simp_all
  then show ?thesis using p by (simp add: sample_pool_def)
qed

lemma stopped_pool_reach: "pool_reach sample_pool_cfg stopped_pool"
proof -
  let ?q = "snd (pool_run CloseQuit sample_pool)"
  have "pool_enabled CloseQuit sample_pool" "pool_enabled CloseJobs ?q" by code_simp+
  then have "pool_reach sample_pool_cfg ?q" "pool_reach sample_pool_cfg (snd (pool_run CloseJobs ?q))"
    using pool_reach.step [OF sample_pool_reach, of CloseQuit "fst (pool_run CloseQuit sample_pool)" ?q]
      pool_reach.step [of sample_pool_cfg ?q CloseJobs "fst (pool_run CloseJobs ?q)" "snd (pool_run CloseJobs ?q)"] by simp_all
  then show ?thesis by (simp add: stopped_pool_def)
qed

theorem Pool_refines_queue_witness:
  "Q_items (pool_queue sample_pool) = [7] \<and>
   queue_step (QueueSize sample_pool_cfg) (pool_queue sample_pool) (pool_queue (snd (pool_run (Take 0) sample_pool))) \<and>
   Pool_accepted (snd (pool_run (Take 0) sample_pool)) = [7]"
proof -
  have c: "pool_enabled (Take 0) sample_pool" "Q_items (pool_queue sample_pool) = [7]"
    "Pool_accepted (snd (pool_run (Take 0) sample_pool)) = [7]" by code_simp+
  then show ?thesis
    using Pool_refines_queue [OF sample_pool_reach c(1), of "fst (pool_run (Take 0) sample_pool)" "snd (pool_run (Take 0) sample_pool)"]
    by simp
qed

text \<open>
  C33. \<open>Stop\<close> drains: once it has closed the queue, the workers make at most \<open>work_left\<close> further steps,
  whatever the order in which they run, and when none of them can make a step every worker has left its
  loop, so \<open>wg.Wait\<close> returns, and, if there is a worker at all, every accepted order has been handed to one.
\<close>

theorem Pool_drains:
  assumes "pool_reach cfg p" and "chan_closed (Pool_jobs p)"
  shows "((worker_step ^^ n) p p' \<longrightarrow> n \<le> work_left p) \<and>
    (worker_step\<^sup>*\<^sup>* p p' \<and> (\<nexists>q. worker_step p' q) \<longrightarrow>
       \<not> stop_waits p' \<and> (0 < Count cfg \<longrightarrow> Pool_taken p' = Pool_accepted p))"
proof (intro conjI impI)
  show "n \<le> work_left p" if "(worker_step ^^ n) p p'"
  proof -
    have "(worker_step ^^ n) p p' \<Longrightarrow> n + work_left p' \<le> work_left p"
      by (induction n arbitrary: p') (auto dest!: worker_step_left, force)
    with that show ?thesis by simp
  qed
  assume run: "worker_step\<^sup>*\<^sup>* p p' \<and> (\<nexists>q. worker_step p' q)"
  then have "worker_step\<^sup>*\<^sup>* p p'" by simp
  then have ok: "pool_ok cfg p' \<and> Pool_accepted p' = Pool_accepted p \<and> chan_closed (Pool_jobs p')"
  proof (induction rule: rtranclp_induct)
    case base
    then show ?case using assms pool_reach_ok by auto
  next
    case (step y z)
    then show ?case using worker_step_ok [of cfg y z] by simp
  qed
  then show stop: "\<not> stop_waits p'" using run stopped_stuck by blast
  show "Pool_taken p' = Pool_accepted p" if "0 < Count cfg"
  proof -
    have "Pool_workers p' \<noteq> []" using that ok by (auto simp: pool_ok_def)
    then have "Exited \<in> set (Pool_workers p')" using stop by (cases "Pool_workers p'") (auto simp: stop_waits_def)
    then show ?thesis using ok by (metis append_Nil2 pool_ok_def)
  qed
qed

theorem Pool_drains_witness:
  "stop_waits stopped_pool \<and>
   (\<exists>p'. worker_step\<^sup>*\<^sup>* stopped_pool p' \<and> \<not> stop_waits p' \<and> Pool_taken p' = [7])"
proof -
  let ?a = "work_take 0 stopped_pool" let ?b = "work_return 0 ?a" let ?c = "work_take 0 ?b"
  have c: "can_take stopped_pool 0" "can_take ?b 0" "chan_closed (Pool_jobs stopped_pool)" "stop_waits stopped_pool"
    "0 < Count sample_pool_cfg" "Pool_accepted stopped_pool = [7]" "Pool_workers ?c = [Exited]" by code_simp+
  have "Pool_workers ?a = [Busy 7]" by code_simp
  then have "can_return ?a 0" by (simp add: can_return_def)
  with c(1,2) have "worker_step stopped_pool ?a" "worker_step ?a ?b" "worker_step ?b ?c" unfolding worker_step_def by blast+
  then have run: "worker_step\<^sup>*\<^sup>* stopped_pool ?c" by (meson converse_rtranclp_into_rtranclp r_into_rtranclp)
  have "\<nexists>q. worker_step ?c q" using c(7) by (auto simp: worker_step_def can_take_def can_return_def)
  with run show ?thesis using Pool_drains [OF stopped_pool_reach c(3), of 0 ?c] c(4-6) by auto
qed

text \<open>Every pool can be stopped: the two closes of \<open>Stop\<close> are enabled in turn.\<close>

lemma stop_reachable:
  assumes "pool_reach cfg p"
  shows "\<exists>p'. pool_reach cfg p' \<and> chan_closed (Pool_jobs p') \<and> Pool_accepted p' = Pool_accepted p \<and> Pool_taken p' = Pool_taken p"
proof -
  obtain q where q: "pool_reach cfg q" "chan_closed (Pool_quit q)" "Pool_accepted q = Pool_accepted p" "Pool_taken q = Pool_taken p"
  proof (cases "chan_closed (Pool_quit p)")
    case True
    then show ?thesis using assms that by blast
  next
    case False
    let ?q = "snd (pool_run CloseQuit p)"
    have "pool_reach cfg ?q"
      using pool_reach.step [OF assms, of CloseQuit "fst (pool_run CloseQuit p)" ?q] False by simp
    then show ?thesis using that [of ?q] False by (simp add: stop_intake_def close_chan_def)
  qed
  show ?thesis
  proof (cases "chan_closed (Pool_jobs q)")
    case True
    then show ?thesis using q by blast
  next
    case False
    let ?q = "snd (pool_run CloseJobs q)"
    have "pool_reach cfg ?q"
      using pool_reach.step [OF q(1), of CloseJobs "fst (pool_run CloseJobs q)" ?q] q(2) False by simp
    moreover have "chan_closed (Pool_jobs ?q)" "Pool_accepted ?q = Pool_accepted q" "Pool_taken ?q = Pool_taken q"
      using False by (simp_all add: stop_jobs_def close_chan_def)
    ultimately show ?thesis using q(3,4) by auto
  qed
qed

text \<open>
  C34. \<open>Process\<close> on any pool that runs and stops as \<open>Pool\<close> does, whatever its size and history: it panics
  exactly when \<open>Stop\<close> has closed \<open>jobs\<close> and the \<open>select\<close> takes the send, which it may because both of
  its cases can then proceed; with the other choice the order is left pending, as the comment
  promises for both. From every reachable state such a stopped one can be reached. Neither outcome
  touches the pool.
\<close>

theorem Process_after_Stop:
  assumes "pool_reach cfg p"
  shows "(isl (fst (pool_Process pick who i p)) \<longleftrightarrow> chan_closed (Pool_jobs p) \<and> pick) \<and>
    (chan_closed (Pool_jobs p) \<longrightarrow>
       pool_Process pick who i p = (if pick then Inl (GoPanic ''send on closed channel'') else Inr (), p)) \<and>
    (\<exists>p'. pool_reach cfg p' \<and> chan_closed (Pool_jobs p') \<and> Pool_accepted p' = Pool_accepted p \<and> Pool_taken p' = Pool_taken p)"
proof -
  note ok = pool_reach_ok [OF assms]
  then have quit: "chan_closed (Pool_jobs p) \<longrightarrow> chan_closed (Pool_quit p)" by (simp add: pool_ok_def)
  obtain r p' where run: "pool_Process pick who i p = (r, p')" by force
  have panics: "isl r \<longrightarrow> chan_closed (Pool_jobs p) \<and> pick" using ok run by (cases rule: Process_cases) auto
  have closed: "pool_Process pick who i p = (if pick then Inl (GoPanic ''send on closed channel'') else Inr (), p)"
    if "chan_closed (Pool_jobs p)"
    using that quit by (simp add: pool_Process_def send_ready_def pool_send_def try_send_def)
  have "isl (fst (pool_Process pick who i p)) \<longleftrightarrow> chan_closed (Pool_jobs p) \<and> pick"
  proof (cases "chan_closed (Pool_jobs p) \<and> pick")
    case True
    then show ?thesis using closed by simp
  next
    case False
    then have "\<not> isl r" using panics by blast
    then show ?thesis using False run by simp
  qed
  with closed stop_reachable [OF assms] show ?thesis by blast
qed

theorem Process_after_Stop_witness:
  "pool_reach sample_pool_cfg stopped_pool \<and>
   pool_Process True 0 8 stopped_pool = (Inl (GoPanic ''send on closed channel''), stopped_pool) \<and>
   pool_Process False 0 8 stopped_pool = (Inr (), stopped_pool)"
proof -
  have "chan_closed (Pool_jobs stopped_pool)" by code_simp
  then show ?thesis
    using stopped_pool_reach Process_after_Stop [OF stopped_pool_reach, of True 0 8]
      Process_after_Stop [OF stopped_pool_reach, of False 0 8] by simp
qed

end
