(* ===== verification/OrderService.thy ===== *)
theory OrderService
  imports OrderPlacing ProductService Idempotency Sha256 Pool
begin

text \<open>
  \<open>internal/services/order.go\<close>: placing an order.

  The service runs on the database, an idempotency store and an order processor; the last two are
  interfaces in Go, so their operations are arguments here. \<open>uuid.NewString\<close> is of a package outside
  the repository: the string it returns is an argument, as are the times that gorm reads from the
  clock. Products and sums of prices are rounded one operation at a time; a compiler that fuses the
  multiplication with the addition would round less often.
\<close>

section \<open>The key of a cart\<close>

definition idempotencyTTL :: duration where
  "idempotencyTTL = 5 * 60 * 1000000000"

definition cart_text :: "int \<Rightarrow> OrderItemRequest list \<Rightarrow> string" where
  "cart_text userID items =
     ''u:'' @ Itoa userID @
     concat (map (\<lambda>i. ''|'' @ Itoa (Req_ProductID i) @ '':'' @ Itoa (Req_Quantity i))
       (sort_key Req_ProductID items))"

definition idempotencyKey :: "int \<Rightarrow> OrderItemRequest list \<Rightarrow> string" where
  "idempotencyKey userID items = EncodeToString (sha256 (cart_text userID items))"

section \<open>The order and its lines\<close>

text \<open>The loop over the lines with the map of the products seen so far.\<close>

fun duplicate_line :: "int list \<Rightarrow> OrderItemRequest list \<Rightarrow> bool" where
  "duplicate_line seen [] = False"
| "duplicate_line seen (i # its) =
     (if Req_ProductID i \<in> set seen then True else duplicate_line (Req_ProductID i # seen) its)"

definition priceByID :: "Product list \<Rightarrow> int \<Rightarrow> float64 option" where
  "priceByID ps = fold (\<lambda>p m. m(Product_ID p \<mapsto> Product_Price p)) ps Map.empty"

fun build_items ::
  "(int \<Rightarrow> float64 option) \<Rightarrow> OrderItemRequest list \<Rightarrow> OrderItem list \<Rightarrow> float64 \<Rightarrow>
     go_error + OrderItem list \<times> float64"
where
  "build_items price [] items total_price = Inr (items, total_price)"
| "build_items price (i # its) items total_price =
     (case price (Req_ProductID i) of
        None \<Rightarrow> Inl (ProductNotFoundError (Req_ProductID i))
      | Some p \<Rightarrow>
          build_items price its
            (items @ [\<lparr>Item_ID = 0, Item_OrderID = 0, Item_ProductID = Req_ProductID i,
                       Item_Quantity = Req_Quantity i, Item_PriceAtPurchase = p\<rparr>])
            (f_add total_price (f_mul p (f_of_int (Req_Quantity i)))))"

definition build_order :: "int \<Rightarrow> OrderItem list \<Rightarrow> float64 \<Rightarrow> Order" where
  "build_order userID items total_price =
     \<lparr>Order_ID = 0, Order_UserID = userID, Order_Status = OrderStatusPending, Order_TotalPrice = total_price,
      Order_Items = sort_key Item_ProductID items, Order_CreatedAt = 0, Order_UpdatedAt = 0\<rparr>"

definition build_payment :: "string \<Rightarrow> float64 \<Rightarrow> Payment" where
  "build_payment uuid total_price =
     \<lparr>Payment_ID = 0, Payment_OrderID = 0, Payment_IdempotencyKey = uuid, Payment_Status = PaymentStatusPending,
      Payment_Amount = total_price, Payment_ProviderTxnID = None, Payment_CreatedAt = 0, Payment_UpdatedAt = 0\<rparr>"

definition toOrderResponse :: "Order \<Rightarrow> OrderResponse" where
  "toOrderResponse ord =
     \<lparr>OrderResp_ID = Order_ID ord, OrderResp_UserID = Order_UserID ord, OrderResp_Status = Order_Status ord,
      OrderResp_TotalPrice = Order_TotalPrice ord,
      OrderResp_Items = map (\<lambda>i. \<lparr>ItemResp_ProductID = Item_ProductID i, ItemResp_Quantity = Item_Quantity i,
        ItemResp_PriceAtPurchase = Item_PriceAtPurchase i\<rparr>) (Order_Items ord),
      OrderResp_CreatedAt = Order_CreatedAt ord, OrderResp_UpdatedAt = Order_UpdatedAt ord\<rparr>"

section \<open>CreateOrder\<close>

text \<open>The state of the service: the database, the store and the processor.\<close>

record ('k, 'q) app =
  app_db :: pg
  app_idem :: 'k
  app_proc :: 'q

definition on_db :: "'a dbm \<Rightarrow> (('k, 'q) app, go_error, 'a) prog" where
  "on_db m w = (case m (app_db w) of (r, d) \<Rightarrow> (r, w\<lparr>app_db := d\<rparr>))"

definition on_proc :: "('q \<Rightarrow> (go_error + 'a) \<times> 'q) \<Rightarrow> (('k, 'q) app, go_error, 'a) prog" where
  "on_proc m w = (case m (app_proc w) of (r, q) \<Rightarrow> (r, w\<lparr>app_proc := q\<rparr>))"

text \<open>\<open>s.release(ctx, key)\<close>, whose error is only logged, before the early return of an error.\<close>

definition releasing ::
  "(string \<Rightarrow> 'k \<Rightarrow> (store_error + unit) \<times> 'k) \<Rightarrow> string \<Rightarrow>
     (('k, 'q) app, go_error, 'a) prog \<Rightarrow> (('k, 'q) app, go_error, 'a) prog"
where
  "releasing Release key m w =
     (case m w of
        (Inl e, w') \<Rightarrow> (Inl e, w'\<lparr>app_idem := snd (Release key (app_idem w'))\<rparr>)
      | (Inr x, w') \<Rightarrow> (Inr x, w'))"

definition place_order ::
  "(string \<Rightarrow> 'k \<Rightarrow> (store_error + unit) \<times> 'k) \<Rightarrow> (int \<Rightarrow> 'q \<Rightarrow> (go_error + unit) \<times> 'q) \<Rightarrow>
     time \<Rightarrow> time \<Rightarrow> string \<Rightarrow> string \<Rightarrow> int \<Rightarrow> OrderItemRequest list \<Rightarrow> (('k, 'q) app, go_error, OrderResponse) prog"
where
  "place_order Release Process t1 t2 uuid key userID its =
     bindE (releasing Release key (on_db (GetProductsByIDs (map Req_ProductID its)))) (\<lambda>ps.
     bindE (releasing Release key (\<lambda>w. (build_items (priceByID ps) its [] 0, w))) (\<lambda>(items, total_price).
     bindE (releasing Release key
       (on_db (repo_CreateOrder t1 t2 (build_order userID items total_price) (build_payment uuid total_price)))) (\<lambda>(ord, pay).
     bindE (on_proc (Process (Order_ID ord))) (\<lambda>_.
     ret (toOrderResponse ord)))))"

definition svc_CreateOrder ::
  "(string \<Rightarrow> duration \<Rightarrow> 'k \<Rightarrow> (store_error + bool) \<times> 'k) \<Rightarrow>
     (string \<Rightarrow> 'k \<Rightarrow> (store_error + unit) \<times> 'k) \<Rightarrow> (int \<Rightarrow> 'q \<Rightarrow> (go_error + unit) \<times> 'q) \<Rightarrow>
     time \<Rightarrow> time \<Rightarrow> string \<Rightarrow> int \<Rightarrow> CreateOrderRequest \<Rightarrow> (('k, 'q) app, go_error, OrderResponse) prog"
where
  "svc_CreateOrder Reserve Release Process t1 t2 uuid userID req w =
     (let its = Req_Items req; key = idempotencyKey userID its
      in if duplicate_line [] its then (Inl ErrDuplicateLineItem, w)
         else case Reserve key idempotencyTTL (app_idem w) of
             (Inr False, k) \<Rightarrow> (Inl ErrDuplicateOrder, w\<lparr>app_idem := k\<rparr>)
           | (_, k) \<Rightarrow> place_order Release Process t1 t2 uuid key userID its (w\<lparr>app_idem := k\<rparr>))"

text \<open>\<open>noopOrderProcessor\<close> of \<open>internal/services/processor.go\<close>.\<close>

definition noop_Process :: "int \<Rightarrow> 'q \<Rightarrow> (go_error + unit) \<times> 'q" where
  "noop_Process orderID = ret ()"

section \<open>Keys\<close>

lemma duplicate_line_iff:
  "duplicate_line seen its \<longleftrightarrow> \<not> distinct (map Req_ProductID its) \<or> set seen \<inter> set (map Req_ProductID its) \<noteq> {}"
  by (induction its arbitrary: seen) auto

definition line_text :: "OrderItemRequest \<Rightarrow> string" where
  "line_text i = ''|'' @ Itoa (Req_ProductID i) @ '':'' @ Itoa (Req_Quantity i)"

lemma lines_text_inject:
  assumes "Itoa a @ concat (map line_text its) = Itoa b @ concat (map line_text js)"
  shows "a = b \<and> its = js"
  using assms
proof (induction its arbitrary: a b js)
  case Nil
  show ?case
  proof (cases js)
    case Nil
    then show ?thesis using \<open>Itoa a @ concat (map line_text []) = Itoa b @ concat (map line_text js)\<close> by simp
  next
    case (Cons j js')
    then have "CHR ''|'' \<in> set (Itoa a)"
      using \<open>Itoa a @ concat (map line_text []) = Itoa b @ concat (map line_text js)\<close>
      by (simp add: line_text_def)
    then show ?thesis using Itoa_chars [of "CHR ''|''" a] by (simp add: is_digit_def)
  qed
next
  case (Cons i its)
  show ?case
  proof (cases js)
    case Nil
    with Cons.prems have "Itoa b = Itoa a @ line_text i @ concat (map line_text its)" by simp
    then have "CHR ''|'' \<in> set (Itoa b)" by (simp only: line_text_def set_append) simp
    then show ?thesis using Itoa_chars [of "CHR ''|''" b] by (simp add: is_digit_def)
  next
    case js: (Cons j js')
    have "Itoa a @ CHR ''|'' # (Itoa (Req_ProductID i) @ CHR '':'' # (Itoa (Req_Quantity i) @ concat (map line_text its)))
        = Itoa b @ CHR ''|'' # (Itoa (Req_ProductID j) @ CHR '':'' # (Itoa (Req_Quantity j) @ concat (map line_text js')))"
      using Cons.prems by (simp add: js line_text_def [of i] line_text_def [of j])
    from Itoa_append_sep [OF this] have ab: "a = b" and
      rest: "Itoa (Req_ProductID i) @ CHR '':'' # (Itoa (Req_Quantity i) @ concat (map line_text its))
        = Itoa (Req_ProductID j) @ CHR '':'' # (Itoa (Req_Quantity j) @ concat (map line_text js'))"
      by (simp_all add: is_digit_def)
    from Itoa_append_sep [OF rest] have p: "Req_ProductID i = Req_ProductID j"
      and q: "Itoa (Req_Quantity i) @ concat (map line_text its) = Itoa (Req_Quantity j) @ concat (map line_text js')"
      by (simp_all add: is_digit_def)
    from Cons.IH [OF q] show ?thesis using ab p js by simp
  qed
qed

lemma cart_text_eq: "cart_text u its = ''u:'' @ Itoa u @ concat (map line_text (sort_key Req_ProductID its))"
  by (simp add: cart_text_def line_text_def [abs_def])

lemma cart_text_inject: "cart_text u its = cart_text v js \<Longrightarrow> u = v \<and> mset its = mset js"
  using lines_text_inject [of u "sort_key Req_ProductID its" v "sort_key Req_ProductID js"]
  by (metis (no_types, lifting) append_Cons append_Nil cart_text_eq list.inject mset_sort)

lemma cart_text_perm:
  "distinct (map Req_ProductID its) \<Longrightarrow> mset its = mset js \<Longrightarrow> cart_text u its = cart_text u js"
  by (simp add: cart_text_def sort_key_perm)

section \<open>Building the lines\<close>

definition line_item :: "(int \<Rightarrow> float64 option) \<Rightarrow> OrderItemRequest \<Rightarrow> OrderItem" where
  "line_item price i = \<lparr>Item_ID = 0, Item_OrderID = 0, Item_ProductID = Req_ProductID i,
     Item_Quantity = Req_Quantity i, Item_PriceAtPurchase = the (price (Req_ProductID i))\<rparr>"

definition add_line :: "(int \<Rightarrow> float64 option) \<Rightarrow> float64 \<Rightarrow> OrderItemRequest \<Rightarrow> float64" where
  "add_line price t i = f_add t (f_mul (the (price (Req_ProductID i))) (f_of_int (Req_Quantity i)))"

lemma build_items_result:
  "build_items price its items t =
     (case find (\<lambda>i. price (Req_ProductID i) = None) its of
        Some i \<Rightarrow> Inl (ProductNotFoundError (Req_ProductID i))
      | None \<Rightarrow> Inr (items @ map (line_item price) its, foldl (add_line price) t its))"
proof (induction its arbitrary: items t)
  case (Cons i its)
  then show ?case
    by (cases "price (Req_ProductID i)") (simp_all add: line_item_def [of price i] add_line_def [of price t i] split: option.splits)
qed simp

lemma priceByID_lookup:
  assumes "distinct (map Product_ID ps)"
  shows "priceByID ps i = map_option Product_Price (find (\<lambda>p. Product_ID p = i) ps)"
proof -
  have "fold (\<lambda>p m. m(Product_ID p \<mapsto> Product_Price p)) ps m i =
      (case find (\<lambda>p. Product_ID p = i) ps of None \<Rightarrow> m i | Some p \<Rightarrow> Some (Product_Price p))" for m
    using assms
  proof (induction ps arbitrary: m)
    case (Cons p ps)
    have "find (\<lambda>q. Product_ID q = Product_ID p) ps = None"
      using Cons.prems by (auto simp: find_None_iff rev_image_eqI)
    with Cons show ?case by (auto split: option.splits)
  qed simp
  from this [of Map.empty] show ?thesis by (auto simp: priceByID_def split: option.splits)
qed

lemma new_order_build: "new_order (build_order u items t) (build_payment uuid t)"
  by (simp add: new_order_def build_order_def build_payment_def)

section \<open>What every outcome keeps\<close>

text \<open>
  Inversion of the service: every way a call can end, with the state it ends in. \<open>w1\<close> is the state
  right after \<open>Reserve\<close>; reads leave the tables alone.
\<close>

lemma on_db_same: "app_db (w\<lparr>app_db := d\<rparr>) = d"
  by simp

lemma GetProductsByIDs_same: "GetProductsByIDs ids d = (r, d') \<Longrightarrow> same d d'"
  by (simp add: GetProductsByIDs_def query_same)

lemma place_order_cases:
  assumes "place_order Release Process t1 t2 uuid key u its w = (r, w')"
  obtains
    (not_stored) e d where "r = Inl e" "same (app_db w) d"
      "w' = w\<lparr>app_db := d, app_idem := snd (Release key (app_idem w))\<rparr>"
  | (not_created) items t e d d' where "same (app_db w) d" "r = Inl e"
      "repo_CreateOrder t1 t2 (build_order u items t) (build_payment uuid t) d = (Inl e, d')"
      "w' = w\<lparr>app_db := d', app_idem := snd (Release key (app_idem w))\<rparr>"
  | (created) ps items t d ord pay d' a where "same (app_db w) d"
      "GetProductsByIDs (map Req_ProductID its) (app_db w) = (Inr ps, d)"
      "build_items (priceByID ps) its [] 0 = Inr (items, t)"
      "repo_CreateOrder t1 t2 (build_order u items t) (build_payment uuid t) d = (Inr (ord, pay), d')"
      "Process (Order_ID ord) (app_proc w) = a"
      "w' = w\<lparr>app_db := d', app_proc := snd a\<rparr>"
      "r = (case fst a of Inl e \<Rightarrow> Inl e | Inr _ \<Rightarrow> Inr (toOrderResponse ord))"
proof -
  obtain q d where g: "GetProductsByIDs (map Req_ProductID its) (app_db w) = (q, d)"
    by (cases "GetProductsByIDs (map Req_ProductID its) (app_db w)")
  then have s: "same (app_db w) d" by (rule GetProductsByIDs_same)
  show ?thesis
  proof (cases q)
    case (Inl e)
    with g assms s not_stored [of e d] show ?thesis
      by (simp add: place_order_def bindE_def releasing_def on_db_def)
  next
    case (Inr ps)
    show ?thesis
    proof (cases "build_items (priceByID ps) its [] 0")
      case (Inl e)
      with g Inr assms s not_stored [of e d] show ?thesis
        by (simp add: place_order_def bindE_def releasing_def on_db_def)
    next
      case b: (Inr it)
      obtain items t where it: "it = (items, t)" by (cases it)
      obtain c d' where c: "repo_CreateOrder t1 t2 (build_order u items t) (build_payment uuid t) d = (c, d')"
        by (cases "repo_CreateOrder t1 t2 (build_order u items t) (build_payment uuid t) d")
      show ?thesis
      proof (cases c)
        case (Inl e)
        with g Inr b it c assms s not_created [of d e items t d'] show ?thesis
          by (simp add: place_order_def bindE_def releasing_def on_db_def)
      next
        case x: (Inr x)
        obtain ord pay where x': "x = (ord, pay)" by (cases x)
        obtain p q' where p: "Process (Order_ID ord) (app_proc w) = (p, q')" by (cases "Process (Order_ID ord) (app_proc w)")
        show ?thesis
          using g Inr b it c x x' p assms s created [of d ps items t ord pay d' "(p, q')"]
          by (cases p) (simp_all add: place_order_def bindE_def releasing_def on_db_def on_proc_def ret_def)
      qed
    qed
  qed
qed

lemma svc_CreateOrder_cases:
  assumes "svc_CreateOrder Reserve Release Process t1 t2 uuid u req w = (r, w')"
  obtains
    (duplicate_line) "\<not> distinct (map Req_ProductID (Req_Items req))" "r = Inl ErrDuplicateLineItem" "w' = w"
  | (duplicate_order) k where "distinct (map Req_ProductID (Req_Items req))"
      "Reserve (idempotencyKey u (Req_Items req)) idempotencyTTL (app_idem w) = (Inr False, k)"
      "r = Inl ErrDuplicateOrder" "w' = w\<lparr>app_idem := k\<rparr>"
  | (placed) q k where "distinct (map Req_ProductID (Req_Items req))"
      "Reserve (idempotencyKey u (Req_Items req)) idempotencyTTL (app_idem w) = (q, k)" "q \<noteq> Inr False"
      "place_order Release Process t1 t2 uuid (idempotencyKey u (Req_Items req)) u (Req_Items req) (w\<lparr>app_idem := k\<rparr>) = (r, w')"
proof -
  obtain q k where q: "Reserve (idempotencyKey u (Req_Items req)) idempotencyTTL (app_idem w) = (q, k)"
    by (cases "Reserve (idempotencyKey u (Req_Items req)) idempotencyTTL (app_idem w)")
  show ?thesis
  proof (cases "distinct (map Req_ProductID (Req_Items req))")
    case False
    with assms duplicate_line show ?thesis by (simp add: svc_CreateOrder_def Let_def duplicate_line_iff)
  next
    case True
    show ?thesis
    proof (cases "q = Inr False")
      case dup: True
      with True q assms duplicate_order show ?thesis
        by (simp add: svc_CreateOrder_def Let_def duplicate_line_iff)
    next
      case False
      with True q assms have "place_order Release Process t1 t2 uuid (idempotencyKey u (Req_Items req)) u
          (Req_Items req) (w\<lparr>app_idem := k\<rparr>) = (r, w')"
        by (simp add: svc_CreateOrder_def Let_def duplicate_line_iff split: sum.splits bool.splits)
      with True q False placed show ?thesis by blast
    qed
  qed
qed

lemma idempotencyTTL_pos: "0 < idempotencyTTL"
  by (simp add: idempotencyTTL_def)

section \<open>Clients of the store\<close>

context key_store
begin

text \<open>A cart whose key is claimed is refused, unless the store fails to answer.\<close>

lemma duplicate_refused:
  assumes res: "svc_CreateOrder Reserve Release Process t1 t2 uuid u req w = (r, w')"
    and lines: "distinct (map Req_ProductID (Req_Items req))"
    and held: "held (app_idem w) (idempotencyKey u (Req_Items req))"
    and answers: "\<not> isl (fst (Reserve (idempotencyKey u (Req_Items req)) idempotencyTTL (app_idem w)))"
  shows "r = Inl ErrDuplicateOrder \<and> app_db w' = app_db w \<and> app_proc w' = app_proc w \<and>
    held (app_idem w') = held (app_idem w)"
  using res
proof (cases rule: svc_CreateOrder_cases)
  case duplicate_line
  then show ?thesis using lines by simp
next
  case (duplicate_order k)
  then show ?thesis using reserve_again [OF idempotencyTTL_pos] by simp
next
  case (placed q k)
  then show ?thesis using reserve_held [OF idempotencyTTL_pos held] answers by auto
qed

text \<open>An order that was placed keeps its key claimed.\<close>

lemma key_kept:
  assumes res: "svc_CreateOrder Reserve Release Process t1 t2 uuid u req w = (Inr resp, w')"
    and answers: "\<not> isl (fst (Reserve (idempotencyKey u (Req_Items req)) idempotencyTTL (app_idem w)))"
  shows "\<exists>k. Reserve (idempotencyKey u (Req_Items req)) idempotencyTTL (app_idem w) = (Inr True, k) \<and>
    app_idem w' = k \<and> held (app_idem w') = (held (app_idem w))(idempotencyKey u (Req_Items req) := True) \<and>
    \<not> held (app_idem w) (idempotencyKey u (Req_Items req))"
  using res
proof (cases rule: svc_CreateOrder_cases)
  case (placed q k)
  then have q: "q = Inr True" using answers by (cases q) auto
  have "app_idem w' = k"
    using placed(4) by (cases rule: place_order_cases) (auto split: sum.splits)
  then show ?thesis using placed q reserve_first [OF idempotencyTTL_pos, of _ "app_idem w" k] by auto
qed simp_all

text \<open>An attempt that was not stored gives its key back, if the store answers.\<close>

lemma key_released:
  assumes res: "svc_CreateOrder Reserve Release Process t1 t2 uuid u req w = (Inl e, w')"
    and reserve: "\<not> isl (fst (Reserve (idempotencyKey u (Req_Items req)) idempotencyTTL (app_idem w)))"
    and release: "\<not> isl (fst (Release (idempotencyKey u (Req_Items req))
      (snd (Reserve (idempotencyKey u (Req_Items req)) idempotencyTTL (app_idem w)))))"
    and process: "\<And>i. \<not> isl (fst (Process i (app_proc w)))"
  shows "held (app_idem w') = held (app_idem w)"
  using res
proof (cases rule: svc_CreateOrder_cases)
  case (duplicate_order k)
  then show ?thesis using reserve_again [OF idempotencyTTL_pos] by simp
next
  case (placed q k)
  let ?key = "idempotencyKey u (Req_Items req)"
  have "q = Inr True" using placed(2,3) reserve by (cases q) auto
  then have h: "\<not> held (app_idem w) ?key" "held k = (held (app_idem w))(?key := True)"
    using reserve_first [OF idempotencyTTL_pos] placed(2) by auto
  have rel: "held (snd (Release ?key k)) = (held k)(?key := False)"
    using release placed(2) release_ok [of ?key k] by (cases "Release ?key k"; cases "fst (Release ?key k)") auto
  from placed(4) show ?thesis
  proof (cases rule: place_order_cases)
    case (created ps items t d ord pay d' a)
    then show ?thesis using process [of "Order_ID ord"] by (auto split: sum.splits)
  qed (use h rel in \<open>auto simp: fun_eq_iff\<close>)
qed simp_all

end

section \<open>Properties\<close>

lemma CreateOrder_row:
  assumes "wf_db d" and "repo_CreateOrder t1 t2 ord pay d = (Inr (ord', pay'), d')"
  shows "Order_UserID ord' = Order_UserID ord" and "\<exists>row \<in> set (orders (tbl d')). Order_ID row = Order_ID ord' \<and>
    Order_UserID row = Order_UserID ord \<and> Order_Status row = Order_Status ord"
    and "Order_ID ord' \<notin> set (map Order_ID (orders (tbl d)))"
proof -
  from assms(2) obtain d1 d2 where s: "same d d1" "same d2 d'"
    and b: "create_order_body t1 t2 ord pay d1 = (Inr (ord', pay'), d2)"
    unfolding repo_CreateOrder_def by (rule transaction_Inr)
  have "wf_db d1" using assms(1) s by simp
  then obtain row rows prow where t: "tbl d2 = (tbl d1)\<lparr>inventory := inventory (tbl d2), orders := orders (tbl d1) @ [row],
       order_items := order_items (tbl d1) @ rows, payments := payments (tbl d1) @ [prow]\<rparr>"
    and r: "Order_ID row = seq d1 T_orders" "Order_UserID row = Order_UserID ord" "Order_Status row = Order_Status ord"
      "Order_ID ord' = Order_ID row"
    and o: "ord' = ord\<lparr>Order_ID := Order_ID ord', Order_Items := Order_Items ord',
       Order_CreatedAt := Order_CreatedAt ord', Order_UpdatedAt := Order_UpdatedAt ord'\<rparr>"
    by (rule create_order_body_Inr [OF _ b]) blast
  have "orders (tbl d2) = orders (tbl d1) @ [row]" by (subst t) simp
  then show "\<exists>row \<in> set (orders (tbl d')). Order_ID row = Order_ID ord' \<and>
      Order_UserID row = Order_UserID ord \<and> Order_Status row = Order_Status ord"
    using r s by simp
  show "Order_UserID ord' = Order_UserID ord" by (subst o) simp
  have "ids_ok Order_ID (seq d T_orders) (orders (tbl d))" using assms(1) by (simp add: wf_db_def wf_tables_def wf_orders_def)
  then show "Order_ID ord' \<notin> set (map Order_ID (orders (tbl d)))"
    using r(1,4) s(1) ids_ok_fresh by fastforce
qed

text \<open>The response shows the order as it was built, under the identity that the database gave it.\<close>

lemma CreateOrder_response:
  assumes "wf_db d" and "repo_CreateOrder t1 t2 ord pay d = (Inr (ord', pay'), d')"
  shows "Order_ID ord' = seq d T_orders" and "Order_Status ord' = Order_Status ord"
    and "Order_TotalPrice ord' = Order_TotalPrice ord"
    and "OrderResp_Items (toOrderResponse ord') = OrderResp_Items (toOrderResponse ord)"
proof -
  from assms(2) obtain d1 d2 where s: "same d d1" "same d2 d'"
    and b: "create_order_body t1 t2 ord pay d1 = (Inr (ord', pay'), d2)"
    unfolding repo_CreateOrder_def by (rule transaction_Inr)
  have "wf_db d1" using assms(1) s by simp
  then obtain row :: Order where r: "Order_ID row = seq d1 T_orders" "Order_ID ord' = Order_ID row"
    and its: "map (\<lambda>i. i\<lparr>Item_ID := 0\<rparr>) (Order_Items ord') =
       map (\<lambda>i. i\<lparr>Item_OrderID := Order_ID row, Item_ID := 0\<rparr>) (Order_Items ord)"
    and o: "ord' = ord\<lparr>Order_ID := Order_ID ord', Order_Items := Order_Items ord',
       Order_CreatedAt := Order_CreatedAt ord', Order_UpdatedAt := Order_UpdatedAt ord'\<rparr>"
    by (rule create_order_body_Inr [OF _ b]) (rule that, assumption+)
  show "Order_ID ord' = seq d T_orders" using r s by simp
  show "Order_Status ord' = Order_Status ord" "Order_TotalPrice ord' = Order_TotalPrice ord" by (subst o, simp)+
  let ?f = "\<lambda>i. \<lparr>ItemResp_ProductID = Item_ProductID i, ItemResp_Quantity = Item_Quantity i,
    ItemResp_PriceAtPurchase = Item_PriceAtPurchase i\<rparr>"
  from its have "map ?f (map (\<lambda>i. i\<lparr>Item_ID := 0\<rparr>) (Order_Items ord'))
      = map ?f (map (\<lambda>i. i\<lparr>Item_OrderID := Order_ID row, Item_ID := 0\<rparr>) (Order_Items ord))"
    by simp
  then show "OrderResp_Items (toOrderResponse ord') = OrderResp_Items (toOrderResponse ord)"
    by (simp add: toOrderResponse_def o_def)
qed

text \<open>
  C7. \<open>CreateOrder\<close> of the service, whatever the idempotency store, the processor and the connection
  do: the invariant of the database and the number of units of every product are kept and no existing
  order or payment goes back. When it answers, the order is new, belongs to the caller, is pending, and
  its identity was handed to the processor exactly once. When it fails, either nothing was handed over,
  or the failure is a panic of the processor itself, and then the order it was handed is stored, new, the
  caller's and pending.
\<close>

theorem CreateOrder_safe:
  assumes wf: "wf_db (app_db w)"
    and res: "svc_CreateOrder Reserve Release Process t1 t2 uuid u req w = (r, w')"
  shows "wf_db (app_db w') \<and> later (tbl (app_db w)) (tbl (app_db w')) \<and>
    (\<forall>p. units (tbl (app_db w')) p = units (tbl (app_db w)) p) \<and>
    (case r of
       Inr resp \<Rightarrow> OrderResp_UserID resp = u \<and>
         OrderResp_ID resp \<notin> set (map Order_ID (orders (tbl (app_db w)))) \<and>
         (\<exists>row \<in> set (orders (tbl (app_db w'))). Order_ID row = OrderResp_ID resp \<and>
            Order_UserID row = u \<and> Order_Status row = OrderStatusPending) \<and>
         Process (OrderResp_ID resp) (app_proc w) = (Inr (), app_proc w')
     | Inl e \<Rightarrow> app_proc w' = app_proc w \<or>
         (\<exists>row \<in> set (orders (tbl (app_db w'))). Order_ID row \<notin> set (map Order_ID (orders (tbl (app_db w)))) \<and>
            Order_UserID row = u \<and> Order_Status row = OrderStatusPending \<and>
            Process (Order_ID row) (app_proc w) = (Inl e, app_proc w')))"
  using res
proof (cases rule: svc_CreateOrder_cases)
  case (placed q k)
  note keeps = CreateOrder_wf [OF _ new_order_build] CreateOrder_units [OF _ new_order_build] CreateOrder_later
  from placed(4) show ?thesis
  proof (cases rule: place_order_cases)
    case (not_stored e d)
    then show ?thesis using wf by simp
  next
    case (not_created items t e d d')
    then have "wf_db d" using wf by simp
    with not_created keeps [OF this not_created(3)] show ?thesis by simp
  next
    case (created ps items t d ord pay d' a)
    then have d: "wf_db d" using wf by simp
    note row = CreateOrder_row [OF d created(4)]
    obtain x p where a: "a = (x, p)" by (cases a)
    show ?thesis
    proof (cases x)
      case (Inr y)
      with a created(5-7) have "r = Inr (toOrderResponse ord)" "Process (Order_ID ord) (app_proc w) = (Inr (), app_proc w')"
        by simp_all
      with created(1,6) keeps [OF d created(4)] row show ?thesis
        by (simp add: toOrderResponse_def build_order_def)
    next
      case (Inl e)
      with a created(5-7) have r: "r = Inl e" "Process (Order_ID ord) (app_proc w) = (Inl e, app_proc w')"
        by simp_all
      from row(2) obtain o1 where "o1 \<in> set (orders (tbl d'))" "Order_ID o1 = Order_ID ord" "Order_UserID o1 = u"
        "Order_Status o1 = OrderStatusPending"
        by (auto simp: build_order_def)
      then have "\<exists>row \<in> set (orders (tbl d')). Order_ID row \<notin> set (map Order_ID (orders (tbl d))) \<and>
          Order_UserID row = u \<and> Order_Status row = OrderStatusPending \<and>
          Process (Order_ID row) (app_proc w) = (Inl e, app_proc w')"
        using r(2) row(3) by (intro bexI [of _ o1]) simp_all
      with r(1) created(1,6) keeps [OF d created(4)] show ?thesis by simp
    qed
  qed
qed (use wf in simp_all)

text \<open>Small instances of the service, on the keyspace of \<open>Idempotency\<close>: with a processor that only lists what it
  is handed, and with the worker pool.\<close>

definition list_Process :: "int \<Rightarrow> int list \<Rightarrow> (go_error + unit) \<times> int list" where
  "list_Process i q = (Inr (), q @ [i])"

definition sample_app :: "(redis, int list) app" where
  "sample_app = \<lparr>app_db = sample_db, app_idem = \<lparr>r_clock = 1000, r_keys = Map.empty, r_link = []\<rparr>, app_proc = []\<rparr>"

definition sample_pool_app :: "(redis, Pool) app" where
  "sample_pool_app = \<lparr>app_db = sample_db, app_idem = app_idem sample_app, app_proc = stopped_pool\<rparr>"

definition sample_cart :: CreateOrderRequest where
  "sample_cart = \<lparr>Req_Items = [\<lparr>Req_ProductID = 2, Req_Quantity = 1\<rparr>, \<lparr>Req_ProductID = 1, Req_Quantity = 2\<rparr>]\<rparr>"

lemma list_Process_total: "\<not> isl (fst (list_Process i q))"
  by (simp add: list_Process_def)

theorem CreateOrder_safe_witness:
  "wf_db (app_db sample_pool_app) \<and>
   (\<exists>r w'. svc_CreateOrder store_Reserve store_Release (pool_Process True 0) 60 61 ''u-1'' 1 sample_cart sample_pool_app = (r, w') \<and>
      wf_db (app_db w') \<and> units (tbl (app_db w')) 1 = 5)"
proof -
  let ?c = "svc_CreateOrder store_Reserve store_Release (pool_Process True 0) 60 61 ''u-1'' 1 sample_cart sample_pool_app"
  have wf: "wf_db (app_db sample_pool_app)" by (simp add: sample_pool_app_def)
  have "units (tbl (app_db sample_pool_app)) 1 = 5" by code_simp
  moreover obtain r w' where c: "?c = (r, w')" by (cases ?c)
  ultimately show ?thesis using CreateOrder_safe [OF wf c] wf by auto
qed

end
