(* ===== verification/OrderDedup.thy ===== *)
theory OrderDedup
  imports OrderService
begin

text \<open>
  Deduplication of orders by \<open>internal/services/order.go\<close> on Redis: what the key of a cart
  identifies, and the window in which a repeated submission is refused.
\<close>

section \<open>The key identifies the cart\<close>

lemma big_endian_range: "b \<in> set (big_endian n x) \<Longrightarrow> 0 \<le> b \<and> b < 256"
  by (auto simp: big_endian_def)

lemma digest_range: "b \<in> set (digest_bytes s) \<Longrightarrow> 0 \<le> b \<and> b < 256"
  by (auto simp: digest_bytes_def word_bytes_def dest: big_endian_range)

lemma hex_digit_inject:
  assumes "0 \<le> a" "a < 16" "0 \<le> b" "b < 16" "hex_digit a = hex_digit b"
  shows "a = b"
proof -
  have "distinct ''0123456789abcdef''" "length ''0123456789abcdef'' = 16" by simp_all
  then have "nat a = nat b"
    using assms nth_eq_iff_index_eq [of "''0123456789abcdef''" "nat a" "nat b"] by (simp add: hex_digit_def)
  then show ?thesis using assms by simp
qed

lemma EncodeToString_simps [simp]:
  "EncodeToString [] = []"
  "EncodeToString (b # bs) = hex_digit (b div 16) # hex_digit (b mod 16) # EncodeToString bs"
  by (simp_all add: EncodeToString_def)

lemma EncodeToString_inject:
  assumes "\<forall>b \<in> set xs. 0 \<le> b \<and> b < 256" and "\<forall>b \<in> set ys. 0 \<le> b \<and> b < 256"
    and "EncodeToString xs = EncodeToString ys"
  shows "xs = ys"
  using assms
proof (induction xs arbitrary: ys)
  case Nil
  then show ?case by (cases ys) simp_all
next
  case (Cons x xs)
  from Cons.prems(3) obtain y ys' where ys: "ys = y # ys'" by (cases ys) simp_all
  with Cons.prems have h: "hex_digit (x div 16) = hex_digit (y div 16)" "hex_digit (x mod 16) = hex_digit (y mod 16)"
    and t: "EncodeToString xs = EncodeToString ys'"
    by simp_all
  have "x div 16 = y div 16" using Cons.prems ys by (intro hex_digit_inject [OF _ _ _ _ h(1)]) auto
  moreover have "x mod 16 = y mod 16" by (intro hex_digit_inject [OF _ _ _ _ h(2)]) auto
  ultimately have "x = y" by (metis div_mult_mod_eq)
  moreover have "xs = ys'" using Cons.prems ys t by (intro Cons.IH) auto
  ultimately show ?case using ys by simp
qed

text \<open>
  C11. The idempotency key is a function of the user and of the cart as a set of lines: it does not
  depend on the order of the lines. Conversely two submissions with the same key are of the same user
  and the same cart, or exhibit a collision of SHA-256.
\<close>

theorem idempotencyKey_identifies:
  assumes "distinct (map Req_ProductID its)"
  shows "(u = v \<and> mset its = mset js \<longrightarrow> idempotencyKey u its = idempotencyKey v js) \<and>
    (idempotencyKey u its = idempotencyKey v js \<longrightarrow>
       u = v \<and> mset its = mset js \<or>
       cart_text u its \<noteq> cart_text v js \<and> sha256 (cart_text u its) = sha256 (cart_text v js))"
proof -
  have "sha256 (cart_text u its) = sha256 (cart_text v js)" if "idempotencyKey u its = idempotencyKey v js"
    using that unfolding idempotencyKey_def sha256_def
    by (intro EncodeToString_inject) (auto dest: digest_range)
  then show ?thesis
    using cart_text_perm [OF assms, of js u] cart_text_inject [of u its v js]
    by (auto simp: idempotencyKey_def)
qed

theorem idempotencyKey_identifies_witness:
  "distinct (map Req_ProductID (Req_Items sample_cart)) \<and>
   idempotencyKey 1 (Req_Items sample_cart) = idempotencyKey 1 (rev (Req_Items sample_cart))"
proof -
  have "distinct (map Req_ProductID (Req_Items sample_cart))" by (simp add: sample_cart_def)
  then show ?thesis
    using idempotencyKey_identifies [of "Req_Items sample_cart" 1 1 "rev (Req_Items sample_cart)"] by simp
qed

section \<open>Placing a cart\<close>

text \<open>The prices that the service reads, and the order and the payment that it builds of a cart.\<close>

definition quoted :: "tables \<Rightarrow> OrderItemRequest list \<Rightarrow> int \<Rightarrow> float64 option" where
  "quoted t its =
     priceByID (map scan_product (filter (\<lambda>p. Product_ID p \<in> set (map Req_ProductID its)) (products t)))"

definition cart_total :: "tables \<Rightarrow> OrderItemRequest list \<Rightarrow> float64" where
  "cart_total t its = foldl (add_line (quoted t its)) 0 its"

definition cart_order :: "tables \<Rightarrow> int \<Rightarrow> OrderItemRequest list \<Rightarrow> Order" where
  "cart_order t u its = build_order u (map (line_item (quoted t its)) its) (cart_total t its)"

lemma quoted_price:
  assumes "distinct (map Product_ID (products t))" and "i \<in> set (map Req_ProductID its)"
  shows "quoted t its i = map_option (\<lambda>p. fl (Product_Price p)) (find (\<lambda>p. Product_ID p = i) (products t))"
proof -
  let ?ps = "filter (\<lambda>p. Product_ID p \<in> set (map Req_ProductID its)) (products t)"
  have "map Product_ID (map scan_product ?ps) = map Product_ID ?ps" by (simp add: scan_product_def)
  then have "distinct (map Product_ID (map scan_product ?ps))" using assms(1) distinct_map_filter by metis
  moreover have "find (\<lambda>p. Product_ID p = i) (map scan_product (filter (\<lambda>p. Product_ID p \<in> set (map Req_ProductID its)) ps))
      = map_option scan_product (find (\<lambda>p. Product_ID p = i) ps)" for ps
    using assms(2) by (induction ps) (auto simp: scan_product_def)
  ultimately show ?thesis
    unfolding quoted_def by (simp add: priceByID_lookup option.map_comp o_def scan_product_def)
qed

lemma place_cart:
  assumes db: "replies (app_db w) = []"
    and key: "Reserve (idempotencyKey u (Req_Items req)) idempotencyTTL (app_idem w) = (Inr True, k)"
    and lines: "distinct (map Req_ProductID (Req_Items req))" "list_all (\<lambda>i. int4 (Req_ProductID i)) (Req_Items req)"
  obtains ps where "svc_CreateOrder Reserve Release Process t1 t2 uuid u req w =
      place_order Release Process t1 t2 uuid (idempotencyKey u (Req_Items req)) u (Req_Items req) (w\<lparr>app_idem := k\<rparr>)"
    and "GetProductsByIDs (map Req_ProductID (Req_Items req)) (app_db w) = (Inr ps, app_db w)"
    and "build_items (priceByID ps) (Req_Items req) [] 0 =
     (case find (\<lambda>i. quoted (tbl (app_db w)) (Req_Items req) (Req_ProductID i) = None) (Req_Items req) of
        Some i \<Rightarrow> Inl (ProductNotFoundError (Req_ProductID i))
      | None \<Rightarrow> Inr (map (line_item (quoted (tbl (app_db w)) (Req_Items req))) (Req_Items req),
                   cart_total (tbl (app_db w)) (Req_Items req)))"
proof -
  let ?its = "Req_Items req" and ?d = "app_db w"
  let ?ps = "map scan_product (filter (\<lambda>p. Product_ID p \<in> set (map Req_ProductID ?its)) (products (tbl ?d)))"
  have "list_all int4 (map Req_ProductID ?its)" using lines(2) by (simp add: list_all_iff)
  then have "GetProductsByIDs (map Req_ProductID ?its) ?d = (Inr ?ps, ?d)"
    using db by (simp add: GetProductsByIDs_def query_ok)
  moreover have "svc_CreateOrder Reserve Release Process t1 t2 uuid u req w =
      place_order Release Process t1 t2 uuid (idempotencyKey u ?its) u ?its (w\<lparr>app_idem := k\<rparr>)"
    using lines(1) key by (simp add: svc_CreateOrder_def Let_def duplicate_line_iff)
  moreover have "build_items (priceByID ?ps) ?its [] 0 =
     (case find (\<lambda>i. quoted (tbl ?d) ?its (Req_ProductID i) = None) ?its of
        Some i \<Rightarrow> Inl (ProductNotFoundError (Req_ProductID i))
      | None \<Rightarrow> Inr (map (line_item (quoted (tbl ?d) ?its)) ?its, cart_total (tbl ?d) ?its))"
    unfolding quoted_def [symmetric] build_items_result cart_total_def append_Nil by (rule refl)
  ultimately show ?thesis using that by blast
qed

lemma place_cart_success:
  assumes db: "replies (app_db w) = []" "wf_db (app_db w)"
    and key: "Reserve (idempotencyKey u (Req_Items req)) idempotencyTTL (app_idem w) = (Inr True, k)"
    and process: "\<And>i. \<not> isl (fst (Process i (app_proc w)))"
    and lines: "distinct (map Req_ProductID (Req_Items req))" "list_all (\<lambda>i. int4 (Req_ProductID i)) (Req_Items req)"
    and rows: "rows_ok (app_db w) (cart_order (tbl (app_db w)) u (Req_Items req))
      (build_payment uuid (cart_total (tbl (app_db w)) (Req_Items req)))"
    and known: "find (\<lambda>i. quoted (tbl (app_db w)) (Req_Items req) (Req_ProductID i) = None) (Req_Items req) = None"
    and stock: "find (\<lambda>i. \<not> in_stock (app_db w) i) (Order_Items (cart_order (tbl (app_db w)) u (Req_Items req))) = None"
  shows "\<exists>ord w'. svc_CreateOrder Reserve Release Process t1 t2 uuid u req w = (Inr (toOrderResponse ord), w') \<and> app_idem w' = k \<and>
    Process (Order_ID ord) (app_proc w) = (Inr (), app_proc w') \<and>
    (\<exists>pay. repo_CreateOrder t1 t2 (cart_order (tbl (app_db w)) u (Req_Items req))
      (build_payment uuid (cart_total (tbl (app_db w)) (Req_Items req))) (app_db w) = (Inr (ord, pay), app_db w')) \<and>
    order_created (app_db w) (cart_order (tbl (app_db w)) u (Req_Items req))
      (build_payment uuid (cart_total (tbl (app_db w)) (Req_Items req))) (app_db w')"
proof -
  let ?d = "app_db w" and ?its = "Req_Items req"
  let ?ord = "cart_order (tbl ?d) u ?its" and ?pay = "build_payment uuid (cart_total (tbl ?d) ?its)"
  obtain ps where svc: "svc_CreateOrder Reserve Release Process t1 t2 uuid u req w =
      place_order Release Process t1 t2 uuid (idempotencyKey u ?its) u ?its (w\<lparr>app_idem := k\<rparr>)"
    and get: "GetProductsByIDs (map Req_ProductID ?its) ?d = (Inr ps, ?d)"
    and build: "build_items (priceByID ps) ?its [] 0 = Inr (map (line_item (quoted (tbl ?d) ?its)) ?its, cart_total (tbl ?d) ?its)"
    by (rule place_cart [where w = w and Reserve = Reserve and req = req and Release = Release and Process = Process
        and uuid = uuid and ?t1.0 = t1 and ?t2.0 = t2, OF db(1) key lines]) (simp add: known)
  obtain ord' pay' d' where repo: "repo_CreateOrder t1 t2 ?ord ?pay ?d = (Inr (ord', pay'), d')" "order_created ?d ?ord ?pay d'"
    using CreateOrder_outcome_stock [OF db rows, of t1 t2] stock by auto
  obtain x q where p: "Process (Order_ID ord') (app_proc w) = (x, q)" by (cases "Process (Order_ID ord') (app_proc w)")
  with process [of "Order_ID ord'"] obtain y where "x = Inr y" by (cases x) auto
  then show ?thesis
    using get build repo p unfolding svc
    by (simp add: place_order_def bindE_def releasing_def on_db_def on_proc_def ret_def cart_order_def)
qed

text \<open>
  What the order of a cart has to be, written from the rows of the database alone: a line costs the
  price of its product's row, read as a \<open>float64\<close>; the total adds up price times quantity in the order
  of the request, each operation rounded; the lines are in the order of their products.
\<close>

definition stored_price :: "tables \<Rightarrow> int \<Rightarrow> float64 option" where
  "stored_price t i = map_option (\<lambda>p. fl (Product_Price p)) (find (\<lambda>p. Product_ID p = i) (products t))"

definition priced_total :: "tables \<Rightarrow> OrderItemRequest list \<Rightarrow> float64" where
  "priced_total t its =
     foldl (\<lambda>s i. fl (s + fl (the (stored_price t (Req_ProductID i)) * fl (of_int (Req_Quantity i))))) 0 its"

definition priced_order :: "tables \<Rightarrow> int \<Rightarrow> OrderItemRequest list \<Rightarrow> Order" where
  "priced_order t u its =
     \<lparr>Order_ID = 0, Order_UserID = u, Order_Status = OrderStatusPending, Order_TotalPrice = priced_total t its,
      Order_Items = map (\<lambda>i. \<lparr>Item_ID = 0, Item_OrderID = 0, Item_ProductID = Req_ProductID i,
        Item_Quantity = Req_Quantity i, Item_PriceAtPurchase = the (stored_price t (Req_ProductID i))\<rparr>)
        (sort_key Req_ProductID its),
      Order_CreatedAt = 0, Order_UpdatedAt = 0\<rparr>"

definition priced_payment :: "tables \<Rightarrow> string \<Rightarrow> OrderItemRequest list \<Rightarrow> Payment" where
  "priced_payment t uuid its =
     \<lparr>Payment_ID = 0, Payment_OrderID = 0, Payment_IdempotencyKey = uuid, Payment_Status = PaymentStatusPending,
      Payment_Amount = priced_total t its, Payment_ProviderTxnID = None, Payment_CreatedAt = 0, Payment_UpdatedAt = 0\<rparr>"

lemma sort_key_map: "sort_key f (map g xs) = map g (sort_key (\<lambda>x. f (g x)) xs)"
proof -
  have "insort_key f (g x) (map g ys) = map g (insort_key (\<lambda>x. f (g x)) x ys)" for x ys
    by (induction ys) simp_all
  then show ?thesis by (induction xs) simp_all
qed

text \<open>The service builds exactly that.\<close>

lemma cart_is_priced:
  assumes "wf_db d" and "t = tbl d"
  shows "cart_total t its = priced_total t its" and "cart_order t u its = priced_order t u its"
    and "build_payment uuid (cart_total t its) = priced_payment t uuid its"
    and "find (\<lambda>i. quoted t its (Req_ProductID i) = None) its = find (\<lambda>i. stored_price t (Req_ProductID i) = None) its"
proof -
  have "distinct (map Product_ID (products t))" using assms by (simp add: wf_db_def wf_tables_def ids_ok_def)
  then have q: "quoted t its (Req_ProductID i) = stored_price t (Req_ProductID i)" if "i \<in> set its" for i
    using that quoted_price [of t "Req_ProductID i" its] by (simp add: stored_price_def)
  show total: "cart_total t its = priced_total t its"
    unfolding cart_total_def priced_total_def
    by (rule foldl_cong) (simp_all add: add_line_def f_add_def f_mul_def f_of_int_def q)
  have "map (line_item (quoted t its)) (sort_key Req_ProductID its) = Order_Items (priced_order t u its)"
    by (simp add: priced_order_def line_item_def q)
  then show "cart_order t u its = priced_order t u its"
    unfolding cart_order_def build_order_def by (simp add: sort_key_map total) (simp add: line_item_def priced_order_def)
  show "build_payment uuid (cart_total t its) = priced_payment t uuid its"
    by (simp add: build_payment_def priced_payment_def total)
  show "find (\<lambda>i. quoted t its (Req_ProductID i) = None) its = find (\<lambda>i. stored_price t (Req_ProductID i) = None) its"
    by (rule find_cong) (simp_all add: q)
qed

text \<open>
  C8. With the database and the store answering, the cart's key free and the processor in service,
  \<open>CreateOrder\<close> of a cart of distinct products succeeds when every product exists and is in stock. The
  database then gains the pending order whose lines carry the current prices of the products, its
  total and its pending payment of the same amount under a fresh key; the order is handed to the
  processor; the response lists the lines in the order of their products with those prices and the
  total; and the key stays claimed. A product that does not exist is answered
  \<open>ProductNotFoundError\<close>, one that is short \<open>InsufficientStockError\<close>, and then no table changes and
  nothing is handed over.
\<close>

theorem CreateOrder_places:
  assumes db: "replies (app_db w) = []" "wf_db (app_db w)"
    and key: "Reserve (idempotencyKey u (Req_Items req)) idempotencyTTL (app_idem w) = (Inr True, k)"
    and process: "\<And>i. \<not> isl (fst (Process i (app_proc w)))"
    and lines: "distinct (map Req_ProductID (Req_Items req))" "list_all (\<lambda>i. int4 (Req_ProductID i)) (Req_Items req)"
    and rows: "list_all (\<lambda>i. stored_price (tbl (app_db w)) (Req_ProductID i) \<noteq> None) (Req_Items req) \<Longrightarrow>
      rows_ok (app_db w) (priced_order (tbl (app_db w)) u (Req_Items req))
        (priced_payment (tbl (app_db w)) uuid (Req_Items req))"
  shows "\<exists>r w'. svc_CreateOrder Reserve Release Process t1 t2 uuid u req w = (r, w') \<and>
    (case find (\<lambda>i. stored_price (tbl (app_db w)) (Req_ProductID i) = None) (Req_Items req) of
       Some i \<Rightarrow> r = Inl (ProductNotFoundError (Req_ProductID i)) \<and> tbl (app_db w') = tbl (app_db w) \<and>
         app_proc w' = app_proc w
     | None \<Rightarrow>
        (case find (\<lambda>i. \<not> in_stock (app_db w) i) (Order_Items (priced_order (tbl (app_db w)) u (Req_Items req))) of
           Some i \<Rightarrow> r = Inl (InsufficientStockError (Item_ProductID i)) \<and> tbl (app_db w') = tbl (app_db w) \<and>
             app_proc w' = app_proc w
         | None \<Rightarrow> \<exists>resp. r = Inr resp \<and> app_idem w' = k \<and>
             Process (OrderResp_ID resp) (app_proc w) = (Inr (), app_proc w') \<and>
             order_created (app_db w) (priced_order (tbl (app_db w)) u (Req_Items req))
               (priced_payment (tbl (app_db w)) uuid (Req_Items req)) (app_db w') \<and>
             OrderResp_ID resp = seq (app_db w) T_orders \<and> OrderResp_UserID resp = u \<and>
             OrderResp_Status resp = OrderStatusPending \<and>
             OrderResp_TotalPrice resp = priced_total (tbl (app_db w)) (Req_Items req) \<and>
             OrderResp_Items resp = map (\<lambda>i. \<lparr>ItemResp_ProductID = Req_ProductID i, ItemResp_Quantity = Req_Quantity i,
               ItemResp_PriceAtPurchase = the (stored_price (tbl (app_db w)) (Req_ProductID i))\<rparr>)
               (sort_key Req_ProductID (Req_Items req))))"
proof -
  let ?d = "app_db w" and ?its = "Req_Items req"
  note priced = cart_is_priced(2-4) [OF db(2) refl, where its = ?its]
  let ?ord = "priced_order (tbl ?d) u ?its" and ?pay = "priced_payment (tbl ?d) uuid ?its"
  obtain ps where svc: "svc_CreateOrder Reserve Release Process t1 t2 uuid u req w =
      place_order Release Process t1 t2 uuid (idempotencyKey u ?its) u ?its (w\<lparr>app_idem := k\<rparr>)"
    and get: "GetProductsByIDs (map Req_ProductID ?its) ?d = (Inr ps, ?d)"
    and build: "build_items (priceByID ps) ?its [] 0 =
     (case find (\<lambda>i. stored_price (tbl ?d) (Req_ProductID i) = None) ?its of
        Some i \<Rightarrow> Inl (ProductNotFoundError (Req_ProductID i))
      | None \<Rightarrow> Inr (map (line_item (quoted (tbl ?d) ?its)) ?its, cart_total (tbl ?d) ?its))"
    by (rule place_cart [where w = w and Reserve = Reserve and req = req and Release = Release and Process = Process
        and uuid = uuid and ?t1.0 = t1 and ?t2.0 = t2, OF db(1) key lines, unfolded priced])
  show ?thesis
  proof (cases "find (\<lambda>i. stored_price (tbl ?d) (Req_ProductID i) = None) ?its")
    case (Some i)
    then show ?thesis
      using get build unfolding svc by (simp add: place_order_def bindE_def releasing_def on_db_def)
  next
    case None
    then have "list_all (\<lambda>i. stored_price (tbl ?d) (Req_ProductID i) \<noteq> None) ?its"
      by (auto simp: find_None_iff list_all_iff)
    note rows = rows [OF this]
    show ?thesis
    proof (cases "find (\<lambda>i. \<not> in_stock ?d i) (Order_Items ?ord)")
      case (Some i)
      obtain d' where "repo_CreateOrder t1 t2 ?ord ?pay ?d = (Inl (InsufficientStockError (Item_ProductID i)), d')"
        "tbl d' = tbl ?d"
        using CreateOrder_outcome_stock [OF db rows, of t1 t2] Some by auto
      then show ?thesis
        using get build None Some priced(1,2) unfolding svc
        by (simp add: place_order_def bindE_def releasing_def on_db_def cart_order_def)
    next
      case stock: None
      obtain ord w' pay where run: "svc_CreateOrder Reserve Release Process t1 t2 uuid u req w = (Inr (toOrderResponse ord), w')"
        "app_idem w' = k" "Process (Order_ID ord) (app_proc w) = (Inr (), app_proc w')"
        "repo_CreateOrder t1 t2 ?ord ?pay ?d = (Inr (ord, pay), app_db w')" "order_created ?d ?ord ?pay (app_db w')"
        using place_cart_success [where w = w and Reserve = Reserve and Process = Process and req = req and u = u
            and uuid = uuid and k = k and Release = Release and ?t1.0 = t1 and ?t2.0 = t2, unfolded priced,
            OF db key process lines rows None stock] by blast
      have "OrderResp_Items (toOrderResponse ?ord) = map (\<lambda>i. \<lparr>ItemResp_ProductID = Req_ProductID i,
          ItemResp_Quantity = Req_Quantity i, ItemResp_PriceAtPurchase = the (stored_price (tbl ?d) (Req_ProductID i))\<rparr>)
          (sort_key Req_ProductID ?its)"
        by (simp add: toOrderResponse_def priced_order_def)
      then show ?thesis
        using run None stock CreateOrder_response [OF db(2) run(4)] CreateOrder_row(1) [OF db(2) run(4)]
        by (simp add: toOrderResponse_def) (simp add: priced_order_def)
    qed
  qed
qed

text \<open>The sample service with the worker pool in service.\<close>

definition live_app :: "(redis, Pool) app" where
  "live_app = \<lparr>app_db = sample_db, app_idem = app_idem sample_app, app_proc = sample_pool\<rparr>"

lemma live_pool:
  "pool_Process True 0 i sample_pool = (Inr (), sample_pool\<lparr>Pool_jobs := (Pool_jobs sample_pool)\<lparr>chan_buf := [7, i]\<rparr>,
     Pool_accepted := [7, i]\<rparr>)"
proof -
  have "\<not> chan_closed (Pool_jobs sample_pool)" "\<not> chan_closed (Pool_quit sample_pool)" "chan_buf (Pool_jobs sample_pool) = [7]"
    "chan_cap (Pool_jobs sample_pool) = 2" "Pool_accepted sample_pool = [7]"
    by code_simp+
  then show ?thesis by (simp add: pool_Process_def send_ready_def pool_send_def try_send_def)
qed

lemma sample_cart_facts:
  "replies (app_db sample_app) = []" "wf_db (app_db sample_app)" "r_link (app_idem sample_app) = []"
  "distinct (map Req_ProductID (Req_Items sample_cart))"
  "list_all (\<lambda>i. int4 (Req_ProductID i)) (Req_Items sample_cart)"
  by (simp add: sample_app_def replies_sample, simp add: sample_app_def wf_sample, simp add: sample_app_def)
    (code_simp, code_simp)

lemma sample_prices:
  "stored_price (tbl sample_db) 1 = Some 5" "stored_price (tbl sample_db) 2 = Some (25 / 2)"
  "sort_key Req_ProductID (Req_Items sample_cart) = [\<lparr>Req_ProductID = 1, Req_Quantity = 2\<rparr>, \<lparr>Req_ProductID = 2, Req_Quantity = 1\<rparr>]"
  by code_simp+

lemma sample_rounding: "fl 1 = 1" "fl 2 = 2" "fl 10 = 10" "fl (25 / 2) = 25 / 2" "fl (45 / 2) = 45 / 2"
  by code_simp+

lemma sample_total: "priced_total (tbl sample_db) (Req_Items sample_cart) = 45 / 2"
  by (simp add: priced_total_def sample_cart_def sample_prices sample_rounding)

definition sample_lines :: "OrderItem list" where
  "sample_lines = [\<lparr>Item_ID = 0, Item_OrderID = 0, Item_ProductID = 1, Item_Quantity = 2, Item_PriceAtPurchase = 5\<rparr>,
     \<lparr>Item_ID = 0, Item_OrderID = 0, Item_ProductID = 2, Item_Quantity = 1, Item_PriceAtPurchase = 25 / 2\<rparr>]"

lemma sample_lines_priced: "Order_Items (priced_order (tbl sample_db) 1 (Req_Items sample_cart)) = sample_lines"
  by (simp add: priced_order_def sample_prices sample_lines_def)

lemma sample_rows: "rows_ok sample_db
   \<lparr>Order_ID = 0, Order_UserID = 1, Order_Status = OrderStatusPending, Order_TotalPrice = 45 / 2, Order_Items = sample_lines,
    Order_CreatedAt = 0, Order_UpdatedAt = 0\<rparr>
   \<lparr>Payment_ID = 0, Payment_OrderID = 0, Payment_IdempotencyKey = ''u-1'', Payment_Status = PaymentStatusPending,
    Payment_Amount = 45 / 2, Payment_ProviderTxnID = None, Payment_CreatedAt = 0, Payment_UpdatedAt = 0\<rparr>"
  by code_simp

lemma sample_cart_rows:
  "rows_ok sample_db (priced_order (tbl sample_db) 1 (Req_Items sample_cart))
     (priced_payment (tbl sample_db) ''u-1'' (Req_Items sample_cart))"
  "find (\<lambda>i. stored_price (tbl sample_db) (Req_ProductID i) = None) (Req_Items sample_cart) = None"
  "find (\<lambda>i. \<not> in_stock sample_db i) (Order_Items (priced_order (tbl sample_db) 1 (Req_Items sample_cart))) = None"
proof -
  have "priced_order (tbl sample_db) 1 (Req_Items sample_cart) =
      \<lparr>Order_ID = 0, Order_UserID = 1, Order_Status = OrderStatusPending, Order_TotalPrice = 45 / 2, Order_Items = sample_lines,
       Order_CreatedAt = 0, Order_UpdatedAt = 0\<rparr>"
    by (simp add: priced_order_def sample_total sample_prices sample_lines_def)
  then show "rows_ok sample_db (priced_order (tbl sample_db) 1 (Req_Items sample_cart))
     (priced_payment (tbl sample_db) ''u-1'' (Req_Items sample_cart))"
    using sample_rows by (simp add: priced_payment_def sample_total)
  show "find (\<lambda>i. stored_price (tbl sample_db) (Req_ProductID i) = None) (Req_Items sample_cart) = None"
    by (simp add: sample_cart_def sample_prices)
  have "find (\<lambda>i. \<not> in_stock sample_db i) sample_lines = None" by code_simp
  then show "find (\<lambda>i. \<not> in_stock sample_db i) (Order_Items (priced_order (tbl sample_db) 1 (Req_Items sample_cart))) = None"
    by (simp add: sample_lines_priced)
qed

lemma sample_cart_key:
  "store_Reserve (idempotencyKey 1 (Req_Items sample_cart)) idempotencyTTL (app_idem sample_app)
     = (Inr True, (app_idem sample_app)\<lparr>r_keys := [idempotencyKey 1 (Req_Items sample_cart) \<mapsto>
         (''1'', Some (1000 + idempotencyTTL))]\<rparr>)"
  by (simp add: Reserve_run sample_app_def r_exists_def idempotencyTTL_pos)

theorem CreateOrder_places_witness:
  "\<exists>resp w'. svc_CreateOrder store_Reserve store_Release (pool_Process True 0) 60 61 ''u-1'' 1 sample_cart live_app = (Inr resp, w') \<and>
     Pool_accepted (app_proc w') = [7, OrderResp_ID resp] \<and> OrderResp_ID resp = 3 \<and> OrderResp_TotalPrice resp = 45 / 2 \<and>
     map ItemResp_ProductID (OrderResp_Items resp) = [1, 2]"
proof -
  have live: "replies (app_db live_app) = []" "wf_db (app_db live_app)" "app_db live_app = sample_db"
    "app_idem live_app = app_idem sample_app" "app_proc live_app = sample_pool"
    using sample_cart_facts(1,2) by (simp_all add: live_app_def sample_app_def)
  have "seq sample_db T_orders = 3" by code_simp
  moreover have "\<not> isl (fst (pool_Process True 0 i (app_proc live_app)))" for i by (simp add: live live_pool)
  ultimately obtain resp w' where run: "svc_CreateOrder store_Reserve store_Release (pool_Process True 0) 60 61 ''u-1'' 1
      sample_cart live_app = (Inr resp, w')" "pool_Process True 0 (OrderResp_ID resp) sample_pool = (Inr (), app_proc w')"
    "OrderResp_ID resp = 3" "OrderResp_TotalPrice resp = 45 / 2" "map ItemResp_ProductID (OrderResp_Items resp) = [1, 2]"
    using CreateOrder_places [where w = live_app and Reserve = store_Reserve and Process = "pool_Process True 0"
        and req = sample_cart and u = 1 and uuid = "''u-1''" and Release = store_Release and ?t1.0 = 60 and ?t2.0 = 61,
        OF live(1,2) sample_cart_key [folded live(4)] _ sample_cart_facts(4,5), unfolded live(3,5)] sample_cart_rows
    by (auto simp: live sample_total sample_prices)
  have "Pool_accepted (app_proc w') = [7, OrderResp_ID resp]"
    using arg_cong [where f = "\<lambda>x. Pool_accepted (snd x)", OF run(2)] unfolding live_pool by simp
  with run show ?thesis by (intro exI [of _ resp] exI [of _ w'] conjI) simp_all
qed

section \<open>The window\<close>

text \<open>
  C9. For every Redis client with the documented behaviour of \<open>SET NX EX\<close> and \<open>DEL\<close>: once an order was
  placed with Redis answering, submitting the same cart again, its lines in any order, before five
  minutes have passed is answered \<open>ErrDuplicateOrder\<close>, again if Redis answers, and changes neither the
  database nor the queue of the processor nor the set of claimed keys.
\<close>

theorem CreateOrder_dedup:
  assumes redis: "redis_expiry SetNX Del exists pass"
    and res: "svc_CreateOrder (redis_Reserve SetNX) (redis_Release Del) Process t1 t2 uuid u req w = (Inr resp, w1)"
    and first: "\<not> isl (fst (redis_Reserve SetNX (idempotencyKey u (Req_Items req)) idempotencyTTL (app_idem w)))"
    and second: "\<not> isl (fst (redis_Reserve SetNX (idempotencyKey u (Req_Items req)) idempotencyTTL (pass dt (app_idem w1))))"
    and again: "mset (Req_Items req') = mset (Req_Items req)" and dt: "0 \<le> dt" "dt < 300 * 1000000000"
  shows "\<exists>w2. svc_CreateOrder (redis_Reserve SetNX) (redis_Release Del) Process t3 t4 uuid' u req'
      (w1\<lparr>app_idem := pass dt (app_idem w1)\<rparr>) = (Inl ErrDuplicateOrder, w2) \<and>
    app_db w2 = app_db w1 \<and> app_proc w2 = app_proc w1 \<and> exists (app_idem w2) = exists (pass dt (app_idem w1))"
proof -
  let ?key = "idempotencyKey u (Req_Items req)"
  have client: "redis_client SetNX Del exists" using redis by (simp add: redis_expiry_def)
  note store = redis_client.store_contract [OF client]
  have lines: "distinct (map Req_ProductID (Req_Items req))"
    using res by (cases rule: svc_CreateOrder_cases) auto
  then have lines': "distinct (map Req_ProductID (Req_Items req'))"
    using again by (metis mset_map mset_eq_imp_distinct_iff)
  have key: "idempotencyKey u (Req_Items req') = ?key"
    using cart_text_perm [OF lines' again] by (simp add: idempotencyKey_def)
  from key_store.key_kept [OF store res first]
  have "redis_Reserve SetNX ?key idempotencyTTL (app_idem w) = (Inr True, app_idem w1)" by blast
  then obtain v where "SetNX ?key v idempotencyTTL (app_idem w) = (Inr True, app_idem w1)" by (auto simp: redis_Reserve_def)
  moreover have "dt < idempotencyTTL" using dt by (simp add: idempotencyTTL_def)
  ultimately have held: "exists (pass dt (app_idem w1)) ?key"
    using redis_expiry.setnx_expires [OF redis idempotencyTTL_pos dt(1)] by blast
  let ?w = "w1\<lparr>app_idem := pass dt (app_idem w1)\<rparr>"
  obtain r2 w2 where r2: "svc_CreateOrder (redis_Reserve SetNX) (redis_Release Del) Process t3 t4 uuid' u req' ?w = (r2, w2)"
    by (cases "svc_CreateOrder (redis_Reserve SetNX) (redis_Release Del) Process t3 t4 uuid' u req' ?w")
  show ?thesis
    using key_store.duplicate_refused [OF store r2 lines'] held second r2 by (simp add: key)
qed

lemma sample_cart_placed:
  "\<exists>resp w'. svc_CreateOrder store_Reserve store_Release list_Process 60 61 ''u-1'' 1 sample_cart sample_app = (Inr resp, w') \<and>
     r_link (app_idem w') = []"
proof -
  have db: "app_db sample_app = sample_db" by (simp add: sample_app_def)
  note priced = cart_is_priced(2-4) [OF wf_sample refl, where its = "Req_Items sample_cart", symmetric]
  note run = place_cart_success [where w = sample_app and Reserve = store_Reserve and Process = list_Process and req = sample_cart
      and u = 1 and uuid = "''u-1''" and Release = store_Release and ?t1.0 = 60 and ?t2.0 = 61,
      OF sample_cart_facts(1,2) sample_cart_key list_Process_total sample_cart_facts(4,5), unfolded db,
      OF sample_cart_rows [unfolded priced]]
  then show ?thesis using sample_cart_facts(3) by fastforce
qed

theorem CreateOrder_dedup_witness:
  "\<exists>resp w1 w2. svc_CreateOrder store_Reserve store_Release list_Process 60 61 ''u-1'' 1 sample_cart sample_app = (Inr resp, w1) \<and>
     svc_CreateOrder store_Reserve store_Release list_Process 62 63 ''u-2'' 1 \<lparr>Req_Items = rev (Req_Items sample_cart)\<rparr>
       (w1\<lparr>app_idem := r_tick 1000 (app_idem w1)\<rparr>) = (Inl ErrDuplicateOrder, w2) \<and> app_db w2 = app_db w1"
proof -
  obtain resp w1 where w1: "svc_CreateOrder store_Reserve store_Release list_Process 60 61 ''u-1'' 1 sample_cart sample_app
      = (Inr resp, w1)" "r_link (app_idem w1) = []"
    using sample_cart_placed by blast
  have "\<not> isl (fst (store_Reserve k idempotencyTTL (app_idem sample_app)))"
    "\<not> isl (fst (store_Reserve k idempotencyTTL (r_tick 1000 (app_idem w1))))" for k
    using w1(2) sample_cart_facts(3) by (simp_all add: Reserve_run r_tick_def)
  then show ?thesis
    using CreateOrder_dedup [OF redis.redis_expiry_axioms w1(1), of 1000 "\<lparr>Req_Items = rev (Req_Items sample_cart)\<rparr>" 62 63 "''u-2''"] w1(1)
    by auto
qed

text \<open>
  C10. For every Redis client with the documented behaviour: an attempt that \<open>CreateOrder\<close> refuses or
  fails to store gives its key back. With Redis answering and the processor in service, the set of
  claimed keys after a failed call is what it was before, so the customer can retry at once.
\<close>

theorem CreateOrder_releases:
  assumes "redis_client SetNX Del exists"
    and "svc_CreateOrder (redis_Reserve SetNX) (redis_Release Del) Process t1 t2 uuid u req w = (Inl e, w')"
    and "\<not> isl (fst (redis_Reserve SetNX (idempotencyKey u (Req_Items req)) idempotencyTTL (app_idem w)))"
    and "\<not> isl (fst (redis_Release Del (idempotencyKey u (Req_Items req))
      (snd (redis_Reserve SetNX (idempotencyKey u (Req_Items req)) idempotencyTTL (app_idem w)))))"
    and "\<And>i. \<not> isl (fst (Process i (app_proc w)))"
  shows "exists (app_idem w') = exists (app_idem w)"
  using key_store.key_released [OF redis_client.store_contract [OF assms(1)] assms(2-5)] .

theorem CreateOrder_releases_witness:
  "\<exists>e w'. svc_CreateOrder store_Reserve store_Release (pool_Process True 0) 60 61 ''u-1'' 1
      \<lparr>Req_Items = [\<lparr>Req_ProductID = 9, Req_Quantity = 1\<rparr>]\<rparr> live_app = (Inl e, w') \<and> r_exists (app_idem w') = r_exists (app_idem live_app)"
proof -
  let ?its = "[\<lparr>Req_ProductID = 9, Req_Quantity = 1\<rparr>]"
  let ?req = "\<lparr>Req_Items = ?its\<rparr>"
  have "fst (GetProductsByIDs [9] sample_db) = Inr []" by code_simp
  then obtain d where "GetProductsByIDs [9] sample_db = (Inr [], d)" by (cases "GetProductsByIDs [9] sample_db") auto
  then obtain w' where run: "svc_CreateOrder store_Reserve store_Release (pool_Process True 0) 60 61 ''u-1'' 1 ?req live_app
      = (Inl (ProductNotFoundError 9), w')"
    by (simp add: svc_CreateOrder_def Let_def Reserve_run live_app_def sample_app_def r_exists_def place_order_def bindE_def
        releasing_def on_db_def priceByID_def)
  have "r_link (app_idem live_app) = []" "app_proc live_app = sample_pool" by (simp_all add: live_app_def sample_app_def)
  then have "\<not> isl (fst (store_Reserve k idempotencyTTL (app_idem live_app)))"
    "\<not> isl (fst (store_Release k (snd (store_Reserve k idempotencyTTL (app_idem live_app)))))"
    "\<not> isl (fst (pool_Process True 0 i (app_proc live_app)))" for k i
    by (simp_all add: Reserve_run Release_run live_pool)
  then show ?thesis
    using CreateOrder_releases [OF redis_commands.redis_client_axioms run] run by blast
qed

end
