(* ===== verification/OrderSettling.thy ===== *)
theory OrderSettling
  imports OrderLifecycle Sample
begin

text \<open>
  The terminal transitions and the reads of \<open>internal/repository/order.go\<close> on a database that
  answers every statement: what they return and which rows they change.
\<close>

section \<open>Restocking\<close>

lemma restock_ok:
  assumes "replies d = []" and wf: "wf_inv d" and "int4 (Item_Quantity i)" "int4 (Item_ProductID i)"
    and "0 \<le> Item_Quantity i" and room: "int4 (stock (inventory (tbl d)) (Item_ProductID i) + Item_Quantity i)"
  shows "\<exists>d'. restock i d = (Inr (), d') \<and> replies d' = []"
proof -
  let ?P = "\<lambda>r. Inventory_ProductID r = Item_ProductID i"
  let ?f = "\<lambda>r. r\<lparr>Inventory_Quantity := Inventory_Quantity r + Item_Quantity i, Inventory_UpdatedAt := pg_now d\<rparr>"
  have "check_inventory (?f r) = None" if "r \<in> set (inventory (tbl d))" "?P r" for r
  proof -
    have "stock (inventory (tbl d)) (Inventory_ProductID r) = Inventory_Quantity r" "0 \<le> Inventory_Quantity r"
      using wf that(1) by (simp_all add: wf_inventory_def stock_row)
    then show ?thesis using that(2) room assms(5) by (simp add: check_inventory_def)
  qed
  then have upd: "sql_update ?P ?f check_inventory (inventory (tbl d))
      = Inr (hits ?P (inventory (tbl d)), upd_where ?P ?f (inventory (tbl d)))"
    by (simp add: sql_update_Inr)
  then show ?thesis
    using assms(1,3,4) by (simp add: restock_def bindE_def stmt_ok on_table_def ret_def)
qed

lemma restock_loop_ok:
  assumes "replies d = []" and wf: "wf_inv d"
    and lines: "\<forall>i \<in> set its. 0 \<le> Item_Quantity i \<and> int4 (Item_Quantity i) \<and> int4 (Item_ProductID i) \<and>
      Item_ProductID i \<in> set (map Inventory_ProductID (inventory (tbl d)))"
    and room: "\<And>p. int4 (stock (inventory (tbl d)) p + wanted its p)"
  shows "\<exists>d'. forE its restock d = (Inr (), d') \<and> replies d' = []"
proof -
  let ?I = "\<lambda>ys s. replies s = [] \<and> inv_step (\<lambda>p. wanted ys p) d s"
  have "hoare (?I []) (forE its restock) (\<lambda>_. ?I its) (\<lambda>_ _. False)"
  proof (rule hoare_for_prefix)
    fix ys x zs
    assume its: "its = ys @ x # zs"
    have total: "\<exists>t. restock x s = (Inr (), t) \<and> ?I (ys @ [x]) t" if inv: "?I ys s" for s
    proof -
      have wfs: "wf_inv s" using inv inv_step_wf [OF wf] by blast
      have st: "stock (inventory (tbl s)) p = stock (inventory (tbl d)) p + wanted ys p" for p
        using inv by (simp add: inv_step_def inv_change_def)
      have "0 \<le> stock (inventory (tbl d)) p" "0 \<le> wanted ys p" "0 \<le> wanted zs p" for p
        using wf lines its by (auto intro!: wanted_nonneg stock_nonneg simp: wf_inventory_def)
      from this [of "Item_ProductID x"]
      have "int4 (stock (inventory (tbl s)) (Item_ProductID x) + Item_Quantity x)"
        using room [of "Item_ProductID x"] lines unfolding st int4_def its by simp
      then obtain t where t: "restock x s = (Inr (), t)" "replies t = []"
        using restock_ok [of s x] inv wfs lines its by auto
      have "map Inventory_ProductID (inventory (tbl s)) = map Inventory_ProductID (inventory (tbl d))"
        using inv by (simp add: inv_step_def inv_change_def)
      then have "inv_step (\<lambda>p. if p = Item_ProductID x then Item_Quantity x else 0) s t"
        using lines its by (intro restock_Inr [OF wfs t(1)]) auto
      then have "inv_step (wanted (ys @ [x])) d t" by (rule inv_step_trans [OF conjunct2 [OF inv]]) auto
      with t show ?thesis by blast
    qed
    show "hoare (?I ys) (restock x) (\<lambda>_. ?I (ys @ [x])) (\<lambda>_ _. False)"
      by (rule hoareI; drule total; auto)
  qed
  then have "case forE its restock d of (Inr u, t) \<Rightarrow> ?I its t | (Inl e, t) \<Rightarrow> False"
    using inv_step_refl [OF wf] assms(1) by (simp add: hoare_def)
  then show ?thesis by (auto split: prod.splits sum.splits)
qed

section \<open>The transitions succeed\<close>

lemma finish_payment_ok:
  "replies d = [] \<Longrightarrow> int4 (Payment_ID pay) \<Longrightarrow>
     \<exists>d'. finish_payment f pay d = (Inr (hits (pending_payment pay) (payments (tbl d))), d') \<and> replies d' = []"
  by (simp add: finish_payment_def stmt_ok on_table_def)

lemma finish_order_ok:
  "replies d = [] \<Longrightarrow> int4 (Payment_OrderID pay) \<Longrightarrow>
     \<exists>n d'. finish_order s pay d = (Inr n, d') \<and> replies d' = []"
  by (simp add: finish_order_def stmt_ok on_table_def)

lemma MarkPaid_ok:
  assumes "replies d = []" and "int4 (Payment_ID pay)" "int4 (Payment_OrderID pay)"
  shows "\<exists>b d'. MarkPaidAndConfirm pay txn d = (Inr b, d') \<and> replies d' = []"
proof -
  obtain d1 where f: "finish_payment (set_paid txn) pay d = (Inr (hits (pending_payment pay) (payments (tbl d))), d1)"
    "replies d1 = []"
    using finish_payment_ok assms(1,2) by blast
  obtain n d2 where o: "finish_order OrderStatusConfirmed pay d1 = (Inr n, d2)" "replies d2 = []"
    using finish_order_ok f(2) assms(3) by blast
  have "\<exists>b d'. mark_paid_body pay txn d = (Inr b, d') \<and> replies d' = []"
    using f o by (auto simp: mark_paid_body_def bindE_def ret_def)
  then show ?thesis unfolding MarkPaidAndConfirm_def using assms(1) by (metis transaction_no_faults)
qed

lemma FailCancel_ok:
  assumes "replies d = []" and wf: "wf_db d" and st: "stored (tbl d) pay"
    and "int4 (Payment_ID pay)" "int4 (Payment_OrderID pay)"
    and lines: "list_all (\<lambda>i. int4 (Item_Quantity i) \<and> int4 (Item_ProductID i)) (items_of (Payment_OrderID pay) (tbl d))"
    and units: "\<And>p. int4 (units (tbl d) p)"
  shows "\<exists>b d'. FailCancelAndRestock pay d = (Inr b, d') \<and> replies d' = []"
proof -
  let ?its = "items_of (Payment_OrderID pay)"
  obtain d1 where f: "finish_payment set_failed pay d = (Inr (hits (pending_payment pay) (payments (tbl d))), d1)"
    "replies d1 = []"
    using finish_payment_ok assms(1,4) by blast
  obtain n d2 where o: "finish_order OrderStatusCancelled pay d1 = (Inr n, d2)" "replies d2 = []"
    using finish_order_ok f(2) assms(5) by blast
  note both = finish_both [OF f(1) o(1)]
  have t2: "inventory (tbl d2) = inventory (tbl d)" "order_items (tbl d2) = order_items (tbl d)"
    "products (tbl d2) = products (tbl d)" using both by simp_all
  have q: "query [Payment_OrderID pay] ?its d2 = (Inr (?its (tbl d)), d2)"
    using o(2) assms(5) t2 by (simp add: query_ok)
  have loop: "\<exists>d'. forE (?its (tbl d)) restock d2 = (Inr (), d') \<and> replies d' = []" if pend: "is_pending (tbl d) pay"
  proof (rule restock_loop_ok [OF o(2)])
    show "wf_inv d2" using wf both t2 by (simp add: wf_db_def wf_tables_def)
    show "\<forall>i \<in> set (?its (tbl d)). 0 \<le> Item_Quantity i \<and> int4 (Item_Quantity i) \<and> int4 (Item_ProductID i) \<and>
        Item_ProductID i \<in> set (map Inventory_ProductID (inventory (tbl d2)))"
      using wf lines t2 by (auto simp: list_all_iff wf_db_def wf_tables_def wf_items_def)
    fix p
    have "allocated (settle pay set_failed OrderStatusCancelled 0 (tbl d)) p
        = allocated (tbl d) p - wanted (?its (tbl d)) p"
      using wf st pend by (intro allocated_settle_cancelled) (simp_all add: wf_db_def)
    moreover have "wf_db (d\<lparr>tbl := settle pay set_failed OrderStatusCancelled 0 (tbl d)\<rparr>)"
      using wf st pend settle_wf [of "seq d" "tbl d" pay] by (simp add: wf_db_def)
    then have "0 \<le> allocated (settle pay set_failed OrderStatusCancelled 0 (tbl d)) p"
      using allocated_nonneg by fastforce
    moreover have "0 \<le> stock (inventory (tbl d)) p" using wf wf_stock_nonneg by (intro stock_nonneg) auto
    moreover have "0 \<le> wanted (?its (tbl d)) p"
      using wf by (intro wanted_nonneg) (auto simp: wf_db_def wf_tables_def wf_items_def less_imp_le)
    ultimately show "int4 (stock (inventory (tbl d2)) p + wanted (?its (tbl d)) p)"
      using units [of p] t2 by (simp add: units_def int4_def)
  qed
  have "\<exists>b d'. fail_cancel_body pay d = (Inr b, d') \<and> replies d' = []"
  proof (cases "is_pending (tbl d) pay")
    case True
    with loop obtain d3 where "forE (?its (tbl d)) restock d2 = (Inr (), d3)" "replies d3 = []" by blast
    moreover have "hits (pending_payment pay) (payments (tbl d)) = 1" using True hits_pending(1) [OF wf] by simp
    ultimately show ?thesis
      using f(1) o(1) q by (auto simp: fail_cancel_body_def bindE_def ret_def)
  next
    case False
    then have "hits (pending_payment pay) (payments (tbl d)) \<noteq> 1" using hits_pending(1) [OF wf] by simp
    then show ?thesis using f by (auto simp: fail_cancel_body_def bindE_def ret_def)
  qed
  then show ?thesis unfolding FailCancelAndRestock_def using assms(1) by (metis transaction_no_faults)
qed

section \<open>Properties\<close>

text \<open>
  C4. \<open>MarkPaidAndConfirm\<close> on a database that answers returns \<open>true\<close> exactly when the payment was
  still pending. Then that payment is paid with the given transaction id and its order confirmed;
  otherwise no table changes. In both cases the payment is not pending afterwards and the invariant
  and the units of every product are kept.
\<close>

theorem MarkPaid_outcome:
  assumes "replies d = []" and "wf_db d" and "stored (tbl d) pay"
    and "int4 (Payment_ID pay)" and "int4 (Payment_OrderID pay)"
  shows "\<exists>d'. MarkPaidAndConfirm pay txn d = (Inr (is_pending (tbl d) pay), d') \<and>
    tbl d' = (if is_pending (tbl d) pay
      then settle pay (set_paid txn) OrderStatusConfirmed (pg_now d) (tbl d) else tbl d) \<and>
    \<not> is_pending (tbl d') pay \<and> wf_db d' \<and> (\<forall>p. units (tbl d') p = units (tbl d) p)"
proof -
  obtain b d' where r: "MarkPaidAndConfirm pay txn d = (Inr b, d')" using MarkPaid_ok assms by blast
  show ?thesis
    using r MarkPaid_Inr [OF assms(2) r] MarkPaid_keeps [OF assms(2,3) r] by auto
qed

theorem MarkPaid_outcome_witness:
  "wf_db sample_db \<and> stored (tbl sample_db) (sample_payment 2 ''k2'' PaymentStatusPending 30 None) \<and>
   (\<exists>d'. MarkPaidAndConfirm (sample_payment 2 ''k2'' PaymentStatusPending 30 None) ''fake-2'' sample_db
      = (Inr True, d') \<and> wf_db d')"
proof -
  let ?p = "sample_payment 2 ''k2'' PaymentStatusPending 30 None"
  have "stored (tbl sample_db) ?p" "is_pending (tbl sample_db) ?p" "int4 (Payment_ID ?p)" "int4 (Payment_OrderID ?p)"
    by code_simp+
  then show ?thesis using MarkPaid_outcome [of sample_db ?p "''fake-2''"] by auto
qed

text \<open>
  C5. \<open>FailCancelAndRestock\<close> on a database that answers, whose product counts fit their column,
  returns \<open>true\<close> exactly when the payment was still pending. Then the payment is failed, its order
  cancelled, and every product gets back exactly the quantity the order's lines held; otherwise no
  table changes. The payment is not pending afterwards; the invariant and the units are kept.
\<close>

theorem FailCancel_outcome:
  assumes "replies d = []" and "wf_db d" and "stored (tbl d) pay"
    and "int4 (Payment_ID pay)" and "int4 (Payment_OrderID pay)"
    and "list_all (\<lambda>i. int4 (Item_Quantity i) \<and> int4 (Item_ProductID i)) (items_of (Payment_OrderID pay) (tbl d))"
    and "\<And>p. int4 (units (tbl d) p)"
  shows "\<exists>d'. FailCancelAndRestock pay d = (Inr (is_pending (tbl d) pay), d') \<and>
    (if is_pending (tbl d) pay
     then tbl d' = (settle pay set_failed OrderStatusCancelled (pg_now d) (tbl d))\<lparr>inventory := inventory (tbl d')\<rparr> \<and>
       inv_change (wanted (items_of (Payment_OrderID pay) (tbl d))) (inventory (tbl d)) (inventory (tbl d'))
     else tbl d' = tbl d) \<and>
    \<not> is_pending (tbl d') pay \<and> wf_db d' \<and> (\<forall>p. units (tbl d') p = units (tbl d) p)"
proof -
  obtain b d' where r: "FailCancelAndRestock pay d = (Inr b, d')" using FailCancel_ok assms by blast
  note res = FailCancel_Inr [OF assms(2,3) r] FailCancel_keeps [OF assms(2,3) r]
  show ?thesis
    using r res by (cases b) auto
qed

theorem FailCancel_outcome_witness:
  "wf_db sample_db \<and> stored (tbl sample_db) (sample_payment 2 ''k2'' PaymentStatusPending 30 None) \<and>
   (\<forall>p. int4 (units (tbl sample_db) p)) \<and>
   (\<exists>d'. FailCancelAndRestock (sample_payment 2 ''k2'' PaymentStatusPending 30 None) sample_db = (Inr True, d') \<and>
      stock (inventory (tbl d')) 2 = 9)"
proof -
  let ?p = "sample_payment 2 ''k2'' PaymentStatusPending 30 None"
  have pre: "stored (tbl sample_db) ?p" "is_pending (tbl sample_db) ?p" "int4 (Payment_ID ?p)" "int4 (Payment_OrderID ?p)"
    "list_all (\<lambda>i. int4 (Item_Quantity i) \<and> int4 (Item_ProductID i)) (items_of (Payment_OrderID ?p) (tbl sample_db))"
    "wanted (items_of (Payment_OrderID ?p) (tbl sample_db)) 2 = 2" "stock (inventory (tbl sample_db)) 2 = 7"
    by code_simp+
  have units: "int4 (units (tbl sample_db) p)" for p
    by (simp add: units_def allocated_def live_def sample_defs int4_def)
  then show ?thesis
    using FailCancel_outcome [of sample_db ?p, OF _ _ pre(1,3,4,5) units] pre by (auto simp: inv_change_def)
qed

section \<open>Reads\<close>

lemma first_by_none: "\<forall>r \<in> set rs. \<not> P r \<Longrightarrow> first_by k P rs = Inl ErrRecordNotFound"
  by (simp add: first_by_def filter_empty_conv)

lemma first_by_unique:
  assumes "r \<in> set rs" and "P r" and "\<And>q. q \<in> set rs \<Longrightarrow> P q \<Longrightarrow> k' q = k' r" and "distinct (map k' rs)"
  shows "first_by k P rs = Inr r"
proof -
  have "P q \<longleftrightarrow> k' q = k' r" if "q \<in> set rs" for q
    using that assms distinct_map_eqD [OF assms(4) that assms(1)] by blast
  then have "filter P rs = filter (\<lambda>q. k' q = k' r) rs" by (rule filter_cong [OF refl])
  also have "\<dots> = [r]" using assms(4,1) by (rule filter_unique)
  finally show ?thesis by (simp add: first_by_def)
qed

lemma GetPending_run:
  assumes "replies d = []" and "int4 oid"
  shows "GetPendingByOrderID oid d =
    (case first_by Payment_ID (\<lambda>p. Payment_OrderID p = oid \<and> Payment_Status p = PaymentStatusPending)
        (payments (tbl d)) of
       Inl e \<Rightarrow> Inl (no_pending e) | Inr p \<Rightarrow> Inr (scan_payment p), d)"
  using assms
  by (simp add: GetPendingByOrderID_def map_err_def bindE_def query_ok of_result_def ret_def split: sum.splits)

text \<open>
  On a database that answers, \<open>GetPendingByOrderID\<close> returns the payment of an order as long as
  that order is pending (its amount read into a \<open>float64\<close>), and \<open>ErrNoPendingPayment\<close> for an order
  that is confirmed or cancelled and for an unknown one. It changes nothing.
\<close>

theorem GetPending_outcome:
  assumes "replies d = []" and "wf_db d" and "int4 oid"
  shows "if \<exists>r \<in> set (orders (tbl d)). Order_ID r = oid \<and> Order_Status r = OrderStatusPending
    then \<exists>p \<in> set (payments (tbl d)). Payment_OrderID p = oid \<and> Payment_Status p = PaymentStatusPending \<and>
      GetPendingByOrderID oid d = (Inr (scan_payment p), d)
    else GetPendingByOrderID oid d = (Inl ErrNoPendingPayment, d)"
proof -
  have set: "settled (orders (tbl d)) (payments (tbl d))" using assms(2) by (simp add: wf_db_def wf_tables_def)
  then have dist: "distinct (map Payment_OrderID (payments (tbl d)))"
    and ids: "Payment_OrderID ` set (payments (tbl d)) = Order_ID ` set (orders (tbl d))"
    and cpl: "\<And>r p. r \<in> set (orders (tbl d)) \<Longrightarrow> p \<in> set (payments (tbl d)) \<Longrightarrow>
      Payment_OrderID p = Order_ID r \<Longrightarrow> coupled (Payment_Status p) (Order_Status r)"
    by (simp_all add: settled_def)
  show ?thesis
  proof (cases "\<exists>r \<in> set (orders (tbl d)). Order_ID r = oid \<and> Order_Status r = OrderStatusPending")
    case True
    then obtain r where r: "r \<in> set (orders (tbl d))" "Order_ID r = oid" "Order_Status r = OrderStatusPending" by blast
    with set obtain p where p: "p \<in> set (payments (tbl d))" "Payment_OrderID p = oid"
      "Payment_Status p = PaymentStatusPending"
      by (auto elim!: settled_payment simp: coupled_def)
    have "first_by Payment_ID (\<lambda>p. Payment_OrderID p = oid \<and> Payment_Status p = PaymentStatusPending)
        (payments (tbl d)) = Inr p"
      using p dist by (intro first_by_unique [where k' = Payment_OrderID]) auto
    then show ?thesis using True p GetPending_run [OF assms(1,3)] by auto
  next
    case False
    have "\<not> (Payment_OrderID p = oid \<and> Payment_Status p = PaymentStatusPending)" if "p \<in> set (payments (tbl d))" for p
    proof
      assume p: "Payment_OrderID p = oid \<and> Payment_Status p = PaymentStatusPending"
      with ids that obtain r where "r \<in> set (orders (tbl d))" "Order_ID r = oid" by (metis imageE imageI)
      with cpl that p False show False by (fastforce simp: coupled_def)
    qed
    then have "first_by Payment_ID (\<lambda>p. Payment_OrderID p = oid \<and> Payment_Status p = PaymentStatusPending)
        (payments (tbl d)) = Inl ErrRecordNotFound"
      by (intro first_by_none) blast
    then show ?thesis using False GetPending_run [OF assms(1,3)] by (simp add: no_pending_def)
  qed
qed

theorem GetPending_outcome_witness:
  "replies sample_db = [] \<and> wf_db sample_db \<and> int4 2 \<and>
   (\<exists>p. GetPendingByOrderID 2 sample_db = (Inr p, sample_db) \<and> Payment_Amount p = 30)"
proof -
  have "\<exists>r \<in> set (orders (tbl sample_db)). Order_ID r = 2 \<and> Order_Status r = OrderStatusPending"
    "\<forall>p \<in> set (payments (tbl sample_db)). Payment_OrderID p = 2 \<longrightarrow> Payment_Amount (scan_payment p) = 30"
    "int4 2"
    by code_simp+
  then show ?thesis using GetPending_outcome [of sample_db 2] by auto
qed

text \<open>
  C6. \<open>ListStalePending\<close> with a positive limit returns at most that many orders, oldest payment first,
  each with a payment that is pending and was created before the threshold; and it misses such a
  payment only when the list is full with payments that are at least as old.
\<close>

theorem ListStalePending_outcome:
  assumes "replies d = []" and "0 < limit"
  shows "\<exists>ps. ListStalePending now olderThan limit d = (Inr (map Payment_OrderID ps), d) \<and>
    int (length ps) \<le> limit \<and> sorted (map Payment_CreatedAt ps) \<and>
    set ps \<subseteq> {p \<in> set (payments (tbl d)). Payment_Status p = PaymentStatusPending \<and> Payment_CreatedAt p < now - olderThan} \<and>
    (\<forall>p \<in> set (payments (tbl d)). Payment_Status p = PaymentStatusPending \<and> Payment_CreatedAt p < now - olderThan \<and>
       p \<notin> set ps \<longrightarrow> int (length ps) = limit \<and> (\<forall>q \<in> set ps. Payment_CreatedAt q \<le> Payment_CreatedAt p))"
proof -
  let ?P = "\<lambda>p. Payment_Status p = PaymentStatusPending \<and> Payment_CreatedAt p < now - olderThan"
  let ?all = "sort_key Payment_CreatedAt (filter ?P (payments (tbl d)))"
  let ?ps = "take (nat limit) ?all"
  have "sorted (map Payment_CreatedAt (?ps @ drop (nat limit) ?all))" by (subst append_take_drop_id) simp
  then have sorted: "sorted (map Payment_CreatedAt ?ps)"
    "\<forall>q \<in> set ?ps. \<forall>p \<in> set (drop (nat limit) ?all). Payment_CreatedAt q \<le> Payment_CreatedAt p"
    unfolding map_append sorted_append by auto
  have "ListStalePending now olderThan limit d = (Inr (map Payment_OrderID ?ps), d)"
    using assms by (simp add: ListStalePending_def query_ok sql_limit_def)
  moreover have "int (length ?ps) \<le> limit" using assms(2) by simp
  moreover have "set ?ps \<subseteq> {p \<in> set (payments (tbl d)). ?P p}" by (auto dest!: in_set_takeD)
  moreover have "int (length ?ps) = limit \<and> (\<forall>q \<in> set ?ps. Payment_CreatedAt q \<le> Payment_CreatedAt p)"
    if "p \<in> set (payments (tbl d))" "?P p" "p \<notin> set ?ps" for p
  proof -
    have "p \<in> set ?all" using that by simp
    then have "p \<in> set ?ps \<union> set (drop (nat limit) ?all)" by (simp only: set_append [symmetric] append_take_drop_id)
    with that(3) have "p \<in> set (drop (nat limit) ?all)" by blast
    moreover from this have "nat limit < length ?all" by (cases "nat limit < length ?all") auto
    ultimately show ?thesis using sorted(2) assms(2) by simp
  qed
  ultimately show ?thesis using sorted(1) by (intro exI [of _ ?ps]) blast
qed

theorem ListStalePending_outcome_witness:
  "replies sample_db = [] \<and> (0::int) < 1 \<and>
   (\<exists>ps. ListStalePending 100 60 1 sample_db = (Inr (map Payment_OrderID ps), sample_db) \<and>
      map Payment_OrderID ps = [2] \<and> set ps \<subseteq> set (payments (tbl sample_db)))"
proof -
  have "fst (ListStalePending 100 60 1 sample_db) = Inr [2]" by code_simp
  moreover obtain ps where "ListStalePending 100 60 1 sample_db = (Inr (map Payment_OrderID ps), sample_db)"
    "set ps \<subseteq> set (payments (tbl sample_db))"
    using ListStalePending_outcome [of sample_db 1 100 60] by auto
  ultimately show ?thesis by (intro conjI exI [of _ ps]) simp_all
qed

end
