(* ===== verification/Hub.thy ===== *)
theory Hub
  imports Channel
begin

text \<open>
  \<open>internal/ws\<close>: the hub that fans notifications out to WebSocket clients, and the clients.

  A \<open>*Client\<close> is the index of its struct in \<open>Hub_heap\<close>. The goroutine \<open>Run\<close> serves one request of a
  channel at a time, so a request together with the branch of \<open>Run\<close> that serves it is one step of the
  model; \<open>Hub_running\<close> says that \<open>Run\<close> is in its loop. Where a \<open>select\<close> finds two channels ready the
  choice is an argument: \<open>win\<close> whether the request wins against a closed \<open>done\<close>, \<open>pick\<close> whether the
  result does. Go iterates over a map in an unspecified order: \<open>rank\<close> sorts the clients into it, and every
  order is one of some rank. The connection is the list of the frames written to it.

  A panic in \<open>Run\<close> would end the process; it is \<open>Inl (GoPanic m)\<close>, and \<open>hub_never_panics\<close> shows that it
  cannot happen.
\<close>

section \<open>State\<close>

datatype frame = TextMessage string | PingMessage | CloseMessage

record Client =
  Client_orderID :: int
  Client_send :: "string channel"
  Client_frames :: "frame list"
  Client_conn_open :: bool
  Client_pumping :: bool

record Hub =
  Hub_clients :: "int \<Rightarrow> nat list option"
  Hub_done :: bool
  Hub_running :: bool
  Hub_heap :: "Client list"

type_synonym 'a hubm = "(Hub, go_error, 'a) prog"

definition sendBuffer :: int where
  "sendBuffer = 32"

text \<open>\<open>NewHub()\<close> and \<open>go hub.Run()\<close>.\<close>

definition NewHub :: Hub where
  "NewHub = \<lparr>Hub_clients = Map.empty, Hub_done = False, Hub_running = True, Hub_heap = []\<rparr>"

definition NewClient :: "int \<Rightarrow> nat hubm" where
  "NewClient orderID h =
     (Inr (length (Hub_heap h)),
      h\<lparr>Hub_heap := Hub_heap h @ [\<lparr>Client_orderID = orderID, Client_send = make_chan sendBuffer,
         Client_frames = [], Client_conn_open = True, Client_pumping = False\<rparr>]\<rparr>)"

definition client :: "Hub \<Rightarrow> nat \<Rightarrow> Client" where
  "client h c = Hub_heap h ! c"

definition upd_client :: "nat \<Rightarrow> (Client \<Rightarrow> Client) \<Rightarrow> Hub \<Rightarrow> Hub" where
  "upd_client c f h = h\<lparr>Hub_heap := (Hub_heap h)[c := f (client h c)]\<rparr>"

text \<open>An operation on a client's \<open>send\<close> channel.\<close>

definition on_send :: "nat \<Rightarrow> (string channel \<Rightarrow> 'r \<times> string channel) \<Rightarrow> Hub \<Rightarrow> 'r \<times> Hub" where
  "on_send c f h =
     (case f (Client_send (client h c)) of
        (r, ch) \<Rightarrow> (r, upd_client c (\<lambda>x. x\<lparr>Client_send := ch\<rparr>) h))"

section \<open>The branches of Run\<close>

definition hub_register :: "nat \<Rightarrow> Hub \<Rightarrow> Hub" where
  "hub_register c h =
     (let oid = Client_orderID (client h c);
          set0 = (case Hub_clients h oid of None \<Rightarrow> [] | Some s \<Rightarrow> s)
      in h\<lparr>Hub_clients := (Hub_clients h)(oid \<mapsto> List.insert c set0)\<rparr>)"

definition hub_remove :: "nat \<Rightarrow> unit hubm" where
  "hub_remove c h =
     (let oid = Client_orderID (client h c) in
      case Hub_clients h oid of
        None \<Rightarrow> (Inr (), h)
      | Some s \<Rightarrow>
          if c \<notin> set s then (Inr (), h)
          else
            let s' = remove1 c s in
            bindE (on_send c close_chan)
              (\<lambda>_ h'. (Inr (), if s' = [] then h'\<lparr>Hub_clients := (Hub_clients h')(oid := None)\<rparr> else h'))
              (h\<lparr>Hub_clients := (Hub_clients h)(oid \<mapsto> s')\<rparr>))"

definition hub_deliver :: "string \<Rightarrow> nat \<Rightarrow> bool hubm" where
  "hub_deliver payload c =
     bindE (on_send c (try_send payload)) (\<lambda>sent.
       if sent then ret True else bindE (hub_remove c) (\<lambda>_. ret False))"

primrec fan_out :: "string \<Rightarrow> nat list \<Rightarrow> bool \<Rightarrow> bool hubm" where
  "fan_out payload [] delivered = ret delivered"
| "fan_out payload (c # cs) delivered =
     bindE (hub_deliver payload c) (\<lambda>sent. fan_out payload cs (delivered \<or> sent))"

definition subscribers :: "Hub \<Rightarrow> int \<Rightarrow> nat list" where
  "subscribers h oid = (case Hub_clients h oid of None \<Rightarrow> [] | Some s \<Rightarrow> s)"

definition hub_outbound :: "(nat \<Rightarrow> nat) \<Rightarrow> int \<Rightarrow> string \<Rightarrow> bool hubm" where
  "hub_outbound rank orderID payload h = fan_out payload (sort_key rank (subscribers h orderID)) False h"

text \<open>\<open>case <-h.done\<close>: close every client's channel and leave. A client is in the set of its own order.\<close>

definition all_clients :: "Hub \<Rightarrow> nat list" where
  "all_clients h = filter (\<lambda>c. c \<in> set (subscribers h (Client_orderID (client h c)))) [0..<length (Hub_heap h)]"

definition hub_leave :: "(nat \<Rightarrow> nat) \<Rightarrow> unit hubm" where
  "hub_leave rank h =
     bindE (forE (sort_key rank (all_clients h)) (\<lambda>c. on_send c close_chan))
       (\<lambda>_ h'. (Inr (), h'\<lparr>Hub_clients := Map.empty, Hub_running := False\<rparr>)) h"

section \<open>The methods of Hub\<close>

text \<open>The request of a \<open>select\<close> with \<open>done\<close>: it is served if \<open>Run\<close> is there and \<open>done\<close> does not win.\<close>

definition served :: "bool \<Rightarrow> Hub \<Rightarrow> bool" where
  "served win h \<longleftrightarrow> Hub_running h \<and> (win \<or> \<not> Hub_done h)"

definition hub_Register :: "bool \<Rightarrow> nat \<Rightarrow> unit hubm" where
  "hub_Register win c h = (Inr (), if served win h then hub_register c h else h)"

definition hub_Unregister :: "bool \<Rightarrow> nat \<Rightarrow> unit hubm" where
  "hub_Unregister win c h = (if served win h then hub_remove c h else (Inr (), h))"

definition hub_Notify :: "bool \<Rightarrow> bool \<Rightarrow> (nat \<Rightarrow> nat) \<Rightarrow> int \<Rightarrow> string \<Rightarrow> bool hubm" where
  "hub_Notify win pick rank orderID payload h =
     (if served win h then
        bindE (hub_outbound rank orderID payload)
          (\<lambda>delivered h'. (Inr (delivered \<and> (pick \<or> \<not> Hub_done h')), h')) h
      else (Inr False, h))"

definition hub_Stop :: "unit hubm" where
  "hub_Stop h =
     (if Hub_done h then (Inl (GoPanic ''close of closed channel''), h) else (Inr (), h\<lparr>Hub_done := True\<rparr>))"

section \<open>The methods of Client\<close>

definition Client_Send :: "string \<Rightarrow> nat \<Rightarrow> unit hubm" where
  "Client_Send payload c = bindE (on_send c (try_send payload)) (\<lambda>_. ret ())"

definition write_frame :: "frame \<Rightarrow> Client \<Rightarrow> Client" where
  "write_frame f x = x\<lparr>Client_frames := Client_frames x @ [f]\<rparr>"

text \<open>The deferred calls of \<open>WritePump\<close>.\<close>

definition pump_return :: "bool \<Rightarrow> nat \<Rightarrow> unit hubm" where
  "pump_return win c =
     bindE (hub_Unregister win c)
       (\<lambda>_ h. (Inr (), upd_client c (\<lambda>x. x\<lparr>Client_conn_open := False, Client_pumping := False\<rparr>) h))"

text \<open>One round of the loop of \<open>WritePump\<close>: a receive from \<open>send\<close>, or a tick; \<open>ok\<close> is whether the write works.\<close>

definition pump_receive :: "bool \<Rightarrow> bool \<Rightarrow> nat \<Rightarrow> unit hubm" where
  "pump_receive win ok c h =
     (case on_send c try_recv h of
        (NotReady, h') \<Rightarrow> (Inr (), h')
      | (NotOk, h') \<Rightarrow> pump_return win c (if ok then upd_client c (write_frame CloseMessage) h' else h')
      | (Received payload, h') \<Rightarrow>
          if ok then (Inr (), upd_client c (write_frame (TextMessage payload)) h') else pump_return win c h')"

definition pump_tick :: "bool \<Rightarrow> bool \<Rightarrow> nat \<Rightarrow> unit hubm" where
  "pump_tick win ok c h =
     (if ok then (Inr (), upd_client c (write_frame PingMessage) h) else pump_return win c h)"

section \<open>Runs\<close>

text \<open>
  What can happen to the hub: a handler connects a client, replays a stored notification to it, a worker
  notifies, a write pump makes a round, the server stops the hub, \<open>Run\<close> notices.
\<close>

datatype hub_action =
    Connect bool int
  | Replay string nat
  | Push bool bool "nat \<Rightarrow> nat" int string
  | Pump bool bool nat
  | Tick bool bool nat
  | StopHub
  | RunLeaves "nat \<Rightarrow> nat"

fun hub_run :: "hub_action \<Rightarrow> unit hubm" where
  "hub_run (Connect win orderID) =
     bindE (NewClient orderID) (\<lambda>c. bindE (hub_Register win c)
       (\<lambda>_ h. (Inr (), upd_client c (\<lambda>x. x\<lparr>Client_pumping := True\<rparr>) h)))"
| "hub_run (Replay payload c) = Client_Send payload c"
| "hub_run (Push win pick rank orderID payload) =
     bindE (hub_Notify win pick rank orderID payload) (\<lambda>_. ret ())"
| "hub_run (Pump win ok c) = pump_receive win ok c"
| "hub_run (Tick win ok c) = pump_tick win ok c"
| "hub_run StopHub = hub_Stop"
| "hub_run (RunLeaves rank) = hub_leave rank"

fun hub_enabled :: "hub_action \<Rightarrow> Hub \<Rightarrow> bool" where
  "hub_enabled (Replay payload c) h \<longleftrightarrow> c < length (Hub_heap h)"
| "hub_enabled (Pump win ok c) h \<longleftrightarrow> c < length (Hub_heap h) \<and> Client_pumping (client h c)"
| "hub_enabled (Tick win ok c) h \<longleftrightarrow> c < length (Hub_heap h) \<and> Client_pumping (client h c)"
| "hub_enabled StopHub h \<longleftrightarrow> \<not> Hub_done h"
| "hub_enabled (RunLeaves rank) h \<longleftrightarrow> Hub_running h \<and> Hub_done h"
| "hub_enabled _ h \<longleftrightarrow> True"

text \<open>A panic of \<open>Client.Send\<close> ends its handler and leaves the hub as it is.\<close>

inductive hub_reach :: "Hub \<Rightarrow> bool" where
  start: "hub_reach NewHub"
| step: "hub_reach h \<Longrightarrow> hub_enabled a h \<Longrightarrow> hub_run a h = (r, h') \<Longrightarrow> hub_reach h'"

section \<open>The invariant\<close>

definition subscribed_ok :: "Hub \<Rightarrow> int \<Rightarrow> nat \<Rightarrow> bool" where
  "subscribed_ok h oid c \<longleftrightarrow>
     c < length (Hub_heap h) \<and> Client_orderID (client h c) = oid \<and> \<not> chan_closed (Client_send (client h c))"

definition client_ok :: "Client \<Rightarrow> bool" where
  "client_ok x \<longleftrightarrow> chan_ok (Client_send x) \<and> chan_cap (Client_send x) = sendBuffer"

definition hub_ok :: "Hub \<Rightarrow> bool" where
  "hub_ok h \<longleftrightarrow>
     (\<forall>oid s. Hub_clients h oid = Some s \<longrightarrow> s \<noteq> [] \<and> distinct s \<and> list_all (subscribed_ok h oid) s) \<and>
     list_all client_ok (Hub_heap h) \<and>
     (\<not> Hub_running h \<longrightarrow> Hub_clients h = Map.empty \<and> Hub_done h)"

definition room :: "Hub \<Rightarrow> nat \<Rightarrow> bool" where
  "room h c \<longleftrightarrow> int (length (chan_buf (Client_send (client h c)))) < sendBuffer"

lemma upd_client_sel [simp]:
  "Hub_clients (upd_client c f h) = Hub_clients h" "Hub_done (upd_client c f h) = Hub_done h"
  "Hub_running (upd_client c f h) = Hub_running h" "length (Hub_heap (upd_client c f h)) = length (Hub_heap h)"
  by (simp_all add: upd_client_def)

lemma client_upd [simp]:
  "c < length (Hub_heap h) \<Longrightarrow> client (upd_client c f h) k = (if k = c then f (client h c) else client h k)"
  by (simp add: client_def upd_client_def nth_list_update)

lemma client_upd_other [simp]: "k \<noteq> c \<Longrightarrow> client (upd_client c f h) k = client h k"
  by (simp add: client_def upd_client_def)

lemma upd_client_same [simp]: "h\<lparr>Hub_heap := (Hub_heap h)[c := client h c]\<rparr> = h"
  by (simp add: client_def)

lemma client_clients [simp]:
  "client (h\<lparr>Hub_clients := m\<rparr>) c = client h c" "client (h\<lparr>Hub_done := b\<rparr>) c = client h c"
  "client (h\<lparr>Hub_running := b'\<rparr>) c = client h c"
  by (simp_all add: client_def)

lemma subscribed_ok_frame [simp]:
  "subscribed_ok (h\<lparr>Hub_clients := m\<rparr>) = subscribed_ok h" "subscribed_ok (h\<lparr>Hub_done := b\<rparr>) = subscribed_ok h"
  by (simp_all add: subscribed_ok_def fun_eq_iff)

lemma subscribers_Some: "Hub_clients h oid = Some s \<Longrightarrow> subscribers h oid = s"
  by (simp add: subscribers_def)

lemma subscribers_upd [simp]: "subscribers (upd_client c f h) = subscribers h"
  by (simp add: subscribers_def fun_eq_iff)

lemma subscribers_put [simp]:
  "subscribers (h\<lparr>Hub_clients := (Hub_clients h)(oid := x)\<rparr>) k
     = (if k = oid then (case x of None \<Rightarrow> [] | Some s \<Rightarrow> s) else subscribers h k)"
  by (simp add: subscribers_def)

text \<open>The invariant read off the sets of subscribers.\<close>

lemma hub_okD:
  assumes "hub_ok h" and "c \<in> set (subscribers h oid)"
  shows "Hub_clients h oid = Some (subscribers h oid)" and "c < length (Hub_heap h)"
    and "Client_orderID (client h c) = oid" and "\<not> chan_closed (Client_send (client h c))"
    and "distinct (subscribers h oid)" and "client_ok (client h c)"
proof -
  show some: "Hub_clients h oid = Some (subscribers h oid)"
    using assms(2) by (cases "Hub_clients h oid") (simp_all add: subscribers_def)
  then have "distinct (subscribers h oid)" "subscribed_ok h oid c"
    using assms unfolding hub_ok_def list_all_iff by blast+
  then show "c < length (Hub_heap h)" "Client_orderID (client h c) = oid"
    "\<not> chan_closed (Client_send (client h c))" "distinct (subscribers h oid)"
    by (simp_all add: subscribed_ok_def)
  then show "client_ok (client h c)" using assms(1) by (simp add: hub_ok_def list_all_length client_def)
qed

lemma hub_ok_client: "hub_ok h \<Longrightarrow> c < length (Hub_heap h) \<Longrightarrow> client_ok (client h c)"
  by (simp add: hub_ok_def list_all_length client_def)

lemma hub_ok_distinct: "hub_ok h \<Longrightarrow> distinct (subscribers h oid)"
  by (auto simp: hub_ok_def subscribers_def split: option.splits)

text \<open>A change of one client that keeps its order and does not close a subscriber's channel.\<close>

lemma hub_ok_upd:
  assumes "hub_ok h" and "c < length (Hub_heap h)" and "Client_orderID (f (client h c)) = Client_orderID (client h c)"
    and "client_ok (f (client h c))"
    and "c \<in> set (subscribers h (Client_orderID (client h c))) \<Longrightarrow> \<not> chan_closed (Client_send (f (client h c)))"
  shows "hub_ok (upd_client c f h)"
proof -
  have "subscribed_ok (upd_client c f h) oid k" if "Hub_clients h oid = Some s" "k \<in> set s" for oid s k
  proof -
    have k: "k \<in> set (subscribers h oid)" using that by (simp add: subscribers_Some)
    note D = hub_okD [OF assms(1) k]
    show ?thesis
      using D assms(2,3,5) k by (cases "k = c") (simp_all add: subscribed_ok_def)
  qed
  moreover have "list_all client_ok (Hub_heap (upd_client c f h))"
    using assms(1,4) set_update_subset_insert [of "Hub_heap h" c "f (client h c)"]
    by (auto simp: hub_ok_def list_all_iff upd_client_def)
  ultimately show ?thesis using assms(1) by (auto simp: hub_ok_def list_all_iff)
qed

lemma hub_ok_shrink:
  assumes "hub_ok h" and "Hub_running h" and "s = [] \<longrightarrow> x = None" and "s \<noteq> [] \<longrightarrow> x = Some s"
    and "distinct s" and "list_all (subscribed_ok h oid) s"
  shows "hub_ok (h\<lparr>Hub_clients := (Hub_clients h)(oid := x)\<rparr>)"
  using assms by (auto simp: hub_ok_def split: if_splits)

lemma subscribed_okI: "hub_ok h \<Longrightarrow> list_all (subscribed_ok h oid) (subscribers h oid)"
  by (auto simp: hub_ok_def subscribers_def split: option.splits)

section \<open>One client\<close>

text \<open>Removing a subscriber closes its channel, once, and takes it out of the set of its order.\<close>

definition close_client :: "Client \<Rightarrow> Client" where
  "close_client x = x\<lparr>Client_send := (Client_send x)\<lparr>chan_closed := True\<rparr>\<rparr>"

definition push_client :: "string \<Rightarrow> Client \<Rightarrow> Client" where
  "push_client p x = x\<lparr>Client_send := (Client_send x)\<lparr>chan_buf := chan_buf (Client_send x) @ [p]\<rparr>\<rparr>"

definition without :: "nat \<Rightarrow> nat list \<Rightarrow> nat list option" where
  "without c s = (if remove1 c s = [] then None else Some (remove1 c s))"

definition dropped :: "int \<Rightarrow> nat \<Rightarrow> Hub \<Rightarrow> Hub" where
  "dropped oid c h =
     (upd_client c close_client h)\<lparr>Hub_clients := (Hub_clients h)(oid := without c (subscribers h oid))\<rparr>"

lemma hub_remove_subscriber:
  assumes "hub_ok h" and "Hub_running h" and "c \<in> set (subscribers h oid)"
  shows "hub_remove c h = (Inr (), dropped oid c h)" and "hub_ok (dropped oid c h)"
proof -
  note D = hub_okD [OF assms(1,3)]
  show "hub_remove c h = (Inr (), dropped oid c h)"
    using D assms(3) unfolding hub_remove_def Let_def
    by (simp add: dropped_def bindE_def on_send_def close_chan_open upd_client_def close_client_def without_def client_def)
  let ?h = "h\<lparr>Hub_clients := (Hub_clients h)(oid := without c (subscribers h oid))\<rparr>"
  have "hub_ok ?h"
    using assms(1,2) D(5) subscribed_okI [OF assms(1), of oid]
    by (intro hub_ok_shrink [where s = "remove1 c (subscribers h oid)"]) (auto simp: without_def list_all_iff dest: notin_set_remove1)
  moreover have "subscribers ?h oid = remove1 c (subscribers h oid)" by (simp add: without_def)
  then have "c \<notin> set (subscribers ?h (Client_orderID (client ?h c)))" using D(3,5) by simp
  ultimately have "hub_ok (upd_client c close_client ?h)"
    using D(2,6) by (intro hub_ok_upd) (simp_all add: close_client_def client_ok_def chan_ok_def)
  then show "hub_ok (dropped oid c h)" by (cases h) (simp add: dropped_def upd_client_def client_def)
qed

lemma hub_remove_absent:
  "c \<notin> set (subscribers h (Client_orderID (client h c))) \<Longrightarrow> hub_remove c h = (Inr (), h)"
  by (auto simp: hub_remove_def Let_def subscribers_def split: option.splits)

text \<open>Delivery to a subscriber: queued when there is room, else the client is dropped.\<close>

definition hub_delivered :: "string \<Rightarrow> int \<Rightarrow> nat \<Rightarrow> Hub \<Rightarrow> Hub" where
  "hub_delivered p oid c h =
     (if room h c then upd_client c (push_client p) h else dropped oid c h)"

lemma hub_deliver_subscriber:
  assumes "hub_ok h" and "Hub_running h" and "c \<in> set (subscribers h oid)"
  shows "hub_deliver p c h = (Inr (room h c), hub_delivered p oid c h)" and "hub_ok (hub_delivered p oid c h)"
proof -
  note D = hub_okD [OF assms(1,3)]
  have cap: "chan_cap (Client_send (client h c)) = sendBuffer" using D(6) by (simp add: client_ok_def)
  show "hub_deliver p c h = (Inr (room h c), hub_delivered p oid c h)"
    using D(4) hub_remove_subscriber(1) [OF assms]
    by (simp add: hub_deliver_def bindE_def on_send_def try_send_def room_def hub_delivered_def cap ret_def
        push_client_def upd_client_def)
  show "hub_ok (hub_delivered p oid c h)"
  proof (cases "room h c")
    case True
    then have "hub_ok (upd_client c (push_client p) h)"
      using assms(1) D by (intro hub_ok_upd) (auto simp: push_client_def client_ok_def chan_ok_def room_def)
    with True show ?thesis by (simp add: hub_delivered_def)
  next
    case False
    then show ?thesis using hub_remove_subscriber(2) [OF assms] by (simp add: hub_delivered_def)
  qed
qed

lemma hub_delivered_frame [simp]:
  "Hub_done (hub_delivered p oid c h) = Hub_done h" "Hub_running (hub_delivered p oid c h) = Hub_running h"
  "length (Hub_heap (hub_delivered p oid c h)) = length (Hub_heap h)"
  by (simp_all add: hub_delivered_def dropped_def)

lemma hub_delivered_client:
  "c < length (Hub_heap h) \<Longrightarrow> client (hub_delivered p oid c h) k =
     (if k = c then (if room h c then push_client p else close_client) (client h c) else client h k)"
  by (simp add: hub_delivered_def dropped_def)

lemma hub_delivered_subscribers:
  assumes "hub_ok h"
  shows "subscribers (hub_delivered p oid c h) k =
     (if k = oid then filter (\<lambda>x. x = c \<longrightarrow> room h x) (subscribers h oid) else subscribers h k)"
proof -
  have "subscribers (dropped oid c h) k = (if k = oid then remove1 c (subscribers h oid) else subscribers h k)"
    unfolding dropped_def using subscribers_put [of "upd_client c close_client h" oid "without c (subscribers h oid)" k]
    by (simp add: without_def)
  moreover have "remove1 c (subscribers h oid) = filter (\<lambda>x. x \<noteq> c) (subscribers h oid)"
    using hub_ok_distinct [OF assms] by (simp add: distinct_remove1_removeAll removeAll_filter_not_eq eq_commute)
  moreover have "filter (\<lambda>x. x = c \<longrightarrow> room h x) (subscribers h oid) =
      (if room h c then subscribers h oid else filter (\<lambda>x. x \<noteq> c) (subscribers h oid))"
    by (auto intro: filter_cong filter_True)
  ultimately show ?thesis by (cases "k = oid") (simp_all add: hub_delivered_def)
qed

lemma hub_delivered_room:
  "c < length (Hub_heap h) \<Longrightarrow> k \<noteq> c \<Longrightarrow> room (hub_delivered p oid c h) k = room h k"
  by (simp add: room_def hub_delivered_client)

text \<open>The whole fan-out, whatever the order of the iteration.\<close>

definition pushed :: "string \<Rightarrow> nat list \<Rightarrow> Hub \<Rightarrow> nat \<Rightarrow> Client" where
  "pushed p cs h k =
     (if k \<in> set cs then (if room h k then push_client p else close_client) (client h k) else client h k)"

lemma fan_out_run:
  assumes "hub_ok h" and "Hub_running h" and "distinct cs" and "set cs \<subseteq> set (subscribers h oid)"
  shows "\<exists>h'. fan_out p cs b h = (Inr (b \<or> list_ex (room h) cs), h') \<and> hub_ok h' \<and>
    Hub_running h' \<and> Hub_done h' = Hub_done h \<and> length (Hub_heap h') = length (Hub_heap h) \<and>
    (\<forall>k. client h' k = pushed p cs h k) \<and>
    (\<forall>k. subscribers h' k =
       (if k = oid then filter (\<lambda>c. c \<in> set cs \<longrightarrow> room h c) (subscribers h oid) else subscribers h k))"
  using assms
proof (induction cs arbitrary: h b)
  case Nil
  then show ?case by (auto simp: ret_def pushed_def)
next
  case (Cons c cs)
  then have c: "c \<in> set (subscribers h oid)" by simp
  let ?h = "hub_delivered p oid c h"
  note D = hub_okD [OF Cons.prems(1) c] and del = hub_deliver_subscriber [OF Cons.prems(1,2) c, of p]
  have rm: "room ?h k = room h k" if "k \<in> set cs" for k
    by (rule hub_delivered_room [OF D(2)]) (use that Cons.prems(3) in auto)
  have "set cs \<subseteq> set (subscribers ?h oid)"
    using Cons.prems(3,4) by (auto simp: hub_delivered_subscribers [OF Cons.prems(1)])
  with Cons.IH [of ?h "b \<or> room h c"] del Cons.prems obtain h' where
    ih: "fan_out p cs (b \<or> room h c) ?h = (Inr ((b \<or> room h c) \<or> list_ex (room ?h) cs), h')" "hub_ok h'"
      "Hub_running h'" "Hub_done h' = Hub_done h" "length (Hub_heap h') = length (Hub_heap h)"
      "\<forall>k. client h' k = pushed p cs ?h k"
      "\<forall>k. subscribers h' k =
         (if k = oid then filter (\<lambda>c. c \<in> set cs \<longrightarrow> room ?h c) (subscribers ?h oid) else subscribers ?h k)"
    by auto
  have ex: "list_ex (room ?h) cs = list_ex (room h) cs" using rm by (auto simp: list_ex_iff)
  have "client h' k = pushed p (c # cs) h k" for k
    using ih(6) rm [of k] Cons.prems(3) hub_delivered_client [OF D(2), of p oid k] by (auto simp: pushed_def)
  moreover have "subscribers h' k =
      (if k = oid then filter (\<lambda>x. x \<in> set (c # cs) \<longrightarrow> room h x) (subscribers h oid) else subscribers h k)" for k
    using ih(7) rm by (auto simp: hub_delivered_subscribers [OF Cons.prems(1)] intro!: filter_cong)
  moreover have "fan_out p (c # cs) b h = (Inr (b \<or> list_ex (room h) (c # cs)), h')"
    using ih(1) del(1) ex by (simp add: bindE_def disj_assoc)
  ultimately show ?case using ih(2-5) by auto
qed

section \<open>Every operation is safe\<close>

text \<open>
  What a client has been given: the payloads written to its connection and the ones still queued. As
  long as its pump runs they only grow at the end.
\<close>

fun text_of :: "frame \<Rightarrow> string list" where
  "text_of (TextMessage p) = [p]"
| "text_of _ = []"

definition stream :: "Client \<Rightarrow> string list" where
  "stream x = concat (map text_of (Client_frames x)) @ chan_buf (Client_send x)"

definition client_moves :: "Client \<Rightarrow> Client \<Rightarrow> bool" where
  "client_moves x y \<longleftrightarrow> Client_orderID y = Client_orderID x \<and>
     (Client_pumping y \<longrightarrow> Client_pumping x \<and> prefix (stream x) (stream y))"

definition evolves :: "Hub \<Rightarrow> Hub \<Rightarrow> bool" where
  "evolves h h' \<longleftrightarrow> length (Hub_heap h) \<le> length (Hub_heap h') \<and>
     (\<forall>k < length (Hub_heap h). client_moves (client h k) (client h' k))"

lemma client_moves_refl [simp]: "client_moves x x"
  by (simp add: client_moves_def)

lemma evolves_refl [simp]: "evolves h h"
  by (simp add: evolves_def)

lemma client_moves_trans: "client_moves x y \<Longrightarrow> client_moves y z \<Longrightarrow> client_moves x z"
  by (auto simp: client_moves_def intro: prefix_order.trans)

lemma evolves_trans:
  assumes "evolves a b" and "evolves b c"
  shows "evolves a c"
proof -
  have "client_moves (client a k) (client c k)" if "k < length (Hub_heap a)" for k
    using that assms client_moves_trans unfolding evolves_def by (meson order_less_le_trans)
  with assms show ?thesis by (simp add: evolves_def)
qed

lemma evolves_upd:
  "(c < length (Hub_heap h) \<Longrightarrow> client_moves (client h c) (f (client h c))) \<Longrightarrow> evolves h (upd_client c f h)"
  by (cases "c < length (Hub_heap h)") (auto simp: evolves_def upd_client_def client_def nth_list_update)

lemma evolves_eq: "Hub_heap h' = Hub_heap h \<Longrightarrow> evolves h h'"
  by (simp add: evolves_def client_def)

lemma client_moves_push [simp]: "client_moves x (push_client p x)"
  by (simp add: client_moves_def push_client_def stream_def)

lemma client_moves_close [simp]: "client_moves x (close_client x)"
  by (simp add: client_moves_def close_client_def stream_def)

text \<open>\<open>good m h\<close>: \<open>m\<close> returns from \<open>h\<close> without a panic and keeps the invariant.\<close>

definition good :: "'a hubm \<Rightarrow> Hub \<Rightarrow> bool" where
  "good m h \<longleftrightarrow> (case m h of (Inl _, _) \<Rightarrow> False | (Inr _, h') \<Rightarrow> hub_ok h' \<and> evolves h h')"

lemma goodI: "m h = (Inr x, h') \<Longrightarrow> hub_ok h' \<Longrightarrow> evolves h h' \<Longrightarrow> good m h"
  by (simp add: good_def)

lemma goodE:
  assumes "good m h"
  obtains x h' where "m h = (Inr x, h')" "hub_ok h'" "evolves h h'"
  using assms unfolding good_def by (auto split: prod.splits sum.splits)

lemma good_bind:
  assumes "good m h" and "\<And>x h'. m h = (Inr x, h') \<Longrightarrow> hub_ok h' \<Longrightarrow> evolves h h' \<Longrightarrow> good (f x) h'"
  shows "good (bindE m f) h"
proof -
  from assms(1) obtain x h1 where m: "m h = (Inr x, h1)" "hub_ok h1" "evolves h h1" by (rule goodE)
  from assms(2) [OF m] obtain y h2 where "f x h1 = (Inr y, h2)" "hub_ok h2" "evolves h1 h2" by (rule goodE)
  with m show ?thesis by (intro goodI [of _ _ y h2]) (auto simp: bindE_def intro: evolves_trans)
qed

lemma good_ret: "hub_ok h \<Longrightarrow> good (ret x) h"
  by (rule goodI) (auto simp: ret_def)

lemma hub_remove_good:
  assumes "hub_ok h" and "Hub_running h"
  shows "good (hub_remove c) h"
proof (cases "c \<in> set (subscribers h (Client_orderID (client h c)))")
  case True
  note rem = hub_remove_subscriber [OF assms True] and D = hub_okD [OF assms(1) True]
  have "evolves h (upd_client c close_client h)" by (rule evolves_upd) simp
  moreover have "evolves (upd_client c close_client h) (dropped (Client_orderID (client h c)) c h)"
    by (rule evolves_eq) (simp add: dropped_def)
  ultimately show ?thesis using rem by (blast intro: goodI evolves_trans)
next
  case False
  then show ?thesis using hub_remove_absent assms(1) by (intro goodI) auto
qed

lemma hub_Unregister_good: "hub_ok h \<Longrightarrow> good (hub_Unregister win c) h"
proof (cases "served win h")
  case True
  assume "hub_ok h"
  moreover from True have "Hub_running h" by (simp add: served_def)
  ultimately have "good (hub_remove c) h" by (rule hub_remove_good)
  with True show ?thesis by (simp add: good_def hub_Unregister_def)
qed (auto intro: goodI simp: hub_Unregister_def)

lemma pump_return_good:
  assumes "hub_ok h" and "c < length (Hub_heap h)"
  shows "good (pump_return win c) h"
  unfolding pump_return_def
proof (rule good_bind [OF hub_Unregister_good [OF assms(1)]])
  fix u h'
  assume h': "hub_ok h'" "evolves h h'"
  then have c: "c < length (Hub_heap h')" using assms(2) by (simp add: evolves_def)
  let ?f = "\<lambda>x. x\<lparr>Client_conn_open := False, Client_pumping := False\<rparr>"
  have "hub_ok (upd_client c ?f h')"
    using h'(1) c hub_ok_client [OF h'(1) c] hub_okD(4) [OF h'(1)]
    by (intro hub_ok_upd) (auto simp: client_ok_def)
  moreover have "evolves h' (upd_client c ?f h')" by (rule evolves_upd) (simp add: client_moves_def)
  ultimately show "good (\<lambda>h. (Inr (), upd_client c ?f h)) h'" by (rule goodI [OF refl])
qed

lemma write_frame_ok:
  assumes "hub_ok h" and "c < length (Hub_heap h)"
  shows "hub_ok (upd_client c (write_frame f) h)"
  using assms hub_ok_client [OF assms] hub_okD(4) [OF assms(1)]
  by (intro hub_ok_upd) (auto simp: write_frame_def client_ok_def)

lemma pump_tick_good:
  assumes "hub_ok h" and "c < length (Hub_heap h)"
  shows "good (pump_tick win ok c) h"
proof (cases ok)
  case True
  have "evolves h (upd_client c (write_frame PingMessage) h)"
    by (rule evolves_upd) (simp add: client_moves_def write_frame_def stream_def)
  with True write_frame_ok [OF assms] show ?thesis by (intro goodI) (auto simp: pump_tick_def)
next
  case False
  then show ?thesis using pump_return_good [OF assms] by (simp add: good_def pump_tick_def)
qed

lemma pump_return_stops:
  assumes "hub_ok h" and "c < length (Hub_heap h)"
  obtains h' where "pump_return win c h = (Inr (), h')" "hub_ok h'" "evolves h h'" "\<not> Client_pumping (client h' c)"
proof -
  from pump_return_good [OF assms, of win] obtain x h' where
    h': "pump_return win c h = (Inr x, h')" "hub_ok h'" "evolves h h'" by (rule goodE)
  moreover have "\<not> Client_pumping (client h' c)"
  proof -
    from h'(1) obtain h1 where h1: "hub_Unregister win c h = (Inr (), h1)"
      "h' = upd_client c (\<lambda>x. x\<lparr>Client_conn_open := False, Client_pumping := False\<rparr>) h1"
      unfolding pump_return_def bindE_Inr by auto
    then have "length (Hub_heap h) \<le> length (Hub_heap h1)"
      using hub_Unregister_good [OF assms(1), of win c] by (simp add: good_def evolves_def)
    with h1(2) assms(2) show ?thesis by simp
  qed
  ultimately show ?thesis using that by simp
qed

text \<open>A round that ends the pump may consume a payload it could not write.\<close>

lemma evolves_stopped:
  assumes "evolves (upd_client c f h) h'" and "\<not> Client_pumping (client h' c)"
    and "\<And>x. Client_orderID (f x) = Client_orderID x"
  shows "evolves h h'"
proof -
  have "client_moves (client h k) (client h' k)" if "k < length (Hub_heap h)" for k
    using assms that by (cases "k = c") (auto simp: evolves_def client_moves_def)
  with assms(1) show ?thesis by (simp add: evolves_def)
qed

lemma pump_receive_good:
  assumes "hub_ok h" and "c < length (Hub_heap h)"
  shows "good (pump_receive win ok c) h"
proof -
  obtain r ch where rc: "try_recv (Client_send (client h c)) = (r, ch)"
    by (cases "try_recv (Client_send (client h c))")
  let ?f = "\<lambda>x. x\<lparr>Client_send := ch\<rparr>"
  let ?h = "upd_client c ?f h"
  have on: "on_send c try_recv h = (r, ?h)" by (simp add: on_send_def rc)
  have "hub_ok ?h"
    using assms hub_ok_client [OF assms] hub_okD(4) [OF assms(1)] try_recv_ok [OF rc] try_recv_frame [OF rc]
    by (intro hub_ok_upd) (auto simp: client_ok_def)
  note h = this and len = assms(2)
  have c: "c < length (Hub_heap ?h)" using len by simp
  show ?thesis
  proof (cases r)
    case (Received p)
    then have buf: "chan_buf (Client_send (client h c)) = p # chan_buf ch" using rc try_recv_fifo by auto
    show ?thesis
    proof (cases ok)
      case True
      have "client_moves (client h c) (write_frame (TextMessage p) (?f (client h c)))"
        using buf by (simp add: client_moves_def write_frame_def stream_def)
      then have "evolves h (upd_client c (write_frame (TextMessage p)) ?h)"
        using len by (auto simp: evolves_def)
      then show ?thesis
        using True Received on write_frame_ok [OF h c] by (intro goodI) (auto simp: pump_receive_def)
    next
      case False
      obtain h' where "pump_return win c ?h = (Inr (), h')" "hub_ok h'" "evolves ?h h'" "\<not> Client_pumping (client h' c)"
        by (rule pump_return_stops [OF h c])
      then show ?thesis
        using False Received on by (intro goodI [of _ _ _ h']) (auto simp: pump_receive_def intro: evolves_stopped)
    qed
  next
    case NotOk
    let ?g = "if ok then upd_client c (write_frame CloseMessage) ?h else ?h"
    have g: "hub_ok ?g" "c < length (Hub_heap ?g)" using h c write_frame_ok [OF h c] by auto
    obtain h' where h': "pump_return win c ?g = (Inr (), h')" "hub_ok h'" "evolves ?g h'" "\<not> Client_pumping (client h' c)"
      by (rule pump_return_stops [OF g])
    have "evolves ?h h'"
      using h' by (cases ok) (auto intro: evolves_stopped [where f = "write_frame CloseMessage"] simp: write_frame_def)
    then have "evolves h h'" using h'(4) by (rule evolves_stopped) simp
    then show ?thesis using NotOk on h' by (intro goodI [of _ _ _ h']) (auto simp: pump_receive_def)
  next
    case NotReady
    then have "ch = Client_send (client h c)" using rc by (auto simp: try_recv_def split: list.splits if_splits)
    then have "?h = h" by (simp add: upd_client_def)
    then show ?thesis using NotReady on assms(1) by (intro goodI) (auto simp: pump_receive_def)
  qed
qed

lemma hub_Notify_good:
  assumes "hub_ok h"
  shows "good (hub_Notify win pick rank oid p) h"
proof (cases "served win h")
  case True
  then have run: "Hub_running h" by (simp add: served_def)
  let ?cs = "sort_key rank (subscribers h oid)"
  obtain h' where h': "fan_out p ?cs False h = (Inr (list_ex (room h) ?cs), h')" "hub_ok h'"
    "length (Hub_heap h') = length (Hub_heap h)" "\<forall>k. client h' k = pushed p ?cs h k"
    using fan_out_run [OF assms run, of ?cs oid p False] hub_ok_distinct [OF assms] by auto
  then have "evolves h h'" by (simp add: evolves_def pushed_def)
  with h' True show ?thesis by (intro goodI) (auto simp: hub_Notify_def hub_outbound_def bindE_def)
qed (use assms in \<open>auto intro: goodI simp: hub_Notify_def\<close>)

lemma NewClient_ok:
  assumes "hub_ok h" and "NewClient oid h = (Inr c, h')"
  shows "hub_ok h'" and "evolves h h'" and "c = length (Hub_heap h)" and "length (Hub_heap h') = Suc c"
    and "\<And>k. c \<notin> set (subscribers h' k)" and "Client_orderID (client h' c) = oid"
    and "\<not> chan_closed (Client_send (client h' c))"
proof -
  let ?x = "\<lparr>Client_orderID = oid, Client_send = make_chan sendBuffer, Client_frames = [],
    Client_conn_open = True, Client_pumping = False\<rparr>"
  have h': "h' = h\<lparr>Hub_heap := Hub_heap h @ [?x]\<rparr>" and c: "c = length (Hub_heap h)"
    using assms(2) by (simp_all add: NewClient_def)
  have old: "client h' k = client h k" if "k < length (Hub_heap h)" for k
    using that h' by (simp add: client_def nth_append)
  have "subscribed_ok h' o' k" if "subscribed_ok h o' k" for o' k
    using that old [of k] h' by (simp add: subscribed_ok_def)
  then have "list_all (subscribed_ok h' o') s" if "list_all (subscribed_ok h o') s" for o' s
    using that by (auto simp: list_all_iff)
  then show "hub_ok h'"
    using assms(1) by (auto simp: h' hub_ok_def client_ok_def sendBuffer_def)
  show "evolves h h'" using old h' by (simp add: evolves_def)
  show "c = length (Hub_heap h)" by (rule c)
  show "length (Hub_heap h') = Suc c" using h' c by simp
  show "c \<notin> set (subscribers h' k)" for k
    using hub_okD(2) [OF assms(1), of c k] c by (auto simp: h' subscribers_def)
  show "Client_orderID (client h' c) = oid" "\<not> chan_closed (Client_send (client h' c))"
    using c h' by (simp_all add: client_def)
qed

lemma hub_Register_good:
  assumes "hub_ok h" and "c < length (Hub_heap h)" and "\<not> chan_closed (Client_send (client h c))"
  shows "good (hub_Register win c) h"
proof (cases "served win h")
  case True
  then have run: "Hub_running h" by (simp add: served_def)
  let ?oid = "Client_orderID (client h c)"
  let ?s = "List.insert c (subscribers h ?oid)"
  have "subscribed_ok h ?oid c" using assms(2,3) by (simp add: subscribed_ok_def)
  then have "list_all (subscribed_ok h ?oid) ?s"
    using subscribed_okI [OF assms(1), of ?oid] by (simp add: list_all_iff)
  moreover have "distinct ?s" by (simp add: hub_ok_distinct [OF assms(1)])
  moreover have "?s \<noteq> []" by (simp add: List.insert_def) force
  ultimately have "hub_ok (h\<lparr>Hub_clients := (Hub_clients h)(?oid := Some ?s)\<rparr>)"
    by (intro hub_ok_shrink [OF assms(1) run, where s = ?s]) simp_all
  then show ?thesis
    using True by (intro goodI) (auto simp: hub_Register_def hub_register_def Let_def subscribers_def intro: evolves_eq)
qed (use assms(1) in \<open>auto intro: goodI simp: hub_Register_def\<close>)

lemma connect_good:
  assumes "hub_ok h"
  shows "good (hub_run (Connect win oid)) h"
proof -
  obtain c h1 where new: "NewClient oid h = (Inr c, h1)" by (simp add: NewClient_def)
  note N = NewClient_ok [OF assms new]
  have "good (hub_Register win c) h1" using N by (intro hub_Register_good) auto
  then obtain u h2 where reg: "hub_Register win c h1 = (Inr u, h2)" "hub_ok h2" "evolves h1 h2" by (rule goodE)
  have c2: "c < length (Hub_heap h2)" using reg(3) N(4) by (simp add: evolves_def)
  let ?f = "\<lambda>x. x\<lparr>Client_pumping := True\<rparr>"
  have "hub_ok (upd_client c ?f h2)"
    using reg(2) c2 hub_ok_client [OF reg(2) c2] hub_okD(4) [OF reg(2)]
    by (intro hub_ok_upd) (auto simp: client_ok_def)
  moreover have "evolves h h2" using N(2) reg(3) by (rule evolves_trans)
  then have "evolves h (upd_client c ?f h2)" using N(3) c2 by (simp add: evolves_def)
  moreover have "hub_run (Connect win oid) h = (Inr (), upd_client c ?f h2)"
    using new reg(1) by (simp add: bindE_def)
  ultimately show ?thesis by (intro goodI)
qed

text \<open>Closing the channels of distinct clients whose channels are open.\<close>

lemma close_loop:
  assumes "distinct cs" and "\<forall>c \<in> set cs. c < length (Hub_heap h) \<and> \<not> chan_closed (Client_send (client h c))"
  shows "\<exists>h'. forE cs (\<lambda>c. on_send c close_chan) h = (Inr (), h') \<and> Hub_clients h' = Hub_clients h \<and>
    Hub_done h' = Hub_done h \<and> length (Hub_heap h') = length (Hub_heap h) \<and>
    (\<forall>k. client h' k = (if k \<in> set cs then close_client (client h k) else client h k))"
  using assms
proof (induction cs arbitrary: h)
  case Nil
  then show ?case by (auto simp: ret_def)
next
  case (Cons c cs)
  let ?h = "upd_client c close_client h"
  have c: "c < length (Hub_heap h)" using Cons.prems(2) by simp
  have on: "on_send c close_chan h = (Inr (), ?h)"
    using Cons.prems(2) by (simp add: on_send_def close_chan_open close_client_def upd_client_def)
  have "\<forall>k \<in> set cs. k < length (Hub_heap ?h) \<and> \<not> chan_closed (Client_send (client ?h k))"
    using Cons.prems c by auto
  with Cons.IH [of ?h] Cons.prems(1) obtain h' where
    h': "forE cs (\<lambda>c. on_send c close_chan) ?h = (Inr (), h')" "Hub_clients h' = Hub_clients h"
      "Hub_done h' = Hub_done h" "length (Hub_heap h') = length (Hub_heap h)"
      "\<forall>k. client h' k = (if k \<in> set cs then close_client (client ?h k) else client ?h k)"
    by auto
  have "client h' k = (if k \<in> set (c # cs) then close_client (client h k) else client h k)" for k
    using h'(5) c Cons.prems(1) by auto
  with h'(1-4) on show ?case by (auto simp: bindE_def)
qed

lemma all_clients_iff:
  assumes "hub_ok h"
  shows "c \<in> set (all_clients h) \<longleftrightarrow> (\<exists>oid. c \<in> set (subscribers h oid))"
  using hub_okD(2,3) [OF assms] by (auto simp: all_clients_def)

lemma hub_leave_run:
  assumes "hub_ok h" and "Hub_done h"
  shows "\<exists>h'. hub_leave rank h = (Inr (), h') \<and> hub_ok h' \<and> \<not> Hub_running h' \<and>
    length (Hub_heap h') = length (Hub_heap h) \<and>
    (\<forall>k. client h' k = (if \<exists>oid. k \<in> set (subscribers h oid) then close_client (client h k) else client h k))"
proof -
  let ?cs = "sort_key rank (all_clients h)"
  have "distinct ?cs" by (simp add: all_clients_def)
  moreover have "c < length (Hub_heap h) \<and> \<not> chan_closed (Client_send (client h c))" if "c \<in> set ?cs" for c
    using that all_clients_iff [OF assms(1), of c] hub_okD(2,4) [OF assms(1), of c] by auto
  ultimately obtain h' where h': "forE ?cs (\<lambda>c. on_send c close_chan) h = (Inr (), h')" "Hub_done h' = Hub_done h"
    "length (Hub_heap h') = length (Hub_heap h)"
    "\<forall>k. client h' k = (if k \<in> set ?cs then close_client (client h k) else client h k)"
    using close_loop [of ?cs h] by auto
  let ?h = "h'\<lparr>Hub_clients := Map.empty, Hub_running := False\<rparr>"
  have "client_ok (client h' k)" if "k < length (Hub_heap h)" for k
    using h'(4) that hub_ok_client [OF assms(1) that] by (simp add: close_client_def client_ok_def chan_ok_def)
  then have "list_all client_ok (Hub_heap h')" using h'(3) by (simp add: list_all_length client_def)
  then have "hub_ok ?h" using assms(2) h'(2) by (simp add: hub_ok_def)
  moreover have "hub_leave rank h = (Inr (), ?h)" using h'(1) by (simp add: hub_leave_def bindE_def)
  moreover have "client ?h k = (if \<exists>oid. k \<in> set (subscribers h oid) then close_client (client h k) else client h k)" for k
    using h'(4) all_clients_iff [OF assms(1), of k] by simp
  ultimately show ?thesis using h'(3) by auto
qed

lemma hub_run_good:
  assumes "hub_ok h" and "hub_enabled a h" and "\<And>p c. a \<noteq> Replay p c"
  shows "good (hub_run a) h"
proof (cases a)
  case (Push win pick rank oid p)
  have "good (hub_Notify win pick rank oid p) h" using assms(1) by (rule hub_Notify_good)
  with Push show ?thesis by (auto intro: good_bind good_ret)
next
  case StopHub
  have "hub_ok (h\<lparr>Hub_done := True\<rparr>)" using assms(1) by (auto simp: hub_ok_def)
  then show ?thesis using StopHub assms(2) by (intro goodI) (auto simp: hub_Stop_def intro: evolves_eq)
next
  case (RunLeaves rank)
  with assms obtain h' where h': "hub_leave rank h = (Inr (), h')" "hub_ok h'" "length (Hub_heap h') = length (Hub_heap h)"
    "\<forall>k. client h' k = (if \<exists>oid. k \<in> set (subscribers h oid) then close_client (client h k) else client h k)"
    using hub_leave_run [OF assms(1), of rank] by auto
  then show ?thesis using RunLeaves by (intro goodI [OF _ h'(2)]) (auto simp: evolves_def)
qed (use assms connect_good pump_receive_good pump_tick_good in auto)

text \<open>\<open>Client.Send\<close> panics exactly when the hub has closed the client's channel.\<close>

lemma Client_Send_closed:
  "chan_closed (Client_send (client h c)) \<Longrightarrow>
     Client_Send p c h = (Inl (GoPanic ''send on closed channel''), h)"
  by (simp add: Client_Send_def bindE_def on_send_def try_send_def upd_client_def)

lemma Client_Send_open:
  assumes "hub_ok h" and "c < length (Hub_heap h)" and op: "\<not> chan_closed (Client_send (client h c))"
  shows "good (Client_Send p c) h"
  using op
proof (cases rule: try_send_open [of _ p])
  case sent
  have "hub_ok (upd_client c (push_client p) h)"
    using assms hub_ok_client [OF assms(1,2)] sent(2)
    by (intro hub_ok_upd) (auto simp: push_client_def client_ok_def chan_ok_def)
  moreover have "Client_Send p c h = (Inr (), upd_client c (push_client p) h)"
    using sent by (simp add: Client_Send_def bindE_def on_send_def ret_def push_client_def upd_client_def)
  ultimately show ?thesis by (intro goodI) (auto intro: evolves_upd)
next
  case full
  then have "Client_Send p c h = (Inr (), h)" by (simp add: Client_Send_def bindE_def on_send_def ret_def upd_client_def)
  then show ?thesis using assms(1) by (intro goodI) auto
qed

lemma hub_run_cases:
  assumes "hub_ok h" and "hub_enabled a h" and "hub_run a h = (r, h')"
  obtains (ok) x where "r = Inr x" "hub_ok h'" "evolves h h'"
  | (panic) p c where "a = Replay p c" "chan_closed (Client_send (client h c))" "r = Inl (GoPanic ''send on closed channel'')"
      "h' = h"
proof (cases "good (hub_run a) h")
  case True
  then show ?thesis using assms(3) ok by (auto elim: goodE)
next
  case False
  with hub_run_good [OF assms(1,2)] obtain p c where a: "a = Replay p c" by blast
  with False assms(1,2) Client_Send_open [of h c p] have closed: "chan_closed (Client_send (client h c))" by auto
  then have "hub_run a h = (Inl (GoPanic ''send on closed channel''), h)" using a by (simp add: Client_Send_closed)
  with a closed assms(3) panic show ?thesis by simp
qed

lemma hub_ok_new: "hub_ok NewHub"
  by (simp add: hub_ok_def NewHub_def)

lemma hub_reach_ok: "hub_reach h \<Longrightarrow> hub_ok h"
proof (induction rule: hub_reach.induct)
  case start
  show ?case by (rule hub_ok_new)
next
  case (step h a r h')
  show ?case using step(4,2,3) by (cases rule: hub_run_cases) (auto simp: step(4))
qed

section \<open>Properties\<close>

text \<open>
  C21. In every run of the hub, with any number of connections, pushes, pump rounds and failing writes, in
  any interleaving, no operation of the hub sends on a closed channel or closes one twice, and the
  invariant holds afterwards: a subscribed client is known, its channel open, its queue within
  \<open>sendBuffer\<close>. The one operation that can panic is \<open>Client.Send\<close> of the replay, when the hub has closed the
  client before.
\<close>

theorem hub_never_panics:
  assumes "hub_reach h" and "hub_enabled a h"
  shows "case hub_run a h of
      (Inr _, h') \<Rightarrow> hub_ok h'
    | (Inl e, h') \<Rightarrow> h' = h \<and> (\<exists>p c. a = Replay p c \<and> chan_closed (Client_send (client h c)))"
proof -
  obtain r h' where run: "hub_run a h = (r, h')" by (cases "hub_run a h")
  show ?thesis
    unfolding run using hub_reach_ok [OF assms(1)] assms(2) run by (cases rule: hub_run_cases) auto
qed

definition sample_hub :: Hub where
  "sample_hub = snd (hub_run (Connect True 2) (snd (hub_run (Connect True 2) NewHub)))"

lemma sample_hub_reach: "hub_reach sample_hub"
  unfolding sample_hub_def
  by (intro hub_reach.step [where a = "Connect True 2", OF _ _ surjective_pairing] hub_reach.start) simp_all

theorem hub_never_panics_witness:
  "hub_reach sample_hub \<and> length (subscribers sample_hub 2) = 2 \<and>
   (case hub_run (Push True True id 2 ''paid'') sample_hub of (Inr _, h') \<Rightarrow> hub_ok h' | (Inl _, _) \<Rightarrow> False)"
proof -
  have "length (subscribers sample_hub 2) = 2" by code_simp
  then show ?thesis
    using sample_hub_reach hub_never_panics [OF sample_hub_reach, of "Push True True id 2 ''paid''"]
    by (auto split: prod.splits sum.splits)
qed

text \<open>
  C22. \<open>Notify\<close> on a running hub reports whether some subscriber of the order had room in its queue. Every
  subscriber with room gets the payload at the end of its queue; every other one is a slow consumer: its
  channel is closed and it is unsubscribed. No other client and no other order changes, whatever the
  iteration order.
\<close>

theorem Notify_outcome:
  assumes "hub_ok h" and "Hub_running h" and "\<not> Hub_done h"
  shows "\<exists>h'. hub_Notify win pick rank oid p h = (Inr (list_ex (room h) (subscribers h oid)), h') \<and> hub_ok h' \<and>
    (\<forall>k. client h' k =
       (if k \<in> set (subscribers h oid) then (if room h k then push_client p else close_client) (client h k) else client h k)) \<and>
    (\<forall>k. subscribers h' k = (if k = oid then filter (room h) (subscribers h oid) else subscribers h k))"
proof -
  let ?cs = "sort_key rank (subscribers h oid)"
  obtain h' where h': "fan_out p ?cs False h = (Inr (list_ex (room h) ?cs), h')" "hub_ok h'" "Hub_done h' = Hub_done h"
    "\<forall>k. client h' k = pushed p ?cs h k"
    "\<forall>k. subscribers h' k =
       (if k = oid then filter (\<lambda>c. c \<in> set ?cs \<longrightarrow> room h c) (subscribers h oid) else subscribers h k)"
    using fan_out_run [OF assms(1,2), of ?cs oid p False] hub_ok_distinct [OF assms(1)] by auto
  have "filter (\<lambda>c. c \<in> set ?cs \<longrightarrow> room h c) (subscribers h oid) = filter (room h) (subscribers h oid)"
    by (rule filter_cong) auto
  moreover have "hub_Notify win pick rank oid p h = (Inr (list_ex (room h) (subscribers h oid)), h')"
    using h'(1,3) assms(2,3) by (simp add: hub_Notify_def served_def hub_outbound_def bindE_def list_ex_iff)
  ultimately show ?thesis using h'(2,4,5) by (auto simp: pushed_def)
qed

theorem Notify_outcome_witness:
  "Hub_running sample_hub \<and> \<not> Hub_done sample_hub \<and>
   (\<exists>h'. hub_Notify True True id 2 ''paid'' sample_hub = (Inr True, h') \<and> stream (client h' 0) = [''paid''])"
proof -
  have s: "Hub_running sample_hub" "\<not> Hub_done sample_hub" "list_ex (room sample_hub) (subscribers sample_hub 2)"
    "0 \<in> set (subscribers sample_hub 2)" "room sample_hub 0" "stream (push_client ''paid'' (client sample_hub 0)) = [''paid'']"
    by code_simp+
  then show ?thesis
    using Notify_outcome [OF hub_reach_ok [OF sample_hub_reach] s(1,2), of True True id 2 "''paid''"] by auto
qed

definition hub_step :: "Hub \<Rightarrow> Hub \<Rightarrow> bool" where
  "hub_step h h' \<longleftrightarrow> (\<exists>a r. hub_enabled a h \<and> hub_run a h = (r, h'))"

lemma hub_steps_evolve:
  assumes "hub_step\<^sup>*\<^sup>* h h'" and "hub_ok h"
  shows "hub_ok h' \<and> evolves h h'"
  using assms
proof (induction rule: rtranclp_induct)
  case (step g h')
  then obtain a r where "hub_enabled a g" "hub_run a g = (r, h')" by (auto simp: hub_step_def)
  with step have "hub_ok h' \<and> evolves g h'" by (auto elim: hub_run_cases [where h = g and a = a])
  with step show ?case by (auto intro: evolves_trans)
qed simp

text \<open>
  C23. Over any run of the hub, a client whose write pump is still running has been given what it had been
  given before, followed by what was queued since: payloads are written in the order in which they were
  pushed, none is lost, duplicated or overtaken.
\<close>

theorem hub_in_order:
  assumes "hub_reach h" and "hub_step\<^sup>*\<^sup>* h h'" and "k < length (Hub_heap h)" and "Client_pumping (client h' k)"
  shows "prefix (stream (client h k)) (stream (client h' k))"
  using hub_steps_evolve [OF assms(2) hub_reach_ok [OF assms(1)]] assms(3,4)
  by (simp add: evolves_def client_moves_def)

definition sample_pushed :: Hub where
  "sample_pushed = snd (hub_run (Pump True True 0) (snd (hub_run (Push True True id 2 ''paid'') sample_hub)))"

theorem hub_in_order_witness:
  "prefix (stream (client sample_hub 0)) (stream (client sample_pushed 0)) \<and>
   stream (client sample_pushed 0) = [''paid'']"
proof -
  let ?g = "snd (hub_run (Push True True id 2 ''paid'') sample_hub)"
  have en: "hub_enabled (Pump True True 0) ?g" "Client_pumping (client sample_pushed 0)" "0 < length (Hub_heap sample_hub)"
    "stream (client sample_pushed 0) = [''paid'']"
    by code_simp+
  have "hub_step sample_hub ?g"
    unfolding hub_step_def by (rule exI [of _ "Push True True id 2 ''paid''"]) (auto intro: surjective_pairing)
  moreover have "hub_step ?g sample_pushed"
    unfolding hub_step_def sample_pushed_def using en(1) surjective_pairing by blast
  ultimately have "hub_step\<^sup>*\<^sup>* sample_hub sample_pushed" by (meson r_into_rtranclp rtranclp_trans)
  with en show ?thesis using hub_in_order [OF sample_hub_reach] by blast
qed

text \<open>
  C24. The replay of stored notifications can panic: there is a run in which a client connects, the first
  ping to its dead peer fails, the pump unregisters the client, the hub closes its channel, and the
  handler, which only then reads the notifications to replay, sends on the closed channel.
\<close>

theorem replay_can_panic:
  "\<exists>h c. hub_reach h \<and> hub_enabled (Replay p c) h \<and>
     hub_run (Replay p c) h = (Inl (GoPanic ''send on closed channel''), h)"
proof -
  let ?a = "Tick True False 0"
  let ?h = "snd (hub_run ?a sample_hub)"
  have en: "hub_enabled ?a sample_hub" "0 < length (Hub_heap ?h)" "chan_closed (Client_send (client ?h 0))"
    by code_simp+
  have "hub_reach ?h" by (rule hub_reach.step [OF sample_hub_reach en(1) surjective_pairing])
  with en show ?thesis by (intro exI [of _ ?h] exI [of _ 0]) (simp add: Client_Send_closed)
qed

section \<open>The contract of the hub\<close>

text \<open>
  What the notification service relies on: \<open>Notify\<close> returns, without a panic, and keeps the hub's
  invariant.
\<close>

locale notifier =
  fixes Notify :: "int \<Rightarrow> string \<Rightarrow> ('h, go_error, bool) prog"
    and hub_inv :: "'h \<Rightarrow> bool"
  assumes notify_returns: "hub_inv h \<Longrightarrow> \<exists>b h'. Notify orderID payload h = (Inr b, h') \<and> hub_inv h'"

interpretation hub: notifier "hub_Notify win pick rank" hub_ok for win pick rank
proof
  fix h oid p
  assume "hub_ok h"
  then have "good (hub_Notify win pick rank oid p) h" by (rule hub_Notify_good)
  then show "\<exists>b h'. hub_Notify win pick rank oid p h = (Inr b, h') \<and> hub_ok h'" by (auto elim: goodE)
qed

end
