(* ===== verification/Notification.thy ===== *)
theory Notification
  imports OrderSettling Hub
begin

text \<open>
  Notifications: the repository (\<open>internal/repository/notification.go\<close>), the envelope pushed to clients
  (\<open>internal/dto/notification.go\<close>) and the service that records and delivers one
  (\<open>internal/services/notification.go\<close>). The service runs on the database and on any \<open>notifier\<close>.
\<close>

section \<open>Repository\<close>

definition insert_notification :: "time \<Rightarrow> Notification \<Rightarrow> Notification dbm" where
  "insert_notification now n =
     (let n1 = n\<lparr>Notification_CreatedAt := auto_time now (Notification_CreatedAt n)\<rparr>
      in stmt [Notification_OrderID n]
        (bindE (nextval T_notifications) (\<lambda>i.
         bindE (\<lambda>d. require_that (list_ex (\<lambda>r. Order_ID r = Notification_OrderID n) (orders (tbl d)))
                     ErrForeignKeyViolated d) (\<lambda>_.
         \<lambda>d. (Inr (n1\<lparr>Notification_ID := i\<rparr>),
              upd_tbl (\<lambda>t. t\<lparr>notifications := notifications t @ [n1\<lparr>Notification_ID := i\<rparr>]\<rparr>) d)))))"

text \<open>\<open>Create\<close>: gorm's own transaction around the insert.\<close>

definition repo_CreateNotification :: "time \<Rightarrow> Notification \<Rightarrow> Notification dbm" where
  "repo_CreateNotification now n = transaction (insert_notification now n)"

definition exec_mark :: "(time \<Rightarrow> Notification \<Rightarrow> Notification) \<Rightarrow> int \<Rightarrow> unit dbm" where
  "exec_mark f i =
     bindE (autocommit [i] (\<lambda>d. on_table notifications put_notifications
         (sql_update (\<lambda>r. Notification_ID r = i) (f (pg_now d)) no_check) d))
       (\<lambda>_. ret ())"

definition MarkSent :: "int \<Rightarrow> unit dbm" where
  "MarkSent = exec_mark (\<lambda>now r. r\<lparr>Notification_Status := NotificationStatusSent, Notification_SentAt := Some now\<rparr>)"

definition MarkFailed :: "int \<Rightarrow> unit dbm" where
  "MarkFailed = exec_mark (\<lambda>now r. r\<lparr>Notification_Status := NotificationStatusFailed\<rparr>)"

definition ListByOrder :: "int \<Rightarrow> Notification list dbm" where
  "ListByOrder orderID =
     query [orderID] (\<lambda>t. sort_key Notification_ID
       (filter (\<lambda>r. Notification_OrderID r = orderID) (notifications t)))"

section \<open>The envelope\<close>

record NotificationEvent =
  Event_ID :: int
  Event_OrderID :: int
  Event_Message :: string

definition NewNotificationEvent :: "Notification \<Rightarrow> NotificationEvent" where
  "NewNotificationEvent n =
     \<lparr>Event_ID = Notification_ID n, Event_OrderID = Notification_OrderID n, Event_Message = Notification_Message n\<rparr>"

text \<open>
  \<open>encoding/json\<close> on a string: quotes, backslashes, control characters and the three characters that
  HTML treats specially are escaped. Bytes from \<open>0x80\<close> on are copied, as Go does for valid UTF-8; the
  messages of the code are ASCII.
\<close>

definition json_hex :: "nat \<Rightarrow> char" where
  "json_hex n = (if n < 10 then char_of (48 + n) else char_of (87 + n))"

definition json_char :: "char \<Rightarrow> string" where
  "json_char c =
     (let n = of_char c :: nat in
      if n = 0x22 \<or> n = 0x5C then [CHR 0x5C, c]
      else if n = 0x08 then [CHR 0x5C, CHR ''b'']
      else if n = 0x0C then [CHR 0x5C, CHR ''f'']
      else if n = 0x0A then [CHR 0x5C, CHR ''n'']
      else if n = 0x0D then [CHR 0x5C, CHR ''r'']
      else if n = 0x09 then [CHR 0x5C, CHR ''t'']
      else if n < 0x20 \<or> n = 0x3C \<or> n = 0x3E \<or> n = 0x26
        then [CHR 0x5C, CHR ''u'', CHR ''0'', CHR ''0'', json_hex (n div 16), json_hex (n mod 16)]
      else [c])"

definition json_string :: "string \<Rightarrow> string" where
  "json_string s = CHR 0x22 # concat (map json_char s) @ [CHR 0x22]"

definition json_field :: "string \<Rightarrow> string \<Rightarrow> string" where
  "json_field k v = json_string k @ CHR '':'' # v"

definition Event_JSON :: "NotificationEvent \<Rightarrow> string" where
  "Event_JSON e =
     CHR 0x7B # json_field ''id'' (Itoa (Event_ID e)) @ CHR '','' #
     json_field ''order_id'' (Itoa (Event_OrderID e)) @ CHR '','' #
     json_field ''message'' (json_string (Event_Message e)) @ [CHR 0x7D]"

section \<open>The service\<close>

definition pending_notification :: "int \<Rightarrow> string \<Rightarrow> Notification" where
  "pending_notification orderID message =
     \<lparr>Notification_ID = 0, Notification_OrderID = orderID, Notification_Message = message,
      Notification_Status = NotificationStatusPending, Notification_CreatedAt = 0, Notification_SentAt = None\<rparr>"

text \<open>
  \<open>Send\<close> returns nothing; its errors are logged. A panic of the notifier would unwind it.
\<close>

definition svc_Send ::
  "(int \<Rightarrow> string \<Rightarrow> ('h, go_error, bool) prog) \<Rightarrow> time \<Rightarrow> int \<Rightarrow> string \<Rightarrow> (pg \<times> 'h, go_error, unit) prog"
where
  "svc_Send Notify now orderID message w =
     (case repo_CreateNotification now (pending_notification orderID message) (fst w) of
        (Inl e, d) \<Rightarrow> (Inr (), (d, snd w))
      | (Inr n, d) \<Rightarrow>
          (case Notify orderID (Event_JSON (NewNotificationEvent n)) (snd w) of
             (Inl e, h) \<Rightarrow> (Inl e, (d, h))
           | (Inr delivered, h) \<Rightarrow>
               let (r, d') = (if delivered then MarkSent (Notification_ID n) d else MarkFailed (Notification_ID n) d)
               in (Inr (), (d', h))))"

section \<open>Laws\<close>

lemma seq_grows_insert_notification [simp, intro]: "seq_grows (insert_notification now n)"
  unfolding insert_notification_def Let_def by (intro seq_grows_intros)

lemma insert_notification_Inr:
  assumes "insert_notification now n d = (Inr n', d')"
  shows "tbl d' = (tbl d)\<lparr>notifications := notifications (tbl d) @ [n']\<rparr>"
    and "seq d' = (seq d)(T_notifications := seq d T_notifications + 1)"
    and "n' = n\<lparr>Notification_CreatedAt := auto_time now (Notification_CreatedAt n), Notification_ID := seq d T_notifications\<rparr>"
    and "Notification_OrderID n \<in> set (map Order_ID (orders (tbl d)))"
    and "replies d = [] \<Longrightarrow> replies d' = []" and "pg_now d' = pg_now d"
proof -
  from assms obtain d1 where d1: "same d d1" and body:
    "bindE (nextval T_notifications) (\<lambda>i.
         bindE (\<lambda>d. require_that (list_ex (\<lambda>r. Order_ID r = Notification_OrderID n) (orders (tbl d))) ErrForeignKeyViolated d) (\<lambda>_.
         \<lambda>d. (Inr (n\<lparr>Notification_CreatedAt := auto_time now (Notification_CreatedAt n), Notification_ID := i\<rparr>),
              upd_tbl (\<lambda>t. t\<lparr>notifications := notifications t @
                [n\<lparr>Notification_CreatedAt := auto_time now (Notification_CreatedAt n), Notification_ID := i\<rparr>]\<rparr>) d))) d1 = (Inr n', d')"
    unfolding insert_notification_def Let_def by (auto dest!: stmt_Inr)
  then have res: "tbl d' = (tbl d1)\<lparr>notifications := notifications (tbl d1) @ [n']\<rparr>"
    "seq d' = (seq d1)(T_notifications := seq d1 T_notifications + 1)"
    "n' = n\<lparr>Notification_CreatedAt := auto_time now (Notification_CreatedAt n), Notification_ID := seq d1 T_notifications\<rparr>"
    "Notification_OrderID n \<in> set (map Order_ID (orders (tbl d1)))" "replies d' = replies d1" "pg_now d' = pg_now d1"
    by (auto simp: bindE_def nextval_def require_that_def ret_def raise_def sql split: if_splits)
  then show "tbl d' = (tbl d)\<lparr>notifications := notifications (tbl d) @ [n']\<rparr>"
    "seq d' = (seq d)(T_notifications := seq d T_notifications + 1)"
    "n' = n\<lparr>Notification_CreatedAt := auto_time now (Notification_CreatedAt n), Notification_ID := seq d T_notifications\<rparr>"
    "Notification_OrderID n \<in> set (map Order_ID (orders (tbl d)))" "pg_now d' = pg_now d"
    using d1 by simp_all
  show "replies d' = []" if "replies d = []"
    using assms that by (auto simp: insert_notification_def Let_def stmt_def bindE_def nextval_def require_that_def
        ret_def raise_def split: if_splits)
qed

text \<open>What \<open>Send\<close> may change: at most one row, of this order and with this message, is added.\<close>

definition note_added :: "int \<Rightarrow> string \<Rightarrow> tables \<Rightarrow> tables \<Rightarrow> bool" where
  "note_added oid msg t t' \<longleftrightarrow> t' = t\<lparr>notifications := notifications t'\<rparr> \<and>
     (notifications t' = notifications t \<or>
      (\<exists>n. notifications t' = notifications t @ [n] \<and> Notification_OrderID n = oid \<and> Notification_Message n = msg))"

lemma note_added_same [simp]: "note_added oid msg t t"
  by (simp add: note_added_def)

lemma note_added_put:
  "note_added oid msg t (t\<lparr>notifications := notifications t @ [n]\<rparr>) \<longleftrightarrow>
     Notification_OrderID n = oid \<and> Notification_Message n = msg"
  by (auto simp: note_added_def)

lemma note_added_frame:
  assumes "note_added oid msg t t'"
  shows "users t' = users t" "products t' = products t" "inventory t' = inventory t" "orders t' = orders t"
    "order_items t' = order_items t" "payments t' = payments t" "units t' p = units t p" "later t t'"
proof -
  from assms have t': "t' = t\<lparr>notifications := notifications t'\<rparr>" by (simp add: note_added_def)
  show "users t' = users t" "products t' = products t" "inventory t' = inventory t" "orders t' = orders t"
    "order_items t' = order_items t" "payments t' = payments t"
    by (subst t', simp)+
  then show "units t' p = units t p" "later t t'"
    using later_refl [of t, unfolded later_def] by (simp_all add: units_def allocated_def later_def)
qed

lemma wf_notes:
  assumes "wf_db d" and "seq d \<le> seq d'" and "tbl d' = (tbl d)\<lparr>notifications := ns\<rparr>"
    and "wf_notifications (seq d' T_notifications) (set (map Order_ID (orders (tbl d)))) ns"
  shows "wf_db d'"
proof -
  have "wf_tables (seq d') (tbl d)" using assms(1,2) by (simp add: wf_db_def wf_tables_mono)
  then show ?thesis using assms(3,4) by (simp add: wf_db_def wf_tables_def)
qed

lemma insert_notification_wf:
  assumes "wf_db d" and "insert_notification now n d = (Inr n', d')"
  shows "wf_db d'"
proof -
  note I = insert_notification_Inr [OF assms(2)]
  have "wf_notifications (seq d T_notifications) (set (map Order_ID (orders (tbl d)))) (notifications (tbl d))"
    using assms(1) by (simp add: wf_db_def wf_tables_def)
  then have "wf_notifications (seq d' T_notifications) (set (map Order_ID (orders (tbl d)))) (notifications (tbl d) @ [n'])"
    using I(2,3,4) by (auto simp: wf_notifications_def intro!: ids_ok_snoc)
  then show ?thesis using assms(1) I(1,2) by (intro wf_notes [of d d']) (auto simp: le_fun_def)
qed

lemma CreateNotification_keeps:
  assumes "wf_db d" and res: "repo_CreateNotification now (pending_notification oid msg) d = (r, d')"
  shows "wf_db d'" and "note_added oid msg (tbl d) (tbl d')"
proof -
  show "wf_db d'"
    using insert_notification_wf seq_grows_insert_notification assms unfolding repo_CreateNotification_def
    by (rule wf_transaction)
  show "note_added oid msg (tbl d) (tbl d')"
    using res unfolding repo_CreateNotification_def
  proof (rule transaction_tables [where R = "note_added oid msg"])
    fix d1 x d2
    assume "same d d1" "insert_notification now (pending_notification oid msg) d1 = (Inr x, d2)"
    then show "note_added oid msg (tbl d) (tbl d2)"
      using insert_notification_Inr [of now "pending_notification oid msg" d1 x d2]
      by (simp add: note_added_put pending_notification_def)
  qed simp
qed

lemma CreateNotification_Inr:
  assumes "repo_CreateNotification now n d = (Inr n', d')"
  shows "tbl d' = (tbl d)\<lparr>notifications := notifications (tbl d) @ [n']\<rparr>"
    and "Notification_ID n' = seq d T_notifications" and "seq d' = (seq d)(T_notifications := seq d T_notifications + 1)"
    and "n' = n\<lparr>Notification_CreatedAt := auto_time now (Notification_CreatedAt n), Notification_ID := seq d T_notifications\<rparr>"
    and "pg_now d' = pg_now d"
proof -
  from assms obtain d1 d2 where d: "same d d1" "same d2 d'" and i: "insert_notification now n d1 = (Inr n', d2)"
    unfolding repo_CreateNotification_def by (rule transaction_Inr)
  note I = insert_notification_Inr [OF i]
  show "tbl d' = (tbl d)\<lparr>notifications := notifications (tbl d) @ [n']\<rparr>"
    "Notification_ID n' = seq d T_notifications" "seq d' = (seq d)(T_notifications := seq d T_notifications + 1)"
    "n' = n\<lparr>Notification_CreatedAt := auto_time now (Notification_CreatedAt n), Notification_ID := seq d T_notifications\<rparr>"
    "pg_now d' = pg_now d"
    using I d by simp_all
qed

text \<open>Marking a row changes this row only, and the row of a fresh identity is the last one.\<close>

lemma exec_mark_tables:
  assumes "exec_mark f i d = (r, d')"
  shows "seq d' = seq d" and "tbl d' = tbl d \<or>
    tbl d' = (tbl d)\<lparr>notifications := upd_where (\<lambda>r. Notification_ID r = i) (f (pg_now d)) (notifications (tbl d))\<rparr>"
proof -
  obtain q d1 where q: "next_reply d = (q, d1)" by (cases "next_reply d")
  have d1: "same d d1" using q by (rule next_reply_same)
  have no: "find (\<lambda>r. P r \<and> no_check (g r) \<noteq> None) rs = None" for P and g :: "Notification \<Rightarrow> Notification" and rs
    by (induction rs) (auto simp: no_check_def)
  have run: "seq d' = seq d1 \<and> (tbl d' = tbl d1 \<or>
      tbl d' = (tbl d1)\<lparr>notifications := upd_where (\<lambda>r. Notification_ID r = i) (f (pg_now d1)) (notifications (tbl d1))\<rparr>)"
    using assms q unfolding exec_mark_def autocommit_def on_table_def sql_update_def no bindE_def
    by (cases q) (auto simp: ret_def put_notifications_def split: if_splits)
  with d1 show "seq d' = seq d" "tbl d' = tbl d \<or>
    tbl d' = (tbl d)\<lparr>notifications := upd_where (\<lambda>r. Notification_ID r = i) (f (pg_now d)) (notifications (tbl d))\<rparr>"
    by simp_all
qed

lemma exec_mark_wf:
  assumes "wf_db d" and "exec_mark f i d = (r, d')"
    and "\<And>now r. Notification_ID (f now r) = Notification_ID r" "\<And>now r. Notification_OrderID (f now r) = Notification_OrderID r"
  shows "wf_db d'"
proof -
  have wf: "wf_notifications (seq d T_notifications) (set (map Order_ID (orders (tbl d)))) (notifications (tbl d))"
    using assms(1) by (simp add: wf_db_def wf_tables_def)
  let ?ns = "upd_where (\<lambda>r. Notification_ID r = i) (f (pg_now d)) (notifications (tbl d))"
  have "Notification_OrderID r \<in> set (map Order_ID (orders (tbl d)))" if "r \<in> set ?ns" for r
    using that wf assms(4) by (auto simp: wf_notifications_def sql)
  then have "wf_notifications (seq d T_notifications) (set (map Order_ID (orders (tbl d)))) ?ns"
    using wf assms(3) by (simp add: wf_notifications_def)
  with exec_mark_tables [OF assms(2)] show ?thesis
    using assms(1) wf_grow [OF assms(1), of d'] wf_notes [OF assms(1), of d' ?ns] by auto
qed

lemma exec_mark_last:
  assumes "exec_mark f i d = (r, d')" and "notifications (tbl d) = ns @ [n]" and "Notification_ID n = i"
    and "\<forall>x \<in> set ns. Notification_ID x \<noteq> i"
  shows "tbl d' = tbl d \<or> tbl d' = (tbl d)\<lparr>notifications := ns @ [f (pg_now d) n]\<rparr>"
proof -
  have "upd_where (\<lambda>r. Notification_ID r = i) (f (pg_now d)) ns = ns"
    using assms(4) by (intro upd_where_none) (simp add: hits_0_iff)
  then show ?thesis using exec_mark_tables(2) [OF assms(1)] assms(2,3) by (auto simp: upd_where_def)
qed

lemma note_fresh: "wf_db d \<Longrightarrow> x \<in> set (notifications (tbl d)) \<Longrightarrow> Notification_ID x < seq d T_notifications"
  by (simp add: wf_db_def wf_tables_def wf_notifications_def ids_ok_def)

lemma note_ids: "wf_db d \<Longrightarrow> distinct (map Notification_ID (notifications (tbl d)))"
  by (simp add: wf_db_def wf_tables_def wf_notifications_def ids_ok_def)

text \<open>The row after \<open>MarkSent\<close> or \<open>MarkFailed\<close>.\<close>

definition marked :: "bool \<Rightarrow> time \<Rightarrow> Notification \<Rightarrow> Notification" where
  "marked b now r =
     (if b then r\<lparr>Notification_Status := NotificationStatusSent, Notification_SentAt := Some now\<rparr>
      else r\<lparr>Notification_Status := NotificationStatusFailed\<rparr>)"

lemma marked_sel [simp]:
  "Notification_ID (marked b now r) = Notification_ID r" "Notification_OrderID (marked b now r) = Notification_OrderID r"
  "Notification_Message (marked b now r) = Notification_Message r"
  by (simp_all add: marked_def)

lemma svc_Send_marked:
  assumes "repo_CreateNotification now (pending_notification oid msg) d = (Inr n, d1)"
    and "Notify oid (Event_JSON (NewNotificationEvent n)) h = (Inr b, h1)"
  shows "svc_Send Notify now oid msg (d, h) = (Inr (), (snd (exec_mark (marked b) (Notification_ID n) d1), h1))"
  using assms
  by (cases b; cases "exec_mark (marked b) (Notification_ID n) d1")
    (simp_all add: svc_Send_def MarkSent_def MarkFailed_def marked_def [abs_def])

context notifier
begin

lemma send_returns:
  assumes "hub_inv h" and "wf_db d"
  shows "\<exists>d' h'. svc_Send Notify now oid msg (d, h) = (Inr (), (d', h')) \<and> hub_inv h' \<and> wf_db d' \<and>
    note_added oid msg (tbl d) (tbl d')"
proof -
  let ?n = "pending_notification oid msg"
  obtain r d1 where cr: "repo_CreateNotification now ?n d = (r, d1)" by (cases "repo_CreateNotification now ?n d")
  note K = CreateNotification_keeps [OF assms(2) cr]
  show ?thesis
  proof (cases r)
    case (Inl e)
    then show ?thesis using cr K assms(1) by (simp add: svc_Send_def)
  next
    case (Inr n)
    note C = CreateNotification_Inr [OF cr [unfolded Inr]]
    obtain b h1 where h1: "Notify oid (Event_JSON (NewNotificationEvent n)) h = (Inr b, h1)" "hub_inv h1"
      using notify_returns [OF assms(1)] by blast
    obtain q d2 where m: "exec_mark (marked b) (Notification_ID n) d1 = (q, d2)"
      by (cases "exec_mark (marked b) (Notification_ID n) d1")
    have "svc_Send Notify now oid msg (d, h) = (Inr (), (d2, h1))"
      using cr Inr h1(1) m by (simp add: svc_Send_marked)
    moreover have "wf_db d2" using K(1) m by (rule exec_mark_wf) (simp_all add: marked_def)
    moreover have "note_added oid msg (tbl d) (tbl d2)"
    proof -
      have "\<forall>x \<in> set (notifications (tbl d)). Notification_ID x \<noteq> Notification_ID n"
        unfolding C(2) by (intro ballI less_imp_neq note_fresh [OF assms(2)])
      moreover have "notifications (tbl d1) = notifications (tbl d) @ [n]" using C(1) by simp
      ultimately have "tbl d2 = tbl d1 \<or> tbl d2 = (tbl d1)\<lparr>notifications := notifications (tbl d) @ [marked b (pg_now d1) n]\<rparr>"
        using exec_mark_last [OF m] by blast
      moreover have "Notification_OrderID n = oid \<and> Notification_Message n = msg"
        using C(4) by (simp add: pending_notification_def)
      ultimately show ?thesis using C(1) by (elim disjE) (simp_all add: note_added_put marked_def)
    qed
    ultimately show ?thesis using h1(2) by blast
  qed
qed

end

section \<open>Properties\<close>

text \<open>
  \<open>Send\<close> is best effort and never in the way: whatever the connection does and whatever state the hub
  is in, it returns without a panic, keeps the database and the hub well formed, leaves every order,
  payment and inventory row alone, and adds at most one notification, of this order and with this message.
\<close>

theorem Send_safe:
  assumes "hub_ok h" and "wf_db d"
  shows "\<exists>d' h'. svc_Send (hub_Notify win pick rank) now oid msg (d, h) = (Inr (), (d', h')) \<and> hub_ok h' \<and> wf_db d' \<and>
    note_added oid msg (tbl d) (tbl d')"
  using assms by (rule hub.send_returns)

theorem Send_safe_witness:
  "hub_ok NewHub \<and> wf_db sample_db \<and>
   (\<exists>d' h'. svc_Send (hub_Notify True True id) 60 2 ''hi'' (sample_db\<lparr>replies := [Ok, Fail ''gone'']\<rparr>, NewHub) = (Inr (), (d', h')) \<and>
      wf_db d')"
proof -
  have "wf_db (sample_db\<lparr>replies := [Ok, Fail ''gone'']\<rparr>)" by code_simp
  from Send_safe [OF hub_ok_new this] show ?thesis using hub_ok_new wf_sample by blast
qed

lemma CreateNotification_ok:
  assumes "replies d = []" and "int4 oid" and "oid \<in> set (map Order_ID (orders (tbl d)))" and "int4 (seq d T_notifications)"
  shows "\<exists>n d'. repo_CreateNotification now (pending_notification oid msg) d = (Inr n, d') \<and> replies d' = []"
proof -
  have "\<exists>n d'. insert_notification now (pending_notification oid msg) d = (Inr n, d')"
    using assms by (simp add: insert_notification_def Let_def stmt_ok bindE_def nextval_def require_that_def ret_def
        pending_notification_def sql)
  then obtain n d' where i: "insert_notification now (pending_notification oid msg) d = (Inr n, d')" by blast
  note r = insert_notification_Inr(5) [OF i assms(1)]
  show ?thesis
    unfolding repo_CreateNotification_def
    using transaction_no_faults [where body = "insert_notification now (pending_notification oid msg)", OF assms(1) i r] r
    by simp
qed

lemma exec_mark_ok:
  assumes "replies d = []" and "int4 i" and "notifications (tbl d) = ns @ [n]" and "Notification_ID n = i"
    and "\<forall>x \<in> set ns. Notification_ID x \<noteq> i"
  shows "exec_mark f i d = (Inr (), d\<lparr>tbl := (tbl d)\<lparr>notifications := ns @ [f (pg_now d) n]\<rparr>\<rparr>)"
proof -
  have "upd_where (\<lambda>r. Notification_ID r = i) (f (pg_now d)) ns = ns"
    using assms(5) by (intro upd_where_none) (simp add: hits_0_iff)
  moreover have "find (\<lambda>r. Notification_ID r = i \<and> no_check (f (pg_now d) r) \<noteq> None) (ns @ [n]) = None"
    by (simp add: find_None_iff no_check_def)
  ultimately show ?thesis
    using assms(1-4) by (simp add: exec_mark_def autocommit_def on_table_def sql_update_def bindE_def ret_def
        put_notifications_def upd_where_def)
qed

lemma sort_snoc:
  assumes "distinct (map Notification_ID ns)" and "\<forall>x \<in> set ns. Notification_ID x < Notification_ID n" and "P n"
  shows "sort_key Notification_ID (filter P (ns @ [n])) = sort_key Notification_ID (filter P ns) @ [n]"
proof (rule sorted_key_unique [where k = Notification_ID])
  show "sorted (map Notification_ID (sort_key Notification_ID (filter P ns) @ [n]))"
    using assms(2) by (auto simp: sorted_append)
  have "distinct (map Notification_ID (ns @ [n]))" using assms(1,2) by auto
  then have "distinct (map Notification_ID (filter P (ns @ [n])))" by (rule distinct_map_filter)
  then show "distinct (map Notification_ID (sort_key Notification_ID (filter P (ns @ [n]))))"
    unfolding distinct_map distinct_sort set_sort .
qed (use assms(3) in simp_all)

lemma Send_ok:
  assumes "replies d = []" and "wf_db d" and "int4 oid" and "oid \<in> set (map Order_ID (orders (tbl d)))"
    and "int4 (seq d T_notifications)" and "hub_ok h"
  obtains n b d' h' where "svc_Send (hub_Notify win pick rank) now oid msg (d, h) = (Inr (), (d', h'))"
    "hub_Notify win pick rank oid (Event_JSON (NewNotificationEvent n)) h = (Inr b, h')"
    "tbl d' = (tbl d)\<lparr>notifications := notifications (tbl d) @ [n]\<rparr>" "Notification_ID n = seq d T_notifications"
    "Notification_OrderID n = oid" "Notification_Message n = msg"
    "Notification_Status n = (if b then NotificationStatusSent else NotificationStatusFailed)"
    "Notification_SentAt n = (if b then Some (pg_now d) else None)" "replies d' = []"
proof -
  obtain n d1 where cr: "repo_CreateNotification now (pending_notification oid msg) d = (Inr n, d1)" and r1: "replies d1 = []"
    using CreateNotification_ok [OF assms(1,3,4,5)] by blast
  note C = CreateNotification_Inr [OF cr]
  have n: "Notification_OrderID n = oid" "Notification_Message n = msg" "Notification_SentAt n = None"
    using C(4) by (simp_all add: pending_notification_def)
  obtain b h1 where h1: "hub_Notify win pick rank oid (Event_JSON (NewNotificationEvent n)) h = (Inr b, h1)"
    using hub.notify_returns [OF assms(6)] by blast
  let ?n = "marked b (pg_now d1) n"
  let ?d = "d1\<lparr>tbl := (tbl d1)\<lparr>notifications := notifications (tbl d) @ [?n]\<rparr>\<rparr>"
  have "notifications (tbl d1) = notifications (tbl d) @ [n]" using C(1) by simp
  moreover have "int4 (Notification_ID n)" using assms(5) C(2) by simp
  moreover have "\<forall>x \<in> set (notifications (tbl d)). Notification_ID x \<noteq> Notification_ID n"
    unfolding C(2) by (intro ballI less_imp_neq note_fresh [OF assms(2)])
  ultimately have "exec_mark (marked b) (Notification_ID n) d1 = (Inr (), ?d)"
    using r1 by (intro exec_mark_ok) simp_all
  then have "svc_Send (hub_Notify win pick rank) now oid msg (d, h) = (Inr (), (?d, h1))"
    using cr h1 by (simp add: svc_Send_marked)
  moreover have "hub_Notify win pick rank oid (Event_JSON (NewNotificationEvent ?n)) h = (Inr b, h1)"
    using h1 by (simp add: NewNotificationEvent_def)
  moreover have "tbl ?d = (tbl d)\<lparr>notifications := notifications (tbl d) @ [?n]\<rparr>" by (simp add: C(1))
  ultimately show ?thesis using that [of ?d h1 ?n b] n C(2,5) r1 by (simp add: marked_def)
qed

text \<open>
  C25. With the database answering, \<open>Send\<close> for an existing order stores one notification with the message,
  marked sent with the time when \<open>Notify\<close> reports delivery and failed otherwise, and pushes the JSON of
  the stored row; and \<open>ListByOrder\<close> then replays the order's earlier notifications, oldest first, followed
  by this one.
\<close>

theorem Send_replayed:
  assumes "replies d = []" and "wf_db d" and "int4 oid" and "oid \<in> set (map Order_ID (orders (tbl d)))"
    and "int4 (seq d T_notifications)" and "hub_ok h"
  shows "\<exists>n b d' h'. svc_Send (hub_Notify win pick rank) now oid msg (d, h) = (Inr (), (d', h')) \<and>
    hub_Notify win pick rank oid (Event_JSON (NewNotificationEvent n)) h = (Inr b, h') \<and>
    notifications (tbl d') = notifications (tbl d) @ [n] \<and> Notification_OrderID n = oid \<and> Notification_Message n = msg \<and>
    Notification_Status n = (if b then NotificationStatusSent else NotificationStatusFailed) \<and>
    Notification_SentAt n = (if b then Some (pg_now d) else None) \<and>
    ListByOrder oid d' = (Inr (sort_key Notification_ID (filter (\<lambda>r. Notification_OrderID r = oid) (notifications (tbl d))) @ [n]), d')"
proof -
  obtain n b d' h' where s: "svc_Send (hub_Notify win pick rank) now oid msg (d, h) = (Inr (), (d', h'))"
    "hub_Notify win pick rank oid (Event_JSON (NewNotificationEvent n)) h = (Inr b, h')"
    "tbl d' = (tbl d)\<lparr>notifications := notifications (tbl d) @ [n]\<rparr>" "Notification_ID n = seq d T_notifications"
    "Notification_OrderID n = oid" "Notification_Message n = msg"
    "Notification_Status n = (if b then NotificationStatusSent else NotificationStatusFailed)"
    "Notification_SentAt n = (if b then Some (pg_now d) else None)" "replies d' = []"
    by (rule Send_ok [OF assms])
  have "\<forall>x \<in> set (notifications (tbl d)). Notification_ID x < Notification_ID n"
    unfolding s(4) using note_fresh [OF assms(2)] by blast
  note sort = sort_snoc [OF note_ids [OF assms(2)] this, of "\<lambda>r. Notification_OrderID r = oid"]
  have "ListByOrder oid d' = (Inr (sort_key Notification_ID
      (filter (\<lambda>r. Notification_OrderID r = oid) (notifications (tbl d))) @ [n]), d')"
    using s(3,5,9) assms(3) sort by (simp add: ListByOrder_def query_ok)
  then show ?thesis using s by (intro exI [of _ n] exI [of _ b] exI [of _ d'] exI [of _ h']) simp
qed

theorem Send_replayed_witness:
  "hub_ok sample_hub \<and>
   (\<exists>n b d' h'. svc_Send (hub_Notify True True id) 60 2 ''hi'' (sample_db, sample_hub) = (Inr (), (d', h')) \<and>
      ListByOrder 2 d' = (Inr [n], d') \<and> Notification_Message n = ''hi'')"
proof -
  have s: "int4 2" "2 \<in> set (map Order_ID (orders (tbl sample_db)))" "int4 (seq sample_db T_notifications)"
    "notifications (tbl sample_db) = []"
    by code_simp+
  have ok: "hub_ok sample_hub" using sample_hub_reach by (rule hub_reach_ok)
  from Send_replayed [OF replies_sample wf_sample s(1-3) ok, of True True id 60 "''hi''"] show ?thesis
    unfolding s(4) filter.simps sort_key_simps append_Nil using ok by blast
qed

end
