(* ===== verification/Gateway.thy ===== *)
theory Gateway
  imports Models
begin

text \<open>
  \<open>internal/payment\<close>: the interface \<open>Gateway\<close> and \<open>fakeGateway\<close>, the provider the server runs with.

  What the provider draws during one call (the latency, the outcome, the id) is an argument of the
  model, a \<open>chance\<close>; \<open>valid_chance\<close> says what \<open>math/rand\<close> promises of it. A context is the time left
  until its deadline when the call starts. The mutex of \<open>fakeGateway\<close> makes the part after the wait one
  atomic step, so a call is a function on the state.

  The locale \<open>payment_gateway\<close> is the contract the fulfillment relies on, stated for any provider: an
  accepted charge is on record under its idempotency key with the result that was returned, what is on
  record stays, and a call touches no other key. It leaves open that a call that reports an error has
  charged. \<open>fakeGateway\<close> is an interpretation.
\<close>

section \<open>The interface\<close>

record ChargeRequest =
  Charge_IdempotencyKey :: string
  Charge_OrderID :: int
  Charge_Amount :: float64

record ChargeResult =
  TransactionID :: string

locale payment_gateway =
  fixes Charge :: "'c \<Rightarrow> duration \<Rightarrow> ChargeRequest \<Rightarrow> ('g, go_error, ChargeResult) prog"
    and on_record :: "'g \<Rightarrow> string \<Rightarrow> ChargeResult option"
  assumes charge_accepted:
      "Charge c left req g = (Inr res, g') \<Longrightarrow> on_record g' (Charge_IdempotencyKey req) = Some res"
    and charge_kept: "Charge c left req g = (r, g') \<Longrightarrow> on_record g k = Some res \<Longrightarrow> on_record g' k = Some res"
    and charge_frame:
      "Charge c left req g = (r, g') \<Longrightarrow> k \<noteq> Charge_IdempotencyKey req \<Longrightarrow> on_record g' k = on_record g k"
begin

text \<open>What a key was charged with never changes: a replayed charge answers with the first result.\<close>

lemma charge_replayed:
  assumes "on_record g (Charge_IdempotencyKey req) = Some res" and "Charge c left req g = (Inr res', g')"
  shows "res' = res"
  using charge_accepted [OF assms(2)] charge_kept [OF assms(2,1)] by simp

end

section \<open>The fake gateway\<close>

record fakeGateway =
  failureRate :: float64
  charged :: "string \<Rightarrow> ChargeResult option"

definition NewFakeGateway :: "float64 \<Rightarrow> fakeGateway" where
  "NewFakeGateway rate =
     (let rate1 = if rate < 0 then 0 else rate;
          rate2 = if rate1 > 1 then 1 else rate1
      in \<lparr>failureRate = rate2, charged = Map.empty\<rparr>)"

text \<open>
  The draws of one call: \<open>rng.Intn(200)\<close>, \<open>rng.Float64()\<close> and \<open>uuid.NewString()\<close>, and the scheduling of
  the \<open>select\<close>: how long after the timer was started its cases are polled, and which one is taken
  when both are ready.
\<close>

record chance =
  drawn_Intn :: int
  drawn_Float64 :: float64
  drawn_uuid :: string
  select_poll :: duration
  select_timer :: bool

definition valid_chance :: "chance \<Rightarrow> bool" where
  "valid_chance c \<longleftrightarrow> 0 \<le> drawn_Intn c \<and> drawn_Intn c < 200 \<and> 0 \<le> drawn_Float64 c \<and> drawn_Float64 c < 1 \<and>
     0 \<le> select_poll c"

definition Millisecond :: duration where
  "Millisecond = 1000000"

definition latency :: "chance \<Rightarrow> duration" where
  "latency c = (50 + drawn_Intn c) * Millisecond"

text \<open>
  \<open>select { case <-time.After(wait): case <-ctx.Done(): }\<close>: the first channel that is ready; either one
  when both are ready as they are polled or become ready together.
\<close>

definition timer_first :: "chance \<Rightarrow> duration \<Rightarrow> duration \<Rightarrow> bool" where
  "timer_first c wait left =
     (if wait \<le> select_poll c \<and> left \<le> select_poll c \<or> wait = left then select_timer c else wait < left)"

definition transient_failure :: "int \<Rightarrow> go_error" where
  "transient_failure orderID =
     DriverError (''payment gateway: transient failure charging order '' @ Itoa orderID)"

definition fake_Charge :: "chance \<Rightarrow> duration \<Rightarrow> ChargeRequest \<Rightarrow> (fakeGateway, go_error, ChargeResult) prog" where
  "fake_Charge c left req g =
     (if \<not> timer_first c (latency c) left then (Inl (DriverError ''context deadline exceeded''), g)
      else
        case charged g (Charge_IdempotencyKey req) of
          Some res \<Rightarrow> (Inr res, g)
        | None \<Rightarrow>
            if drawn_Float64 c < failureRate g then (Inl (transient_failure (Charge_OrderID req)), g)
            else
              let res = \<lparr>TransactionID = ''txn_'' @ drawn_uuid c\<rparr>
              in (Inr res, g\<lparr>charged := (charged g)(Charge_IdempotencyKey req \<mapsto> res)\<rparr>))"

lemma fake_Charge_cases:
  assumes "fake_Charge c left req g = (r, g')"
  obtains (refused) e where "r = Inl e" "g' = g"
  | (replayed) res where "charged g (Charge_IdempotencyKey req) = Some res" "r = Inr res" "g' = g"
  | (accepted) res where "charged g (Charge_IdempotencyKey req) = None" "r = Inr res"
      "res = \<lparr>TransactionID = ''txn_'' @ drawn_uuid c\<rparr>"
      "g' = g\<lparr>charged := (charged g)(Charge_IdempotencyKey req \<mapsto> res)\<rparr>"
proof (cases "timer_first c (latency c) left")
  case False
  then show ?thesis using assms by (intro refused) (auto simp: fake_Charge_def)
next
  case t: True
  show ?thesis
  proof (cases "charged g (Charge_IdempotencyKey req)")
    case None
    show ?thesis
    proof (cases "drawn_Float64 c < failureRate g")
      case True
      then show ?thesis using assms t None by (intro refused) (auto simp: fake_Charge_def)
    next
      case False
      then show ?thesis using assms t None by (intro accepted) (auto simp: fake_Charge_def Let_def)
    qed
  next
    case (Some res)
    then show ?thesis using assms t by (intro replayed) (auto simp: fake_Charge_def)
  qed
qed

interpretation fake: payment_gateway fake_Charge charged
proof
  fix c left req g r g' k res
  assume "fake_Charge c left req g = (r, g')" "charged g k = Some res"
  then show "charged g' k = Some res" by (cases rule: fake_Charge_cases) auto
next
  fix c left req g r g' k
  assume "fake_Charge c left req g = (r, g')" "k \<noteq> Charge_IdempotencyKey req"
  then show "charged g' k = charged g k" by (cases rule: fake_Charge_cases) auto
next
  fix c left req g res g'
  assume "fake_Charge c left req g = (Inr res, g')"
  then show "charged g' (Charge_IdempotencyKey req) = Some res" by (cases rule: fake_Charge_cases) auto
qed

lemma latency_bounds:
  "valid_chance c \<Longrightarrow> 50 * Millisecond \<le> latency c \<and> latency c < 250 * Millisecond"
  by (auto simp: valid_chance_def latency_def Millisecond_def)

lemma failureRate_new: "0 \<le> failureRate (NewFakeGateway rate) \<and> failureRate (NewFakeGateway rate) \<le> 1"
  by (simp add: NewFakeGateway_def Let_def)

lemma failureRate_kept: "fake_Charge c left req g = (r, g') \<Longrightarrow> failureRate g' = failureRate g"
  by (erule fake_Charge_cases) auto

text \<open>With a quarter of a second and a poll in time, the wait never exceeds the deadline.\<close>

lemma timer_first_in_time:
  assumes "valid_chance c" and "250 * Millisecond \<le> left" and "select_poll c < left"
  shows "timer_first c (latency c) left"
  using assms latency_bounds [OF assms(1)] by (auto simp: timer_first_def)

text \<open>
  \<open>fakeGateway.Charge\<close>, for a gateway built by \<open>NewFakeGateway\<close> and called with at least a quarter
  of a second left: a key that was charged before is answered with its first result; another key is
  charged, under the id drawn, unless the draw falls below the failure rate, and then nothing is on
  record. With rate 0 or less a call never fails, with rate 1 or more an uncharged key always does.
\<close>

theorem fake_Charge_outcome:
  assumes "valid_chance c" and "250 * Millisecond \<le> left" and "select_poll c < left"
    and "failureRate g = failureRate (NewFakeGateway rate)"
  shows "fake_Charge c left req g =
     (case charged g (Charge_IdempotencyKey req) of
        Some res \<Rightarrow> (Inr res, g)
      | None \<Rightarrow>
          if drawn_Float64 c < max 0 (min 1 rate) then (Inl (transient_failure (Charge_OrderID req)), g)
          else (Inr \<lparr>TransactionID = ''txn_'' @ drawn_uuid c\<rparr>,
                g\<lparr>charged := (charged g)(Charge_IdempotencyKey req \<mapsto> \<lparr>TransactionID = ''txn_'' @ drawn_uuid c\<rparr>)\<rparr>)) \<and>
     (rate \<le> 0 \<longrightarrow> \<not> isl (fst (fake_Charge c left req g))) \<and>
     (1 \<le> rate \<longrightarrow> charged g (Charge_IdempotencyKey req) = None \<longrightarrow> isl (fst (fake_Charge c left req g)))"
proof -
  have rate: "failureRate g = max 0 (min 1 rate)"
    using assms(4) by (auto simp: NewFakeGateway_def Let_def max_def min_def)
  have draw: "0 \<le> drawn_Float64 c" "drawn_Float64 c < 1" using assms(1) by (simp_all add: valid_chance_def)
  show ?thesis
    unfolding fake_Charge_def Let_def rate using timer_first_in_time [OF assms(1-3)] draw
    by (cases "charged g (Charge_IdempotencyKey req)") simp_all
qed

definition sample_chance :: "rat \<Rightarrow> chance" where
  "sample_chance x = \<lparr>drawn_Intn = 30, drawn_Float64 = x, drawn_uuid = ''7f'', select_poll = 0, select_timer = True\<rparr>"

theorem fake_Charge_outcome_witness:
  "valid_chance (sample_chance (1 / 2)) \<and>
   fst (fake_Charge (sample_chance (1 / 2)) (5000 * Millisecond)
      \<lparr>Charge_IdempotencyKey = ''k2'', Charge_OrderID = 2, Charge_Amount = 30\<rparr> (NewFakeGateway (1 / 5)))
    = Inr \<lparr>TransactionID = ''txn_7f''\<rparr> \<and>
   \<not> isl (fst (fake_Charge (sample_chance (1 / 2)) (5000 * Millisecond)
      \<lparr>Charge_IdempotencyKey = ''k2'', Charge_OrderID = 2, Charge_Amount = 30\<rparr> (NewFakeGateway (- 1)))) \<and>
   isl (fst (fake_Charge (sample_chance (1 / 2)) (5000 * Millisecond)
      \<lparr>Charge_IdempotencyKey = ''k2'', Charge_OrderID = 2, Charge_Amount = 30\<rparr> (NewFakeGateway 1)))"
proof -
  let ?req = "\<lparr>Charge_IdempotencyKey = ''k2'', Charge_OrderID = 2, Charge_Amount = 30\<rparr>"
  have c: "valid_chance (sample_chance (1 / 2))" "250 * Millisecond \<le> 5000 * Millisecond"
    "select_poll (sample_chance (1 / 2)) < 5000 * Millisecond"
    by (simp_all add: valid_chance_def sample_chance_def Millisecond_def)
  have none: "charged (NewFakeGateway x) k = None" for x k by (simp add: NewFakeGateway_def Let_def)
  show ?thesis
    using fake_Charge_outcome [where rate = "1 / 5" and req = ?req, OF c refl]
      fake_Charge_outcome [where rate = "- 1" and req = ?req, OF c refl]
      fake_Charge_outcome [where rate = 1 and req = ?req, OF c refl] c(1)
    by (simp add: none) (simp add: sample_chance_def)
qed

end
