(* ===== verification/Charging.thy ===== *)
theory Charging
  imports Gateway
begin

text \<open>
  The retry policy of \<open>internal/services/fulfillment.go\<close>: \<open>charge\<close>, which calls the payment gateway up to
  \<open>MaxRetries\<close> times, and \<open>backoff\<close>, the pause between two attempts.

  The gateway is an argument, \<open>Charge\<close>. What is drawn during one run is an argument too, a \<open>luck\<close>: the
  gateway's chance in each attempt, \<open>rand.Int63n\<close> in each pause. The pauses are recorded in the order
  they are made. \<open>attempt\<close> is an \<open>int\<close> of 64 bits; it cannot overflow as long as \<open>MaxRetries\<close> is not the
  largest one.
\<close>

section \<open>The pause between attempts\<close>

text \<open>\<open>x << n\<close> on 64 bits.\<close>

definition shl64 :: "int \<Rightarrow> int \<Rightarrow> int" where
  "shl64 x n = wrap64 (x * 2 ^ nat n)"

definition delay :: "WorkerConfig \<Rightarrow> int \<Rightarrow> duration" where
  "delay cfg attempt =
     (let d = shl64 (BaseBackoff cfg) (attempt - 1)
      in if d \<le> 0 \<or> d > MaxBackoff cfg then MaxBackoff cfg else d)"

definition backoff :: "(int \<Rightarrow> int) \<Rightarrow> WorkerConfig \<Rightarrow> int \<Rightarrow> duration" where
  "backoff Int63n cfg attempt =
     (let d = delay cfg attempt; half = go_div d 2
      in if half \<le> 0 then d else wrap64 (half + Int63n (wrap64 (half + 1))))"

text \<open>What \<open>rand.Int63n\<close> promises.\<close>

definition valid_Int63n :: "(int \<Rightarrow> int) \<Rightarrow> bool" where
  "valid_Int63n f \<longleftrightarrow> (\<forall>n. 0 < n \<longrightarrow> 0 \<le> f n \<and> f n < n)"

text \<open>A product that overflowed keeps its trailing zeros, so a positive remainder is at least \<open>2 ^ n\<close>.\<close>

lemma shl64_overflow:
  assumes "0 < shl64 x n"
  shows "2 ^ nat n \<le> shl64 x n"
proof -
  let ?k = "nat n"
  have dvd: "2 ^ ?k dvd shl64 x n" if "?k \<le> 63"
  proof -
    have "(2 :: int) ^ ?k dvd 2 ^ 63" "(2 :: int) ^ ?k dvd 2 ^ 64" using that by (intro le_imp_power_dvd, simp)+
    then show ?thesis unfolding shl64_def wrap64_def by (simp add: dvd_mod)
  qed
  have "?k \<le> 63"
  proof (rule ccontr)
    assume "\<not> ?k \<le> 63"
    then have "64 \<le> ?k" by simp
    then have "(2 :: int) ^ 64 dvd x * 2 ^ ?k" by (intro dvd_mult le_imp_power_dvd) simp
    then obtain q where "x * 2 ^ ?k = 2 ^ 64 * q" by (rule dvdE)
    then have "shl64 x n = 0" by (simp add: shl64_def wrap64_def)
    with assms show False by simp
  qed
  then show ?thesis using dvd assms by (simp add: zdvd_imp_le)
qed

text \<open>
  The guard of \<open>backoff\<close> catches every overflow when \<open>BaseBackoff * MaxBackoff\<close> is a 64-bit number.
\<close>

lemma delay_exact:
  assumes "0 < BaseBackoff cfg" and "0 < MaxBackoff cfg" and "BaseBackoff cfg * MaxBackoff cfg < 2 ^ 63"
    and "1 \<le> attempt"
  shows "delay cfg attempt = min (BaseBackoff cfg * 2 ^ nat (attempt - 1)) (MaxBackoff cfg)"
proof -
  let ?n = "attempt - 1" and ?b = "BaseBackoff cfg" and ?m = "MaxBackoff cfg"
  let ?p = "?b * 2 ^ nat ?n"
  have "0 < ?p" using assms(1) by simp
  show ?thesis
  proof (cases "?p < 2 ^ 63")
    case True
    then have "shl64 ?b ?n = ?p" using \<open>0 < ?p\<close> unfolding shl64_def by (intro wrap64_id) (simp add: in_int64_def)
    then show ?thesis using \<open>0 < ?p\<close> by (simp add: delay_def Let_def)
  next
    case False
    then have "?b * ?m < ?b * 2 ^ nat ?n" using assms(3) by linarith
    then have m: "?m < 2 ^ nat ?n" using assms(1) by simp
    then have "?m < shl64 ?b ?n" if "0 < shl64 ?b ?n" using shl64_overflow [OF that] by linarith
    then have "delay cfg attempt = ?m" by (auto simp: delay_def Let_def)
    moreover have "1 * 2 ^ nat ?n \<le> ?p" using assms(1) by (intro mult_right_mono) simp_all
    then have "?m \<le> ?p" using m by linarith
    ultimately show ?thesis by (simp only: min_absorb2)
  qed
qed

lemma backoff_jitter:
  assumes "valid_Int63n f" and "0 \<le> delay cfg attempt" and "in_int64 (delay cfg attempt)"
  shows "delay cfg attempt div 2 \<le> backoff f cfg attempt \<and> backoff f cfg attempt \<le> delay cfg attempt"
proof -
  let ?d = "delay cfg attempt" and ?h = "delay cfg attempt div 2"
  have h: "go_div ?d 2 = ?h" using assms(2) by (simp add: go_div_nonneg)
  show ?thesis
  proof (cases "?h \<le> 0")
    case True
    then show ?thesis using h assms(2) by (simp add: backoff_def Let_def)
  next
    case False
    have w: "wrap64 (?h + 1) = ?h + 1" using assms(2,3) False by (intro wrap64_id) (auto simp: in_int64_def)
    have "0 \<le> f (?h + 1) \<and> f (?h + 1) < ?h + 1"
      using assms(1) [unfolded valid_Int63n_def, rule_format, of "?h + 1"] False by linarith
    then have r: "0 \<le> f (?h + 1)" "f (?h + 1) \<le> ?h" by linarith+
    then have "in_int64 (?h + f (?h + 1))" using assms(2,3) False by (auto simp: in_int64_def)
    with False r w h show ?thesis by (simp add: backoff_def Let_def)
  qed
qed

lemma backoff_exact:
  assumes "0 < BaseBackoff cfg" and "0 < MaxBackoff cfg" and "BaseBackoff cfg * MaxBackoff cfg < 2 ^ 63"
    and "1 \<le> attempt" and "valid_Int63n f"
  defines "d \<equiv> min (BaseBackoff cfg * 2 ^ nat (attempt - 1)) (MaxBackoff cfg)"
  shows "d div 2 \<le> backoff f cfg attempt" and "backoff f cfg attempt \<le> d" and "0 < d"
proof -
  have "1 * MaxBackoff cfg \<le> BaseBackoff cfg * MaxBackoff cfg" using assms(1,2) by (intro mult_right_mono) simp_all
  then have "MaxBackoff cfg < 2 ^ 63" using assms(3) by linarith
  moreover have "0 < BaseBackoff cfg * 2 ^ nat (attempt - 1)" using assms(1) by simp
  ultimately have d: "0 < d" "in_int64 d" using assms(2) unfolding d_def in_int64_def by (auto simp: min_def)
  have eq: "delay cfg attempt = d" unfolding d_def by (rule delay_exact [OF assms(1-4)])
  from backoff_jitter [OF assms(5), of cfg attempt] d
  show "d div 2 \<le> backoff f cfg attempt" "backoff f cfg attempt \<le> d" "0 < d" unfolding eq by auto
qed

section \<open>The attempts\<close>

record 'c luck =
  luck_charge :: "int \<Rightarrow> 'c"
  luck_Int63n :: "int \<Rightarrow> int \<Rightarrow> int"

definition charge_request :: "Payment \<Rightarrow> ChargeRequest" where
  "charge_request pay =
     \<lparr>Charge_IdempotencyKey = Payment_IdempotencyKey pay, Charge_OrderID = Payment_OrderID pay, Charge_Amount = Payment_Amount pay\<rparr>"

text \<open>
  The loop of \<open>charge\<close>, from an attempt on. A Go function returns a result and an error, and both may
  be zero: \<open>(no_result, None)\<close> is an empty result with a nil error.
\<close>

definition no_result :: ChargeResult where
  "no_result = \<lparr>TransactionID = []\<rparr>"

type_synonym charged_result = "ChargeResult \<times> go_error option"

function charge_loop ::
  "('c \<Rightarrow> duration \<Rightarrow> ChargeRequest \<Rightarrow> ('g, go_error, ChargeResult) prog) \<Rightarrow> WorkerConfig \<Rightarrow> 'c luck \<Rightarrow> ChargeRequest \<Rightarrow>
     int \<Rightarrow> go_error option \<Rightarrow> 'g \<Rightarrow> duration list \<Rightarrow> charged_result \<times> 'g \<times> duration list"
where
  "charge_loop Charge cfg l req attempt lastErr g slept =
     (if attempt \<le> MaxRetries cfg then
        (case Charge (luck_charge l attempt) (AttemptTimeout cfg) req g of
           (Inr res, g') \<Rightarrow> ((res, None), g', slept)
         | (Inl e, g') \<Rightarrow>
             charge_loop Charge cfg l req (attempt + 1) (Some e) g'
               (if attempt < MaxRetries cfg then slept @ [backoff (luck_Int63n l attempt) cfg attempt] else slept))
      else ((no_result, lastErr), g, slept))"
  by pat_completeness auto
termination
  by (relation "measure (\<lambda>(Charge, cfg, l, req, attempt, lastErr, g, slept). nat (MaxRetries cfg + 1 - attempt))") auto

declare charge_loop.simps [simp del]

definition charge ::
  "('c \<Rightarrow> duration \<Rightarrow> ChargeRequest \<Rightarrow> ('g, go_error, ChargeResult) prog) \<Rightarrow> WorkerConfig \<Rightarrow> 'c luck \<Rightarrow> Payment \<Rightarrow>
     'g \<Rightarrow> charged_result \<times> 'g \<times> duration list"
where
  "charge Charge cfg l pay g = charge_loop Charge cfg l (charge_request pay) 1 None g []"

lemma charge_loop_stop:
  "MaxRetries cfg < attempt \<Longrightarrow> charge_loop Charge cfg l req attempt e g sl = ((no_result, e), g, sl)"
  by (subst charge_loop.simps) simp

text \<open>The bounds on the pauses: one less than the attempts, each at most \<open>MaxBackoff\<close>.\<close>

lemma charge_loop_sleeps:
  assumes "charge_loop Charge cfg l req attempt e g sl = (r, g', sl')" and "1 \<le> attempt"
    and "\<And>a. 1 \<le> a \<Longrightarrow> backoff (luck_Int63n l a) cfg a \<in> A"
  shows "\<exists>new. sl' = sl @ new \<and> int (length new) \<le> max 0 (MaxRetries cfg - attempt) \<and> set new \<subseteq> A"
  using assms
proof (induction Charge cfg l req attempt e g sl arbitrary: r g' sl' rule: charge_loop.induct)
  case (1 Charge cfg l req attempt lastErr g sl)
  show ?case
  proof (cases "attempt \<le> MaxRetries cfg")
    case False
    then show ?thesis using 1 by (simp add: charge_loop_stop)
  next
    case True
    obtain c g1 where c: "Charge (luck_charge l attempt) (AttemptTimeout cfg) req g = (c, g1)"
      by (cases "Charge (luck_charge l attempt) (AttemptTimeout cfg) req g")
    show ?thesis
    proof (cases c)
      case (Inr res)
      then show ?thesis using 1(2) True c by (simp add: charge_loop.simps)
    next
      case (Inl x)
      let ?sl = "if attempt < MaxRetries cfg then sl @ [backoff (luck_Int63n l attempt) cfg attempt] else sl"
      have "charge_loop Charge cfg l req (attempt + 1) (Some x) g1 ?sl = (r, g', sl')"
        using 1(2) True c Inl by (subst (asm) charge_loop.simps) simp
      from 1(1) [OF True c [symmetric] Inl this] 1(3,4) obtain new where
        new: "sl' = ?sl @ new" "int (length new) \<le> max 0 (MaxRetries cfg - (attempt + 1))" "set new \<subseteq> A" by auto
      then show ?thesis
        using 1(4) [OF 1(3)] by (cases "attempt < MaxRetries cfg") auto
    qed
  qed
qed

text \<open>
  The reference: the attempts one after the other, whatever they return. \<open>try\<close> \<open>k\<close> is the \<open>k\<close>-th one
  made on the state \<open>tries\<close> \<open>k\<close> that the earlier ones left.
\<close>

primrec tries ::
  "('c \<Rightarrow> duration \<Rightarrow> ChargeRequest \<Rightarrow> ('g, go_error, ChargeResult) prog) \<Rightarrow> WorkerConfig \<Rightarrow> 'c luck \<Rightarrow> ChargeRequest \<Rightarrow>
     'g \<Rightarrow> nat \<Rightarrow> 'g"
where
  "tries Charge cfg l req g 0 = g"
| "tries Charge cfg l req g (Suc k) =
     snd (Charge (luck_charge l (int k + 1)) (AttemptTimeout cfg) req (tries Charge cfg l req g k))"

definition try_result ::
  "('c \<Rightarrow> duration \<Rightarrow> ChargeRequest \<Rightarrow> ('g, go_error, ChargeResult) prog) \<Rightarrow> WorkerConfig \<Rightarrow> 'c luck \<Rightarrow> ChargeRequest \<Rightarrow>
     'g \<Rightarrow> nat \<Rightarrow> go_error + ChargeResult"
where
  "try_result Charge cfg l req g k =
     fst (Charge (luck_charge l (int k + 1)) (AttemptTimeout cfg) req (tries Charge cfg l req g k))"

definition first_accepted ::
  "('c \<Rightarrow> duration \<Rightarrow> ChargeRequest \<Rightarrow> ('g, go_error, ChargeResult) prog) \<Rightarrow> WorkerConfig \<Rightarrow> 'c luck \<Rightarrow> ChargeRequest \<Rightarrow>
     'g \<Rightarrow> nat option"
where
  "first_accepted Charge cfg l req g =
     find (\<lambda>k. \<not> isl (try_result Charge cfg l req g k)) [0..<nat (MaxRetries cfg)]"

lemma charge_loop_tries:
  assumes "k \<le> nat (MaxRetries cfg)" and "\<forall>j < k. isl (try_result Charge cfg l req g j)"
  shows "\<exists>sl'. charge_loop Charge cfg l req (int k + 1) e (tries Charge cfg l req g k) sl =
     (case find (\<lambda>j. \<not> isl (try_result Charge cfg l req g j)) [k..<nat (MaxRetries cfg)] of
        Some j \<Rightarrow> (projr (try_result Charge cfg l req g j), None)
      | None \<Rightarrow> (no_result,
          if k = nat (MaxRetries cfg) then e
          else Some (projl (try_result Charge cfg l req g (nat (MaxRetries cfg) - 1)))),
      tries Charge cfg l req g
        (case find (\<lambda>j. \<not> isl (try_result Charge cfg l req g j)) [k..<nat (MaxRetries cfg)] of
           Some j \<Rightarrow> Suc j | None \<Rightarrow> nat (MaxRetries cfg)), sl')"
  using assms
proof (induction "nat (MaxRetries cfg) - k" arbitrary: k e sl)
  case 0
  then have "k = nat (MaxRetries cfg)" "MaxRetries cfg < int k + 1" by linarith+
  then show ?case by (simp add: charge_loop_stop)
next
  case (Suc n)
  let ?M = "nat (MaxRetries cfg)" and ?t = "try_result Charge cfg l req g"
  have le: "k < ?M" "int k + 1 \<le> MaxRetries cfg" using Suc(2) by linarith+
  obtain c g1 where c: "Charge (luck_charge l (int k + 1)) (AttemptTimeout cfg) req (tries Charge cfg l req g k) = (c, g1)"
    by (cases "Charge (luck_charge l (int k + 1)) (AttemptTimeout cfg) req (tries Charge cfg l req g k)")
  then have t: "?t k = c" "tries Charge cfg l req g (Suc k) = g1" by (simp_all add: try_result_def)
  have up: "[k..<?M] = k # [Suc k..<?M]" using le(1) by (rule upt_conv_Cons)
  show ?case
  proof (cases c)
    case (Inr res)
    then show ?thesis using c t le by (subst charge_loop.simps) (simp add: up)
  next
    case (Inl x)
    let ?sl = "if int k + 1 < MaxRetries cfg then sl @ [backoff (luck_Int63n l (int k + 1)) cfg (int k + 1)] else sl"
    have "\<forall>j < Suc k. isl (?t j)" using Suc(4) t(1) Inl by (auto simp: less_Suc_eq)
    moreover have "n = ?M - Suc k" "Suc k \<le> ?M" using Suc(2) by linarith+
    ultimately have ih: "\<exists>sl'. charge_loop Charge cfg l req (int (Suc k) + 1) (Some x) (tries Charge cfg l req g (Suc k)) ?sl =
        (case find (\<lambda>j. \<not> isl (?t j)) [Suc k..<?M] of
           Some j \<Rightarrow> (projr (?t j), None)
         | None \<Rightarrow> (no_result, if Suc k = ?M then Some x else Some (projl (?t (?M - 1)))),
         tries Charge cfg l req g (case find (\<lambda>j. \<not> isl (?t j)) [Suc k..<?M] of Some j \<Rightarrow> Suc j | None \<Rightarrow> ?M), sl')"
      by (intro Suc(1))
    have step: "charge_loop Charge cfg l req (int k + 1) e (tries Charge cfg l req g k) sl
        = charge_loop Charge cfg l req (int (Suc k) + 1) (Some x) (tries Charge cfg l req g (Suc k)) ?sl"
      using c t(2) le Inl by (subst charge_loop.simps) (simp add: add.commute)
    have last: "(if Suc k = ?M then Some x else Some (projl (?t (?M - 1)))) = Some (projl (?t (?M - 1)))"
      using t(1) Inl by (metis diff_Suc_1 sum.sel(1))
    have find: "find (\<lambda>j. \<not> isl (?t j)) [k..<?M] = find (\<lambda>j. \<not> isl (?t j)) [Suc k..<?M]"
      using t(1) Inl by (simp add: up)
    show ?thesis using ih unfolding step last find by (simp only: less_imp_neq [OF le(1)] if_False)
  qed
qed

section \<open>Properties\<close>

text \<open>
  C18. The pause before attempt \<open>attempt + 1\<close> lies between half and all of \<open>BaseBackoff * 2 ^ (attempt - 1)\<close>
  capped at \<open>MaxBackoff\<close>, for every attempt, also where the shift overflows 64 bits: the guard of
  \<open>backoff\<close> catches every overflow as long as \<open>BaseBackoff * MaxBackoff\<close> is below \<open>2 ^ 63\<close>.
\<close>

theorem backoff_bounds:
  assumes "0 < BaseBackoff cfg" and "0 < MaxBackoff cfg" and "BaseBackoff cfg * MaxBackoff cfg < 2 ^ 63"
    and "1 \<le> attempt" and "valid_Int63n f"
  shows "min (BaseBackoff cfg * 2 ^ nat (attempt - 1)) (MaxBackoff cfg) div 2 \<le> backoff f cfg attempt \<and>
    backoff f cfg attempt \<le> min (BaseBackoff cfg * 2 ^ nat (attempt - 1)) (MaxBackoff cfg)"
  using backoff_exact [OF assms] by blast

definition sample_cfg :: "int \<Rightarrow> WorkerConfig" where
  "sample_cfg retries =
     \<lparr>Count = 5, QueueSize = 256, MaxRetries = retries, BaseBackoff = 200 * Millisecond, MaxBackoff = 5000 * Millisecond,
      AttemptTimeout = 5000 * Millisecond, SweepInterval = 30000 * Millisecond, StaleAfter = 60000 * Millisecond,
      SweepBatchSize = 100, GatewayFailureRate = 1 / 5, ShutdownTimeout = 10000 * Millisecond\<rparr>"

lemma sample_cfg_backoff:
  "0 < BaseBackoff (sample_cfg n)" "0 < MaxBackoff (sample_cfg n)" "BaseBackoff (sample_cfg n) * MaxBackoff (sample_cfg n) < 2 ^ 63"
  by (simp_all add: sample_cfg_def Millisecond_def)

lemma valid_Int63n_sample: "valid_Int63n (\<lambda>n. n - 1)"
  by (simp add: valid_Int63n_def)

theorem backoff_bounds_witness:
  "valid_Int63n (\<lambda>n. n - 1) \<and>
   100 * Millisecond \<le> backoff (\<lambda>n. n - 1) (sample_cfg 3) 1 \<and> backoff (\<lambda>n. n - 1) (sample_cfg 3) 1 \<le> 200 * Millisecond \<and>
   2500 * Millisecond \<le> backoff (\<lambda>n. n - 1) (sample_cfg 3) 60 \<and> backoff (\<lambda>n. n - 1) (sample_cfg 3) 60 \<le> 5000 * Millisecond"
  using backoff_bounds [where attempt = 1, OF sample_cfg_backoff [of 3] _ valid_Int63n_sample]
    backoff_bounds [where attempt = 60, OF sample_cfg_backoff [of 3] _ valid_Int63n_sample] valid_Int63n_sample
  by (simp add: sample_cfg_def Millisecond_def)

text \<open>What is left of the base after its high bits have been shifted out.\<close>

lemma shl64_remainder:
  assumes "0 \<le> n" "n \<le> 64" and "c = x mod 2 ^ nat (64 - n)" and "0 < c" "c * 2 ^ nat n < 2 ^ 63"
  shows "shl64 x n = c * 2 ^ nat n"
proof -
  have pow: "(2 :: int) ^ nat (64 - n) * 2 ^ nat n = 2 ^ 64"
    using assms(1,2) by (simp flip: power_add) (simp add: nat_diff_distrib)
  have "x * 2 ^ nat n = (x div 2 ^ nat (64 - n) * 2 ^ nat (64 - n) + c) * 2 ^ nat n"
    unfolding assms(3) by (simp only: div_mult_mod_eq)
  also have "\<dots> = x div 2 ^ nat (64 - n) * 2 ^ 64 + c * 2 ^ nat n"
    unfolding pow [symmetric] by (simp only: distrib_right mult.assoc)
  finally have "(x * 2 ^ nat n + 2 ^ 63) mod 2 ^ 64 = (c * 2 ^ nat n + 2 ^ 63) mod 2 ^ 64"
    by (simp only: add.assoc mod_mult_self3)
  also have "\<dots> = c * 2 ^ nat n + 2 ^ 63" using assms(4,5) by (intro mod_pos_pos_trivial) auto
  finally show ?thesis by (simp add: shl64_def wrap64_def)
qed

text \<open>
  C19. The guard \<open>d <= 0\<close> does not catch every overflow: for every configuration and attempt at which the
  shift drops bits of the base but leaves a positive remainder below the cap, the pause is at most that
  remainder, although \<open>BaseBackoff * 2 ^ (attempt - 1)\<close> capped at \<open>MaxBackoff\<close>, the value the comment
  promises, is larger.
\<close>

theorem backoff_overflow:
  assumes "1 \<le> attempt" "attempt \<le> 65" and "2 ^ nat (65 - attempt) \<le> BaseBackoff cfg"
    and "c = BaseBackoff cfg mod 2 ^ nat (65 - attempt)" "0 < c" "c * 2 ^ nat (attempt - 1) < MaxBackoff cfg"
    and "MaxBackoff cfg < 2 ^ 63" and "valid_Int63n f"
  shows "backoff f cfg attempt \<le> c * 2 ^ nat (attempt - 1) \<and>
    c * 2 ^ nat (attempt - 1) < min (BaseBackoff cfg * 2 ^ nat (attempt - 1)) (MaxBackoff cfg)"
proof
  let ?d = "c * 2 ^ nat (attempt - 1)"
  have pos: "0 < ?d" using assms(5) by simp
  have "shl64 (BaseBackoff cfg) (attempt - 1) = ?d"
    using assms by (intro shl64_remainder) (simp_all add: algebra_simps)
  then have d: "delay cfg attempt = ?d" using pos assms(6) by (simp add: delay_def Let_def)
  then have "in_int64 (delay cfg attempt)" "0 \<le> delay cfg attempt" using pos assms(6,7) by (simp_all add: in_int64_def)
  then show "backoff f cfg attempt \<le> ?d" using backoff_jitter [OF assms(8), of cfg attempt] d by simp
  have "c < 2 ^ nat (65 - attempt)" unfolding assms(4) by simp
  then have "?d < BaseBackoff cfg * 2 ^ nat (attempt - 1)" using assms(3) by simp
  then show "?d < min (BaseBackoff cfg * 2 ^ nat (attempt - 1)) (MaxBackoff cfg)" using assms(6) by simp
qed

theorem backoff_overflow_witness:
  "backoff (\<lambda>n. n - 1) ((sample_cfg 9)\<lparr>BaseBackoff := 2 ^ 61 + 1, MaxBackoff := 2 ^ 62\<rparr>) 4 \<le> 8"
  using backoff_overflow [of 4 "(sample_cfg 9)\<lparr>BaseBackoff := 2 ^ 61 + 1, MaxBackoff := 2 ^ 62\<rparr>" 1 "\<lambda>n. n - 1"]
    valid_Int63n_sample by simp

text \<open>
  C17. \<open>charge\<close> always ends. It makes the attempts one after the other until the first that is accepted and
  returns its result with a nil error, leaving the gateway as that attempt left it; when all
  \<open>MaxRetries\<close> attempts fail it returns the error of the last one. It pauses at most \<open>MaxRetries - 1\<close>
  times, at most \<open>MaxBackoff\<close> each.
\<close>

theorem charge_outcome:
  assumes "0 < BaseBackoff cfg" and "0 < MaxBackoff cfg" and "BaseBackoff cfg * MaxBackoff cfg < 2 ^ 63"
    and "1 \<le> MaxRetries cfg" and "\<And>a. valid_Int63n (luck_Int63n l a)"
  shows "\<exists>slept. charge Charge cfg l pay g =
      (case first_accepted Charge cfg l (charge_request pay) g of
         Some k \<Rightarrow> ((projr (try_result Charge cfg l (charge_request pay) g k), None),
                    tries Charge cfg l (charge_request pay) g (Suc k), slept)
       | None \<Rightarrow> ((no_result, Some (projl (try_result Charge cfg l (charge_request pay) g (nat (MaxRetries cfg) - 1)))),
                   tries Charge cfg l (charge_request pay) g (nat (MaxRetries cfg)), slept)) \<and>
    int (length slept) \<le> MaxRetries cfg - 1 \<and> (\<forall>s \<in> set slept. 0 \<le> s \<and> s \<le> MaxBackoff cfg)"
proof -
  let ?req = "charge_request pay"
  have b: "0 \<le> backoff (luck_Int63n l a) cfg a \<and> backoff (luck_Int63n l a) cfg a \<le> MaxBackoff cfg" if "1 \<le> a" for a
    using backoff_exact [OF assms(1-3) that assms(5) [of a]] by linarith
  have M: "0 \<noteq> nat (MaxRetries cfg)" using assms(4) by linarith
  obtain slept where run: "charge Charge cfg l pay g =
      (case first_accepted Charge cfg l ?req g of
         Some j \<Rightarrow> (projr (try_result Charge cfg l ?req g j), None)
       | None \<Rightarrow> (no_result, Some (projl (try_result Charge cfg l ?req g (nat (MaxRetries cfg) - 1)))),
       tries Charge cfg l ?req g (case first_accepted Charge cfg l ?req g of Some j \<Rightarrow> Suc j | None \<Rightarrow> nat (MaxRetries cfg)), slept)"
    using charge_loop_tries [of 0 cfg Charge l ?req g None "[]"] M by (auto simp: charge_def first_accepted_def)
  from charge_loop_sleeps [where A = "{s. 0 \<le> s \<and> s \<le> MaxBackoff cfg}", OF run [unfolded charge_def]] b
  have "int (length slept) \<le> max 0 (MaxRetries cfg - 1) \<and> set slept \<subseteq> {s. 0 \<le> s \<and> s \<le> MaxBackoff cfg}" by auto
  then show ?thesis using run assms(4) by (intro exI [of _ slept]) (auto split: option.splits)
qed

text \<open>The chances of three attempts of the sample gateway, of which the second is accepted.\<close>

definition sample_luck :: "chance luck" where
  "sample_luck = \<lparr>luck_charge = (\<lambda>a. sample_chance (if a = 1 then 0 else 1 / 2)), luck_Int63n = (\<lambda>_ n. n - 1)\<rparr>"

definition sample_pending :: Payment where
  "sample_pending = \<lparr>Payment_ID = 2, Payment_OrderID = 2, Payment_IdempotencyKey = ''k2'', Payment_Status = PaymentStatusPending,
     Payment_Amount = 30, Payment_ProviderTxnID = None, Payment_CreatedAt = 10, Payment_UpdatedAt = 10\<rparr>"

theorem charge_outcome_witness:
  "first_accepted fake_Charge (sample_cfg 3) sample_luck (charge_request sample_pending) (NewFakeGateway (1 / 5)) = Some 1 \<and>
   fst (charge fake_Charge (sample_cfg 3) sample_luck sample_pending (NewFakeGateway (1 / 5))) = (\<lparr>TransactionID = ''txn_7f''\<rparr>, None)"
proof -
  have s: "first_accepted fake_Charge (sample_cfg 3) sample_luck (charge_request sample_pending) (NewFakeGateway (1 / 5)) = Some 1"
    "try_result fake_Charge (sample_cfg 3) sample_luck (charge_request sample_pending) (NewFakeGateway (1 / 5)) 1
       = Inr \<lparr>TransactionID = ''txn_7f''\<rparr>" "1 \<le> MaxRetries (sample_cfg 3)"
    by code_simp+
  have "valid_Int63n (luck_Int63n sample_luck a)" for a using valid_Int63n_sample by (simp add: sample_luck_def)
  from charge_outcome [where Charge = fake_Charge, OF sample_cfg_backoff s(3) this, of sample_pending "NewFakeGateway (1 / 5)"] s(1,2)
  show ?thesis by auto
qed

end
