(* ===== verification/Fulfillment.thy ===== *)
theory Fulfillment
  imports Notification Charging
begin

text \<open>
  \<open>Fulfiller.Fulfill\<close> of \<open>internal/services/fulfillment.go\<close>: load the pending payment of an order, charge it,
  record the outcome, notify.

  \<open>Fulfill\<close> runs on the database, on any \<open>payment_gateway\<close> and on any \<open>notifier\<close>; both together are the
  locale \<open>fulfilling\<close>, in which its laws are proved, and which is interpreted on \<open>fakeGateway\<close> and
  the hub. The contexts of the database calls are part of the connection's faults; the context of a
  charge is its \<open>AttemptTimeout\<close>. \<open>finalize\<close> is the part between the charge and the notification: its
  value is the message to send.
\<close>

section \<open>Fulfill\<close>

record ('g, 'h) env =
  env_db :: pg
  env_gw :: 'g
  env_hub :: 'h
  env_slept :: "duration list"

definition cancelled_message :: "int \<Rightarrow> string" where
  "cancelled_message orderID = ''Order #'' @ Itoa orderID @ '' was cancelled: payment could not be processed.''"

definition confirmed_message :: "int \<Rightarrow> string" where
  "confirmed_message orderID = ''Order #'' @ Itoa orderID @ '' is confirmed. Payment received.''"

definition finalize :: "int \<Rightarrow> Payment \<Rightarrow> charged_result \<Rightarrow> pg \<Rightarrow> string option \<times> pg" where
  "finalize orderID pay result d =
     (case snd result of
        Some chargeErr \<Rightarrow>
          (case FailCancelAndRestock pay d of
             (Inl err, d') \<Rightarrow> (None, d')
           | (Inr transitioned, d') \<Rightarrow> (if transitioned then Some (cancelled_message orderID) else None, d'))
      | None \<Rightarrow>
          (case MarkPaidAndConfirm pay (TransactionID (fst result)) d of
             (Inl err, d') \<Rightarrow> (None, d')
           | (Inr transitioned, d') \<Rightarrow> (if transitioned then Some (confirmed_message orderID) else None, d')))"

definition Fulfill ::
  "('c \<Rightarrow> duration \<Rightarrow> ChargeRequest \<Rightarrow> ('g, go_error, ChargeResult) prog) \<Rightarrow>
   (int \<Rightarrow> string \<Rightarrow> ('h, go_error, bool) prog) \<Rightarrow> WorkerConfig \<Rightarrow> 'c luck \<Rightarrow> time \<Rightarrow> int \<Rightarrow>
   (('g, 'h) env, go_error, unit) prog"
where
  "Fulfill Charge Notify cfg l now orderID w =
     (case GetPendingByOrderID orderID (env_db w) of
        (Inl err, d1) \<Rightarrow> (Inr (), w\<lparr>env_db := d1\<rparr>)
      | (Inr pay, d1) \<Rightarrow>
          let (result, g, slept) = charge Charge cfg l pay (env_gw w);
              (message, d2) = finalize orderID pay result d1;
              w' = w\<lparr>env_db := d2, env_gw := g, env_slept := env_slept w @ slept\<rparr>
          in case message of
               None \<Rightarrow> (Inr (), w')
             | Some m \<Rightarrow>
                 (case svc_Send Notify now orderID m (d2, env_hub w) of
                    (r, (d3, h)) \<Rightarrow> (r, w'\<lparr>env_db := d3, env_hub := h\<rparr>)))"

section \<open>Loading\<close>

text \<open>\<open>pay\<close> was read from the database: its row is still there, with its order and its key.\<close>

definition held :: "tables \<Rightarrow> Payment \<Rightarrow> bool" where
  "held t pay \<longleftrightarrow> (\<exists>r \<in> set (payments t). Payment_ID r = Payment_ID pay \<and> Payment_OrderID r = Payment_OrderID pay \<and>
     Payment_IdempotencyKey r = Payment_IdempotencyKey pay)"

lemma held_stored: "held t pay \<Longrightarrow> stored t pay"
  by (auto simp: held_def stored_def)

lemma held_later: "later t t' \<Longrightarrow> held t pay \<Longrightarrow> held t' pay"
  unfolding later_def held_def
  by (elim conjE bexE, erule (1) grown_in [of payment_moves]) (auto simp: payment_moves_def)

lemma first_by_in: "first_by k P rs = Inr r \<Longrightarrow> r \<in> set rs \<and> P r"
proof -
  assume "first_by k P rs = Inr r"
  then obtain ys where "sort_key k (filter P rs) = r # ys" by (auto simp: first_by_def split: list.splits)
  then have "r \<in> set (sort_key k (filter P rs))" by simp
  then show "r \<in> set rs \<and> P r" by simp
qed

lemma query_read: "query args f d = (r, d') \<Longrightarrow> same d d' \<and> (\<forall>x. r = Inr x \<longrightarrow> x = f (tbl d))"
  by (cases r) (auto simp: query_def dest!: stmt_Inr stmt_Inl)

lemma GetPending_same:
  assumes "GetPendingByOrderID oid d = (r, d')"
  shows "same d d'" and "r = Inr pay \<Longrightarrow> held (tbl d) pay \<and> Payment_OrderID pay = oid \<and> is_pending (tbl d) pay"
proof -
  let ?P = "\<lambda>p. Payment_OrderID p = oid \<and> Payment_Status p = PaymentStatusPending"
  obtain q d1 where q: "query [oid] (\<lambda>t. first_by Payment_ID ?P (payments t)) d = (q, d1)"
    by (cases "query [oid] (\<lambda>t. first_by Payment_ID ?P (payments t)) d")
  note Q = query_read [OF q]
  show "same d d'"
    using assms q Q unfolding GetPendingByOrderID_def map_err_def bindE_def of_result_def ret_def
    by (auto split: sum.splits prod.splits)
  assume "r = Inr pay"
  then have "\<exists>p. first_by Payment_ID ?P (payments (tbl d)) = Inr p \<and> pay = scan_payment p"
    using assms q Q unfolding GetPendingByOrderID_def map_err_def bindE_def of_result_def ret_def
    by (auto split: sum.splits prod.splits)
  then obtain p where "p \<in> set (payments (tbl d))" "?P p" "pay = scan_payment p" using first_by_in by fastforce
  then show "held (tbl d) pay \<and> Payment_OrderID pay = oid \<and> is_pending (tbl d) pay"
    by (auto simp: held_def is_pending_def scan_payment_def)
qed

section \<open>Recording the outcome\<close>

lemma finalize_cases:
  assumes "finalize oid pay result d = (m, d')"
  obtains (failed) e r where "snd result = Some e" "FailCancelAndRestock pay d = (r, d')"
      "m = (if r = Inr True then Some (cancelled_message oid) else None)"
  | (paid) r where "snd result = None" "MarkPaidAndConfirm pay (TransactionID (fst result)) d = (r, d')"
      "m = (if r = Inr True then Some (confirmed_message oid) else None)"
proof (cases "snd result")
  case None
  obtain r d1 where r: "MarkPaidAndConfirm pay (TransactionID (fst result)) d = (r, d1)"
    by (cases "MarkPaidAndConfirm pay (TransactionID (fst result)) d")
  with assms None have "d1 = d'" "m = (if r = Inr True then Some (confirmed_message oid) else None)"
    by (auto simp: finalize_def split: sum.splits)
  with None r paid show ?thesis by blast
next
  case (Some e)
  obtain r d1 where r: "FailCancelAndRestock pay d = (r, d1)" by (cases "FailCancelAndRestock pay d")
  with assms Some have "d1 = d'" "m = (if r = Inr True then Some (cancelled_message oid) else None)"
    by (auto simp: finalize_def split: sum.splits)
  with Some r failed show ?thesis by blast
qed

lemma finalize_keeps:
  assumes "wf_db d" and "stored (tbl d) pay" and "finalize oid pay result d = (m, d')"
  shows "wf_db d'" and "units (tbl d') p = units (tbl d) p" and "later (tbl d) (tbl d')"
proof -
  have "wf_db d' \<and> units (tbl d') p = units (tbl d) p \<and> later (tbl d) (tbl d')"
    using assms(3)
  proof (cases rule: finalize_cases)
    case failed
    then show ?thesis using assms(1,2) FailCancel_keeps FailCancel_later by blast
  next
    case paid
    then show ?thesis using assms(1,2) MarkPaid_keeps MarkPaid_later by blast
  qed
  then show "wf_db d'" "units (tbl d') p = units (tbl d) p" "later (tbl d) (tbl d')" by blast+
qed

text \<open>The change of the payment and the status of the order that a result asks for.\<close>

definition outcome :: "charged_result \<Rightarrow> Payment \<Rightarrow> Payment" where
  "outcome result = (case snd result of None \<Rightarrow> set_paid (TransactionID (fst result)) | Some _ \<Rightarrow> set_failed)"

definition outcome_status :: "charged_result \<Rightarrow> OrderStatus" where
  "outcome_status result = (case snd result of None \<Rightarrow> OrderStatusConfirmed | Some _ \<Rightarrow> OrderStatusCancelled)"

definition outcome_message :: "charged_result \<Rightarrow> int \<Rightarrow> string" where
  "outcome_message result = (case snd result of None \<Rightarrow> confirmed_message | Some _ \<Rightarrow> cancelled_message)"

definition recorded :: "Payment \<Rightarrow> charged_result \<Rightarrow> time \<Rightarrow> tables \<Rightarrow> tables \<Rightarrow> bool" where
  "recorded pay result now t t' \<longleftrightarrow>
     t' = (settle pay (outcome result) (outcome_status result) now t)\<lparr>inventory := inventory t'\<rparr>"

lemma terminal_outcome [simp]: "terminal (outcome result) (outcome_status result)"
  by (simp add: outcome_def outcome_status_def split: option.split)

lemma recorded_frame:
  assumes "recorded pay result now t t'"
  shows "payments t' = upd_where (pending_payment pay) (\<lambda>r. (outcome result r)\<lparr>Payment_UpdatedAt := now\<rparr>) (payments t)"
    and "notifications t' = notifications t"
    and "orders t' = upd_where (pending_order pay) (\<lambda>r. r\<lparr>Order_Status := outcome_status result, Order_UpdatedAt := now\<rparr>) (orders t)"
  by (subst assms [unfolded recorded_def], simp add: settle_def)+

lemma recorded_not_pending: "recorded pay result now t t' \<Longrightarrow> \<not> is_pending t' pay"
  using settle_not_pending [OF terminal_outcome, of pay result now t]
  by (simp add: is_pending_def recorded_frame settle_def)

text \<open>
  \<open>finalize\<close> either changes no table or records the outcome of a payment that was pending; it has a
  message exactly when it knows that it did. It records without a message only when the commit was not
  acknowledged.
\<close>

lemma finalize_tables:
  assumes "wf_db d" and "stored (tbl d) pay" and "finalize oid pay result d = (m, d')"
  shows "tbl d' = tbl d \<or> is_pending (tbl d) pay \<and> recorded pay result (pg_now d) (tbl d) (tbl d')"
    and "m \<noteq> None \<Longrightarrow> m = Some (outcome_message result oid) \<and> is_pending (tbl d) pay \<and>
      recorded pay result (pg_now d) (tbl d) (tbl d')"
proof -
  let ?R = "\<lambda>t t'. t' = t \<or> is_pending t pay \<and> recorded pay result (pg_now d) t t'"
  show "?R (tbl d) (tbl d')"
    using assms(3)
  proof (cases rule: finalize_cases)
    case (failed e r)
    from failed(2) show ?thesis unfolding FailCancelAndRestock_def
    proof (rule transaction_tables [where R = ?R])
      fix d1 b d2
      assume d1: "same d d1" and body: "fail_cancel_body pay d1 = (Inr b, d2)"
      then have "wf_db d1" "stored (tbl d1) pay" using assms(1,2) by simp_all
      note F = fail_cancel_body_Inr [OF this body]
      show "?R (tbl d) (tbl d2)"
        using F(1,3,4) d1 failed(1) by (cases b) (auto simp: recorded_def outcome_def outcome_status_def)
    qed simp
  next
    case (paid r)
    from paid(2) show ?thesis unfolding MarkPaidAndConfirm_def
    proof (rule transaction_tables [where R = ?R])
      fix d1 b d2
      assume d1: "same d d1" and body: "mark_paid_body pay (TransactionID (fst result)) d1 = (Inr b, d2)"
      then have "wf_db d1" using assms(1) by simp
      note F = mark_paid_body_Inr [OF this body]
      show "?R (tbl d) (tbl d2)"
        using F d1 paid(1) by (cases b) (auto simp: recorded_def outcome_def outcome_status_def)
    qed simp
  qed
  assume "m \<noteq> None"
  from assms(3) this show "m = Some (outcome_message result oid) \<and> is_pending (tbl d) pay \<and>
      recorded pay result (pg_now d) (tbl d) (tbl d')"
  proof (cases rule: finalize_cases)
    case (failed e r)
    then have r: "FailCancelAndRestock pay d = (Inr True, d')" using \<open>m \<noteq> None\<close> by (auto split: if_splits)
    from FailCancel_Inr [OF assms(1,2) r] failed(1,3) \<open>m \<noteq> None\<close> show ?thesis
      by (auto simp: recorded_def outcome_def outcome_status_def outcome_message_def split: if_splits)
  next
    case (paid r)
    then have r: "MarkPaidAndConfirm pay (TransactionID (fst result)) d = (Inr True, d')"
      using \<open>m \<noteq> None\<close> by (auto split: if_splits)
    from MarkPaid_Inr [OF assms(1) r] paid(1,3) \<open>m \<noteq> None\<close> show ?thesis
      by (auto simp: recorded_def outcome_def outcome_status_def outcome_message_def split: if_splits)
  qed
qed

section \<open>Paid means charged\<close>

text \<open>Every paid payment is on record at the gateway, under its key and with its transaction id.\<close>

definition paid_on_record :: "(string \<Rightarrow> ChargeResult option) \<Rightarrow> tables \<Rightarrow> bool" where
  "paid_on_record rec t \<longleftrightarrow> (\<forall>p \<in> set (payments t). Payment_Status p = PaymentStatusPaid \<longrightarrow>
     rec (Payment_IdempotencyKey p) \<noteq> None \<and>
     Payment_ProviderTxnID p = map_option TransactionID (rec (Payment_IdempotencyKey p)))"

lemma paid_on_record_mono:
  assumes "paid_on_record rec t" and "\<And>k res. rec k = Some res \<Longrightarrow> rec' k = Some res"
  shows "paid_on_record rec' t"
proof -
  have "rec' k = rec k" if "rec k \<noteq> None" for k using that assms(2) by fastforce
  with assms(1) show ?thesis unfolding paid_on_record_def by metis
qed

lemma paid_on_record_cong: "payments t' = payments t \<Longrightarrow> paid_on_record rec t' = paid_on_record rec t"
  by (simp add: paid_on_record_def)

lemma wf_payment_ids: "wf_db d \<Longrightarrow> distinct (map Payment_ID (payments (tbl d)))"
  by (simp add: wf_db_def wf_tables_def wf_payments_def ids_ok_def)

lemma held_key:
  assumes "wf_db d" and "held (tbl d) pay" and "r \<in> set (payments (tbl d))" and "Payment_ID r = Payment_ID pay"
  shows "Payment_IdempotencyKey r = Payment_IdempotencyKey pay" and "Payment_OrderID r = Payment_OrderID pay"
  using assms(2-4) distinct_map_eqD [OF wf_payment_ids [OF assms(1)]] unfolding held_def by metis+

lemma recorded_paid:
  assumes "wf_db d" and "held (tbl d) pay" and "paid_on_record rec (tbl d)" and "recorded pay result now (tbl d) t'"
    and "snd result = None \<Longrightarrow> rec (Payment_IdempotencyKey pay) = Some (fst result)"
  shows "paid_on_record rec t'"
  unfolding paid_on_record_def
proof (intro ballI impI)
  fix p
  assume p: "p \<in> set (payments t')" "Payment_Status p = PaymentStatusPaid"
  from p(1) recorded_frame(1) [OF assms(4)] obtain r where r: "r \<in> set (payments (tbl d))"
    "p = (if pending_payment pay r then (outcome result r)\<lparr>Payment_UpdatedAt := now\<rparr> else r)"
    by (auto simp: upd_where_def)
  show "rec (Payment_IdempotencyKey p) \<noteq> None \<and>
      Payment_ProviderTxnID p = map_option TransactionID (rec (Payment_IdempotencyKey p))"
  proof (cases "pending_payment pay r")
    case True
    then have "Payment_IdempotencyKey r = Payment_IdempotencyKey pay" using held_key(1) [OF assms(1,2) r(1)] by simp
    then show ?thesis
      using True r(2) p(2) assms(5) by (auto simp: outcome_def set_paid_def set_failed_def split: option.splits)
  next
    case False
    then show ?thesis using r p(2) assms(3) by (auto simp: paid_on_record_def)
  qed
qed

context payment_gateway
begin

lemma charge_loop_record:
  assumes "charge_loop Charge cfg l req attempt e g sl = (r, g', sl')"
  shows "(\<forall>k res. on_record g k = Some res \<longrightarrow> on_record g' k = Some res) \<and>
    (\<forall>k. k \<noteq> Charge_IdempotencyKey req \<longrightarrow> on_record g' k = on_record g k) \<and>
    (snd r = None \<and> (e \<noteq> None \<or> attempt \<le> MaxRetries cfg) \<longrightarrow> on_record g' (Charge_IdempotencyKey req) = Some (fst r))"
  using assms
proof (induction "nat (MaxRetries cfg + 1 - attempt)" arbitrary: attempt e g sl)
  case 0
  then show ?case by (auto simp: charge_loop_stop)
next
  case (Suc n)
  then have le: "attempt \<le> MaxRetries cfg" by linarith
  obtain c g1 where c: "Charge (luck_charge l attempt) (AttemptTimeout cfg) req g = (c, g1)"
    by (cases "Charge (luck_charge l attempt) (AttemptTimeout cfg) req g")
  note G = charge_kept [OF c] charge_frame [OF c]
  show ?case
  proof (cases c)
    case (Inr res)
    then have "r = (res, None)" "g' = g1" using Suc(3) le c by (simp_all add: charge_loop.simps)
    then show ?thesis using G charge_accepted [of "luck_charge l attempt" "AttemptTimeout cfg" req g res g1] c Inr by auto
  next
    case (Inl x)
    let ?sl = "if attempt < MaxRetries cfg then sl @ [backoff (luck_Int63n l attempt) cfg attempt] else sl"
    have "charge_loop Charge cfg l req (attempt + 1) (Some x) g1 ?sl = (r, g', sl')"
      using Suc(3) le c Inl by (subst (asm) charge_loop.simps) simp
    moreover have "n = nat (MaxRetries cfg + 1 - (attempt + 1))" using Suc(2) by linarith
    ultimately have "(\<forall>k res. on_record g1 k = Some res \<longrightarrow> on_record g' k = Some res) \<and>
        (\<forall>k. k \<noteq> Charge_IdempotencyKey req \<longrightarrow> on_record g' k = on_record g1 k) \<and>
        (snd r = None \<longrightarrow> on_record g' (Charge_IdempotencyKey req) = Some (fst r))"
      using Suc(1) [of "attempt + 1" "Some x" g1 ?sl] by simp
    with G show ?thesis by metis
  qed
qed

lemma charge_record:
  assumes "charge Charge cfg l pay g = (r, g', sl)"
  shows "on_record g k = Some res \<Longrightarrow> on_record g' k = Some res"
    and "k \<noteq> Payment_IdempotencyKey pay \<Longrightarrow> on_record g' k = on_record g k"
    and "snd r = None \<Longrightarrow> 1 \<le> MaxRetries cfg \<Longrightarrow> on_record g' (Payment_IdempotencyKey pay) = Some (fst r)"
  using charge_loop_record [OF assms [unfolded charge_def]] by (auto simp: charge_request_def)

end

section \<open>The contract of fulfillment\<close>

locale fulfilling = payment_gateway Charge on_record + notifier Notify hub_inv
  for Charge :: "'c \<Rightarrow> duration \<Rightarrow> ChargeRequest \<Rightarrow> ('g, go_error, ChargeResult) prog"
    and on_record :: "'g \<Rightarrow> string \<Rightarrow> ChargeResult option"
    and Notify :: "int \<Rightarrow> string \<Rightarrow> ('h, go_error, bool) prog"
    and hub_inv :: "'h \<Rightarrow> bool"
begin

lemma fulfill_safe:
  assumes "wf_db (env_db w)" and "paid_on_record (on_record (env_gw w)) (tbl (env_db w))" and "hub_inv (env_hub w)"
    and "1 \<le> MaxRetries cfg"
  shows "\<exists>w'. Fulfill Charge Notify cfg l now oid w = (Inr (), w') \<and> wf_db (env_db w') \<and>
    paid_on_record (on_record (env_gw w')) (tbl (env_db w')) \<and> hub_inv (env_hub w') \<and>
    later (tbl (env_db w)) (tbl (env_db w')) \<and> (\<forall>p. units (tbl (env_db w')) p = units (tbl (env_db w)) p) \<and>
    (\<forall>k res. on_record (env_gw w) k = Some res \<longrightarrow> on_record (env_gw w') k = Some res)"
proof -
  obtain q d1 where get: "GetPendingByOrderID oid (env_db w) = (q, d1)" by (cases "GetPendingByOrderID oid (env_db w)")
  note S = GetPending_same [OF get]
  show ?thesis
  proof (cases q)
    case (Inl e)
    then show ?thesis using get S(1) assms by (simp add: Fulfill_def)
  next
    case (Inr pay)
    then have held: "held (tbl d1) pay" using S by simp
    have wf1: "wf_db d1" using assms(1) S(1) by simp
    obtain r g sl where ch: "charge Charge cfg l pay (env_gw w) = (r, g, sl)" by (cases "charge Charge cfg l pay (env_gw w)") auto
    note C = charge_record [OF ch]
    obtain m d2 where fin: "finalize oid pay r d1 = (m, d2)" by (cases "finalize oid pay r d1")
    note F = finalize_keeps [OF wf1 held_stored [OF held] fin] finalize_tables(1) [OF wf1 held_stored [OF held] fin]
    have rec1: "paid_on_record (on_record g) (tbl d1)"
      using assms(2) S(1) C(1) paid_on_record_mono [of "on_record (env_gw w)" "tbl d1" "on_record g"] by simp
    have rec2: "paid_on_record (on_record g) (tbl d2)"
      using F(4) rec1 recorded_paid [OF wf1 held rec1, of r] C(3) assms(4) by auto
    show ?thesis
    proof (cases m)
      case None
      then show ?thesis
        using get Inr ch fin F(1-3) rec2 assms(3) S(1) C(1) by (simp add: Fulfill_def)
    next
      case (Some msg)
      obtain d3 h3 where send: "svc_Send Notify now oid msg (d2, env_hub w) = (Inr (), (d3, h3))" "hub_inv h3" "wf_db d3"
        "note_added oid msg (tbl d2) (tbl d3)"
        using send_returns [OF assms(3) F(1)] by blast
      note N = note_added_frame [OF send(4)]
      have "later (tbl (env_db w)) (tbl d3)" using later_trans [OF F(3) N(8)] S(1) by simp
      moreover have "paid_on_record (on_record g) (tbl d3)" using rec2 unfolding paid_on_record_cong [OF N(6)] .
      ultimately show ?thesis
        using get Inr ch fin Some send N(7) F(2) S(1) C(1) by (simp add: Fulfill_def)
    qed
  qed
qed

end

interpretation fulfiller: fulfilling fake_Charge charged "hub_Notify win pick rank" hub_ok for win pick rank
  by unfold_locales

section \<open>Properties\<close>

text \<open>
  C15. \<open>Fulfill\<close> is safe whatever the connection does, the gateway draws and the hub is in: it returns without
  a panic, keeps the database and the hub well formed, and keeps "paid means charged": every paid payment
  is on record at the gateway under its key and with its transaction id. Orders and payments only move
  on, no unit of stock is gained or lost, and no charge on record is changed or repeated.
\<close>

theorem Fulfill_safe:
  assumes "wf_db (env_db w)" and "paid_on_record (charged (env_gw w)) (tbl (env_db w))" and "hub_ok (env_hub w)"
    and "1 \<le> MaxRetries cfg"
  shows "\<exists>w'. Fulfill fake_Charge (hub_Notify win pick rank) cfg l now oid w = (Inr (), w') \<and> wf_db (env_db w') \<and>
    paid_on_record (charged (env_gw w')) (tbl (env_db w')) \<and> hub_ok (env_hub w') \<and>
    later (tbl (env_db w)) (tbl (env_db w')) \<and> (\<forall>p. units (tbl (env_db w')) p = units (tbl (env_db w)) p) \<and>
    (\<forall>k res. charged (env_gw w) k = Some res \<longrightarrow> charged (env_gw w') k = Some res)"
  using assms by (rule fulfiller.fulfill_safe)

text \<open>The shop with the gateway that has charged its confirmed order.\<close>

definition sample_gateway :: fakeGateway where
  "sample_gateway = (NewFakeGateway (1 / 5))\<lparr>charged := [''k1'' \<mapsto> \<lparr>TransactionID = ''fake-1''\<rparr>]\<rparr>"

definition sample_env :: "(fakeGateway, Hub) env" where
  "sample_env = \<lparr>env_db = sample_db, env_gw = sample_gateway, env_hub = sample_hub, env_slept = []\<rparr>"

lemma sample_env_ok:
  "wf_db (env_db sample_env)" "paid_on_record (charged (env_gw sample_env)) (tbl (env_db sample_env))"
  "hub_ok (env_hub sample_env)"
proof -
  show "wf_db (env_db sample_env)" "hub_ok (env_hub sample_env)"
    using hub_reach_ok [OF sample_hub_reach] by (simp_all add: sample_env_def)
  show "paid_on_record (charged (env_gw sample_env)) (tbl (env_db sample_env))" by code_simp
qed

theorem Fulfill_safe_witness:
  "paid_on_record (charged (env_gw sample_env)) (tbl (env_db sample_env)) \<and>
   (\<exists>w'. Fulfill fake_Charge (hub_Notify True True id) (sample_cfg 3) sample_luck 60 2 sample_env = (Inr (), w') \<and>
      paid_on_record (charged (env_gw w')) (tbl (env_db w')))"
proof -
  have "1 \<le> MaxRetries (sample_cfg 3)" by (simp add: sample_cfg_def)
  from Fulfill_safe [where w = sample_env, OF sample_env_ok this] show ?thesis using sample_env_ok(2) by blast
qed

lemma GetPending_ok:
  assumes "replies d = []" and "wf_db d" and "int4 (Payment_OrderID p)" and "p \<in> set (payments (tbl d))"
    and "Payment_Status p = PaymentStatusPending"
  shows "GetPendingByOrderID (Payment_OrderID p) d = (Inr (scan_payment p), d)"
proof -
  have "distinct (map Payment_OrderID (payments (tbl d)))"
    using assms(2) by (simp add: wf_db_def wf_tables_def settled_def)
  then have "first_by Payment_ID (\<lambda>q. Payment_OrderID q = Payment_OrderID p \<and> Payment_Status q = PaymentStatusPending)
      (payments (tbl d)) = Inr p"
    using assms(4,5) by (intro first_by_unique [where k' = Payment_OrderID]) auto
  then show ?thesis using GetPending_run [OF assms(1,3)] by simp
qed

lemma finalize_ok:
  assumes "replies d = []" and "wf_db d" and "held (tbl d) pay" and "is_pending (tbl d) pay"
    and "int4 (Payment_ID pay)" and "int4 (Payment_OrderID pay)"
    and "list_all (\<lambda>i. int4 (Item_Quantity i) \<and> int4 (Item_ProductID i)) (items_of (Payment_OrderID pay) (tbl d))"
    and "\<And>p. int4 (units (tbl d) p)"
  shows "\<exists>d'. finalize oid pay result d = (Some (outcome_message result oid), d') \<and> replies d' = []"
proof (cases "snd result")
  case None
  obtain b d' where r: "MarkPaidAndConfirm pay (TransactionID (fst result)) d = (Inr b, d')" "replies d' = []"
    using MarkPaid_ok [OF assms(1,5,6)] by blast
  moreover have b using MarkPaid_Inr(1) [OF assms(2) r(1)] assms(4) by simp
  ultimately show ?thesis using None by (simp add: finalize_def outcome_message_def)
next
  case (Some e)
  obtain b d' where r: "FailCancelAndRestock pay d = (Inr b, d')" "replies d' = []"
    using FailCancel_ok [OF assms(1,2) held_stored [OF assms(3)] assms(5-8)] by blast
  moreover have b using FailCancel_Inr(1) [OF assms(2) held_stored [OF assms(3)] r(1)] assms(4) by simp
  ultimately show ?thesis using Some by (simp add: finalize_def outcome_message_def)
qed

lemma finalize_seq:
  assumes "wf_db d" and "stored (tbl d) pay" and fin: "finalize oid pay result d = (m, d')" and "m \<noteq> None"
  shows "seq d' = seq d"
  using fin
proof (cases rule: finalize_cases)
  case (failed e r)
  then have "transaction (fail_cancel_body pay) d = (Inr True, d')"
    using assms(4) by (auto simp: FailCancelAndRestock_def split: if_splits)
  then obtain d1 d2 where d: "same d d1" "fail_cancel_body pay d1 = (Inr True, d2)" "same d2 d'" by (rule transaction_Inr)
  then show ?thesis using fail_cancel_body_Inr(2) [of d1 pay True d2] assms(1,2) by simp
next
  case (paid r)
  then have "transaction (mark_paid_body pay (TransactionID (fst result))) d = (Inr True, d')"
    using assms(4) by (auto simp: MarkPaidAndConfirm_def split: if_splits)
  then obtain d1 d2 where d: "same d d1" "mark_paid_body pay (TransactionID (fst result)) d1 = (Inr True, d2)" "same d2 d'"
    by (rule transaction_Inr)
  then show ?thesis using mark_paid_body_Inr(2) [of d1 pay _ True d2] assms(1) by simp
qed

lemma charge_accepted_iff:
  assumes "1 \<le> MaxRetries cfg" and "charge Charge cfg l pay g = (r, g', sl)"
  shows "snd r = None \<longleftrightarrow> first_accepted Charge cfg l (charge_request pay) g \<noteq> None"
  using assms charge_loop_tries [of 0 cfg Charge l "charge_request pay" g None "[]"]
  by (auto simp: charge_def first_accepted_def split: option.splits)

lemma charge_accepted_result:
  assumes "charge Charge cfg l pay g = (r, g', sl)" and "first_accepted Charge cfg l (charge_request pay) g = Some k"
  shows "fst r = projr (try_result Charge cfg l (charge_request pay) g k)"
  using assms charge_loop_tries [of 0 cfg Charge l "charge_request pay" g None "[]"]
  by (auto simp: charge_def first_accepted_def)

text \<open>A payment whose outcome was recorded is paid under the transaction of the charge, or failed.\<close>

lemma recorded_payment:
  assumes "wf_db d" and "is_pending (tbl d) pay" and "recorded pay result now (tbl d) t'"
    and "r \<in> set (payments t')" and "Payment_ID r = Payment_ID pay"
  shows "if snd result = None
    then Payment_Status r = PaymentStatusPaid \<and> Payment_ProviderTxnID r = Some (TransactionID (fst result))
    else Payment_Status r = PaymentStatusFailed"
proof -
  from assms(4) recorded_frame(1) [OF assms(3)] obtain q where q: "q \<in> set (payments (tbl d))"
    "r = (if pending_payment pay q then (outcome result q)\<lparr>Payment_UpdatedAt := now\<rparr> else q)"
    by (auto simp: upd_where_def)
  obtain p where p: "p \<in> set (payments (tbl d))" "pending_payment pay p" using assms(2) by (auto simp: is_pending_def)
  have "Payment_ID q = Payment_ID p"
    using assms(5) q(2) p(2) by (auto simp: outcome_def set_paid_def set_failed_def split: if_splits option.splits)
  then have "q = p" using distinct_map_eqD [OF wf_payment_ids [OF assms(1)]] q(1) p(1) by blast
  then show ?thesis using q(2) p(2) by (auto simp: outcome_def set_paid_def set_failed_def split: option.splits)
qed

text \<open>The order of a payment whose outcome was recorded has the status of the outcome.\<close>

lemma recorded_order:
  assumes "wf_db d" and "held (tbl d) pay" and "is_pending (tbl d) pay" and "recorded pay result now (tbl d) t'"
    and "r \<in> set (orders t')" and "Order_ID r = Payment_OrderID pay"
  shows "Order_Status r = outcome_status result"
proof -
  from assms(5) recorded_frame(3) [OF assms(4)] obtain q where q: "q \<in> set (orders (tbl d))"
    "r = (if pending_order pay q then q\<lparr>Order_Status := outcome_status result, Order_UpdatedAt := now\<rparr> else q)"
    by (auto simp: upd_where_def)
  obtain p where p: "p \<in> set (payments (tbl d))" "pending_payment pay p" using assms(3) by (auto simp: is_pending_def)
  have "Payment_OrderID p = Order_ID q" using held_key(2) [OF assms(1,2) p(1)] p(2) assms(6) q(2) by (auto split: if_splits)
  then have "coupled (Payment_Status p) (Order_Status q)"
    using assms(1) p(1) q(1) by (auto simp: wf_db_def wf_tables_def settled_def)
  then have "Order_Status q = OrderStatusPending" using p(2) by (simp add: coupled_def)
  then show ?thesis using q(2) assms(6) by (auto split: if_splits)
qed

text \<open>
  C16. \<open>Fulfill\<close> drives a pending order to its end, with the database answering. When one of the
  \<open>MaxRetries\<close> charge attempts is accepted, the payment is afterwards paid, with the transaction id of the
  first accepted attempt, and the order confirmed; else the payment is failed and the order
  cancelled. The customer has exactly one new notification, which says so.
\<close>

theorem Fulfill_terminal:
  assumes db: "replies (env_db w) = []" "wf_db (env_db w)" and hub: "hub_ok (env_hub w)"
    and p: "p \<in> set (payments (tbl (env_db w)))" "Payment_Status p = PaymentStatusPending"
    and range: "int4 (Payment_ID p)" "int4 (Payment_OrderID p)"
      "list_all (\<lambda>i. int4 (Item_Quantity i) \<and> int4 (Item_ProductID i)) (items_of (Payment_OrderID p) (tbl (env_db w)))"
      "\<And>q. int4 (units (tbl (env_db w)) q)" "int4 (seq (env_db w) T_notifications)"
    and retries: "1 \<le> MaxRetries cfg"
    and acc: "acc = first_accepted fake_Charge cfg l (charge_request (scan_payment p)) (env_gw w)"
  shows "\<exists>w' n q ord. Fulfill fake_Charge (hub_Notify win pick rank) cfg l now (Payment_OrderID p) w = (Inr (), w') \<and>
    wf_db (env_db w') \<and>
    q \<in> set (payments (tbl (env_db w'))) \<and> Payment_ID q = Payment_ID p \<and>
    ord \<in> set (orders (tbl (env_db w'))) \<and> Order_ID ord = Payment_OrderID p \<and>
    notifications (tbl (env_db w')) = notifications (tbl (env_db w)) @ [n] \<and> Notification_OrderID n = Payment_OrderID p \<and>
    (case acc of
       Some k \<Rightarrow> Payment_Status q = PaymentStatusPaid \<and> Payment_ProviderTxnID q =
           Some (TransactionID (projr (try_result fake_Charge cfg l (charge_request (scan_payment p)) (env_gw w) k))) \<and>
         Order_Status ord = OrderStatusConfirmed \<and>
         Notification_Message n = ''Order #'' @ Itoa (Payment_OrderID p) @ '' is confirmed. Payment received.''
     | None \<Rightarrow> Payment_Status q = PaymentStatusFailed \<and> Order_Status ord = OrderStatusCancelled \<and>
         Notification_Message n = ''Order #'' @ Itoa (Payment_OrderID p) @ '' was cancelled: payment could not be processed.'')"
proof -
  let ?d = "env_db w" and ?pay = "scan_payment p" and ?oid = "Payment_OrderID p"
  have pay: "Payment_ID ?pay = Payment_ID p" "Payment_OrderID ?pay = ?oid" "Payment_IdempotencyKey ?pay = Payment_IdempotencyKey p"
    by (simp_all add: scan_payment_def)
  have get: "GetPendingByOrderID ?oid ?d = (Inr ?pay, ?d)" using GetPending_ok [OF db range(2) p] .
  have held: "held (tbl ?d) ?pay" "is_pending (tbl ?d) ?pay" using p pay by (auto simp: held_def is_pending_def)
  obtain r g sl where ch: "charge fake_Charge cfg l ?pay (env_gw w) = (r, g, sl)"
    by (cases "charge fake_Charge cfg l ?pay (env_gw w)") auto
  obtain d2 where fin: "finalize ?oid ?pay r ?d = (Some (outcome_message r ?oid), d2)" "replies d2 = []"
    using finalize_ok [OF db held, of ?oid r] range pay by auto
  note F = finalize_keeps [OF db(2) held_stored [OF held(1)] fin(1)]
    finalize_tables(2) [OF db(2) held_stored [OF held(1)] fin(1)] finalize_seq [OF db(2) held_stored [OF held(1)] fin(1)]
  have rec: "recorded ?pay r (pg_now ?d) (tbl ?d) (tbl d2)" using F(4) by simp
  have "set (map Order_ID (orders (tbl d2))) = set (map Payment_OrderID (payments (tbl d2)))"
    using F(1) by (simp add: wf_db_def wf_tables_def settled_def)
  moreover have "held (tbl d2) ?pay" using held_later [OF F(3) held(1)] .
  ultimately have oid: "?oid \<in> set (map Order_ID (orders (tbl d2)))" using pay(2) unfolding held_def by (metis imageI list.set_map)
  obtain n b d3 h3 where send: "svc_Send (hub_Notify win pick rank) now ?oid (outcome_message r ?oid) (d2, env_hub w) = (Inr (), (d3, h3))"
    "tbl d3 = (tbl d2)\<lparr>notifications := notifications (tbl d2) @ [n]\<rparr>" "Notification_OrderID n = ?oid"
    "Notification_Message n = outcome_message r ?oid"
    by (rule Send_ok [OF fin(2) F(1) range(2) oid _ hub]) (use F(5) range(5) in auto)
  have run: "Fulfill fake_Charge (hub_Notify win pick rank) cfg l now ?oid w
      = (Inr (), w\<lparr>env_db := d3, env_gw := g, env_slept := env_slept w @ sl, env_hub := h3\<rparr>)"
    using get ch fin(1) send(1) by (simp add: Fulfill_def)
  have iff: "snd r = None \<longleftrightarrow> acc \<noteq> None" unfolding acc by (rule charge_accepted_iff [OF retries ch])
  from oid obtain ord where ord: "ord \<in> set (orders (tbl d2))" "Order_ID ord = ?oid" by auto
  have status: "Order_Status ord = outcome_status r" using recorded_order [OF db(2) held rec ord(1)] ord(2) pay(2) by simp
  obtain q where q: "q \<in> set (payments (tbl d2))" "Payment_ID q = Payment_ID p"
    using held_later [OF F(3) held(1)] pay(1) by (auto simp: held_def)
  note paid = recorded_payment [OF db(2) held(2) rec q(1)]
  have noted: "notifications (tbl d3) = notifications (tbl ?d) @ [n]" using send(2) recorded_frame(2) [OF rec] by simp
  have keep: "q \<in> set (payments (tbl d3))" "ord \<in> set (orders (tbl d3))" using q(1) ord(1) send(2) by simp_all
  have wf3: "wf_db d3" using hub.send_returns [OF hub F(1)] send(1) by (metis prod.inject)
  show ?thesis
    unfolding run by (rule exI [of _ "w\<lparr>env_db := d3, env_gw := g, env_slept := env_slept w @ sl, env_hub := h3\<rparr>"],
      rule exI [of _ n], rule exI [of _ q], rule exI [of _ ord])
      (use wf3 keep q(2) ord(2) noted send(3,4) status paid iff charge_accepted_result [OF ch] pay(1) in
       \<open>auto simp: acc outcome_status_def outcome_message_def confirmed_message_def cancelled_message_def split: option.splits\<close>)
qed

theorem Fulfill_terminal_witness:
  "\<exists>w' n q ord. Fulfill fake_Charge (hub_Notify True True id) (sample_cfg 3) sample_luck 60 2 sample_env = (Inr (), w') \<and>
    q \<in> set (payments (tbl (env_db w'))) \<and> Payment_Status q = PaymentStatusPaid \<and> Payment_ProviderTxnID q = Some ''txn_7f'' \<and>
    ord \<in> set (orders (tbl (env_db w'))) \<and> Order_ID ord = 2 \<and> Order_Status ord = OrderStatusConfirmed \<and>
    notifications (tbl (env_db w')) = [n]"
proof -
  let ?p = "sample_payment 2 ''k2'' PaymentStatusPending 30 None"
  have s: "replies (env_db sample_env) = []" "wf_db (env_db sample_env)" "hub_ok (env_hub sample_env)"
    using sample_env_ok by (simp_all add: sample_env_def)
  have c: "?p \<in> set (payments (tbl (env_db sample_env)))" "Payment_Status ?p = PaymentStatusPending"
    "int4 (Payment_ID ?p)" "int4 (Payment_OrderID ?p)"
    "list_all (\<lambda>i. int4 (Item_Quantity i) \<and> int4 (Item_ProductID i)) (items_of (Payment_OrderID ?p) (tbl (env_db sample_env)))"
    "int4 (seq (env_db sample_env) T_notifications)" "1 \<le> MaxRetries (sample_cfg 3)"
    "first_accepted fake_Charge (sample_cfg 3) sample_luck (charge_request (scan_payment ?p)) (env_gw sample_env) = Some 1"
    "try_result fake_Charge (sample_cfg 3) sample_luck (charge_request (scan_payment ?p)) (env_gw sample_env) 1
       = Inr \<lparr>TransactionID = ''txn_7f''\<rparr>"
    "notifications (tbl (env_db sample_env)) = []" "Payment_OrderID ?p = 2"
    by code_simp+
  have u: "int4 (units (tbl (env_db sample_env)) q)" for q
    by (simp add: sample_env_def units_def allocated_def live_def sample_defs int4_def)
  from Fulfill_terminal [where w = sample_env and p = ?p, OF s c(1-5) u c(6,7) refl, of True True id sample_luck 60] c(8-11)
  show ?thesis by simp blast
qed

text \<open>
  C20. With \<open>MaxRetries\<close> at 0 or below, which the configuration does not exclude, \<open>charge\<close> makes no attempt and
  returns an empty result with a nil error, so \<open>Fulfill\<close> marks the payment paid under an empty
  transaction id and confirms the order without having charged anything: the gateway is never called.
\<close>

theorem Fulfill_without_charge:
  assumes "replies (env_db w) = []" and "wf_db (env_db w)" and "hub_ok (env_hub w)"
    and "p \<in> set (payments (tbl (env_db w)))" and "Payment_Status p = PaymentStatusPending"
    and "int4 (Payment_ID p)" and "int4 (Payment_OrderID p)" and "MaxRetries cfg \<le> 0"
  shows "\<exists>w'. Fulfill fake_Charge (hub_Notify win pick rank) cfg l now (Payment_OrderID p) w = (Inr (), w') \<and>
    env_gw w' = env_gw w \<and>
    (\<exists>q \<in> set (payments (tbl (env_db w'))). Payment_ID q = Payment_ID p \<and> Payment_Status q = PaymentStatusPaid \<and>
       Payment_ProviderTxnID q = Some []) \<and>
    (\<exists>ord \<in> set (orders (tbl (env_db w'))). Order_ID ord = Payment_OrderID p \<and> Order_Status ord = OrderStatusConfirmed)"
proof -
  let ?d = "env_db w" and ?pay = "scan_payment p" and ?oid = "Payment_OrderID p"
  have pay: "Payment_ID ?pay = Payment_ID p" "Payment_OrderID ?pay = ?oid" by (simp_all add: scan_payment_def)
  have pend: "is_pending (tbl ?d) ?pay" "stored (tbl ?d) ?pay" using assms(4,5) pay by (auto simp: is_pending_def stored_def)
  obtain b d where r: "MarkPaidAndConfirm ?pay [] ?d = (Inr b, d)"
    using MarkPaid_ok [of ?d ?pay "[]"] assms(1,6,7) pay by auto
  note M = MarkPaid_Inr [OF assms(2) r]
  have paid: "(set_paid [] p)\<lparr>Payment_UpdatedAt := pg_now ?d\<rparr> \<in> set (payments (tbl d))"
    using assms(4,5) M(1,3) pend pay by (auto simp: settle_def upd_where_def set_paid_def)
  have ch: "charge fake_Charge cfg l ?pay (env_gw w) = ((no_result, None), env_gw w, [])"
    using assms(8) by (simp add: charge_def charge_loop_stop)
  have fin: "finalize ?oid ?pay (no_result, None) ?d = (Some (confirmed_message ?oid), d)"
    using r M(1) pend by (simp add: finalize_def no_result_def)
  have held: "held (tbl ?d) ?pay" using assms(4) pay by (auto simp: held_def scan_payment_def)
  note wf = MarkPaid_keeps(1) [OF assms(2) pend(2) r]
  have rec: "recorded ?pay (no_result, None) (pg_now ?d) (tbl ?d) (tbl d)"
    using finalize_tables(2) [OF assms(2) pend(2) fin] by simp
  have "?oid \<in> set (map Order_ID (orders (tbl d)))"
    using wf held_later [OF MarkPaid_later [OF assms(2) r] held] pay(2)
    by (auto simp: wf_db_def wf_tables_def settled_def held_def) (metis imageI)
  then obtain ord where "ord \<in> set (orders (tbl d))" "Order_ID ord = ?oid" by auto
  then have ord: "\<exists>ord \<in> set (orders (tbl d)). Order_ID ord = ?oid \<and> Order_Status ord = OrderStatusConfirmed"
    using recorded_order [OF assms(2) held pend(1) rec] pay(2) by (auto simp: outcome_status_def)
  have "wf_db d" using MarkPaid_keeps(1) [OF assms(2) pend(2) r] .
  then obtain d3 h3 where send: "svc_Send (hub_Notify win pick rank) now ?oid (confirmed_message ?oid) (d, env_hub w) = (Inr (), (d3, h3))"
    "note_added ?oid (confirmed_message ?oid) (tbl d) (tbl d3)"
    using hub.send_returns [OF assms(3)] by blast
  have "Fulfill fake_Charge (hub_Notify win pick rank) cfg l now ?oid w =
      (Inr (), w\<lparr>env_db := d3, env_gw := env_gw w, env_slept := env_slept w, env_hub := h3\<rparr>)"
    using GetPending_ok [OF assms(1,2,7,4,5)] ch fin send(1) by (simp add: Fulfill_def)
  moreover have "\<exists>ord \<in> set (orders (tbl d3)). Order_ID ord = ?oid \<and> Order_Status ord = OrderStatusConfirmed"
    using ord note_added_frame(4) [OF send(2)] by auto
  moreover have "(set_paid [] p)\<lparr>Payment_UpdatedAt := pg_now ?d\<rparr> \<in> set (payments (tbl d3))"
    using paid note_added_frame(6) [OF send(2)] by simp
  then have "\<exists>q \<in> set (payments (tbl d3)). Payment_ID q = Payment_ID p \<and> Payment_Status q = PaymentStatusPaid \<and>
      Payment_ProviderTxnID q = Some []"
    by (rule bexI [rotated]) (simp add: set_paid_def)
  ultimately show ?thesis by simp
qed

theorem Fulfill_without_charge_witness:
  "\<exists>w'. Fulfill fake_Charge (hub_Notify True True id) (sample_cfg 0) sample_luck 60 2 sample_env = (Inr (), w') \<and>
    env_gw w' = sample_gateway \<and> (\<exists>q \<in> set (payments (tbl (env_db w'))). Payment_ID q = 2 \<and> Payment_Status q = PaymentStatusPaid)"
proof -
  let ?p = "sample_payment 2 ''k2'' PaymentStatusPending 30 None"
  have s: "replies (env_db sample_env) = []" "wf_db (env_db sample_env)" "hub_ok (env_hub sample_env)"
    using sample_env_ok by (simp_all add: sample_env_def)
  have c: "?p \<in> set (payments (tbl (env_db sample_env)))" "Payment_Status ?p = PaymentStatusPending"
    "int4 (Payment_ID ?p)" "int4 (Payment_OrderID ?p)" "MaxRetries (sample_cfg 0) \<le> 0" "Payment_ID ?p = 2" "Payment_OrderID ?p = 2"
    by code_simp+
  from Fulfill_without_charge [OF s c(1-5), of True True id sample_luck 60] c(6,7) show ?thesis
    by (auto simp: sample_env_def)
qed

end
