(* ===== verification/Sweeper.thy ===== *)
theory Sweeper
  imports OrderSettling Pool
begin

text \<open>
  The reconciliation loop of \<open>internal/workers/sweeper.go\<close>: \<open>reclaim\<close> lists the orders whose payment has been
  pending for too long and hands them to the pool again, once at the start and then at every tick, until
  \<open>Stop\<close>.
\<close>

section \<open>One sweep\<close>

definition sweep_batch :: "WorkerConfig \<Rightarrow> int" where
  "sweep_batch cfg = (if SweepBatchSize cfg \<le> 0 then QueueSize cfg else SweepBatchSize cfg)"

text \<open>An error of the listing is logged.\<close>

definition reclaim :: "(int \<Rightarrow> ('q, go_error, unit) prog) \<Rightarrow> WorkerConfig \<Rightarrow> time \<Rightarrow> (pg \<times> 'q, go_error, unit) prog" where
  "reclaim Process cfg now w =
     (case w of (d, q) \<Rightarrow>
        (case ListStalePending now (StaleAfter cfg) (sweep_batch cfg) d of
           (Inl e, d') \<Rightarrow> (Inr (), (d', q))
         | (Inr orderIDs, d') \<Rightarrow> (case forE orderIDs Process q of (r, q') \<Rightarrow> (r, (d', q')))))"

section \<open>The loop\<close>

datatype sweeper_pc = NotStarted | FirstSweep | Looping | Returned | Crashed

record Sweeper =
  Sweeper_quit :: "unit channel"
  Sweeper_done :: "unit channel"
  Sweeper_pc :: sweeper_pc

definition NewSweeper :: Sweeper where
  "NewSweeper = \<lparr>Sweeper_quit = make_chan 0, Sweeper_done = make_chan 0, Sweeper_pc = NotStarted\<rparr>"

definition sweeper_Start :: "Sweeper \<Rightarrow> Sweeper" where
  "sweeper_Start s = s\<lparr>Sweeper_pc := FirstSweep\<rparr>"

text \<open>\<open>defer close(s.done)\<close>, on every way out of \<open>run\<close>.\<close>

definition sweeper_exit :: "sweeper_pc \<Rightarrow> Sweeper \<Rightarrow> Sweeper" where
  "sweeper_exit pc s = s\<lparr>Sweeper_done := snd (close_chan (Sweeper_done s)), Sweeper_pc := pc\<rparr>"

text \<open>
  The beginning of \<open>run\<close>: a sweep, then the ticker, which panics when the interval is not positive. A
  panic of \<open>Process\<close> unwinds \<open>run\<close> as well.
\<close>

definition sweeper_first ::
  "(int \<Rightarrow> ('q, go_error, unit) prog) \<Rightarrow> WorkerConfig \<Rightarrow> time \<Rightarrow> (Sweeper \<times> pg \<times> 'q, go_error, unit) prog"
where
  "sweeper_first Process cfg now w =
     (case w of (s, dq) \<Rightarrow>
        (case reclaim Process cfg now dq of
           (Inl e, dq') \<Rightarrow> (Inl e, (sweeper_exit Crashed s, dq'))
         | (Inr _, dq') \<Rightarrow>
             if SweepInterval cfg \<le> 0 then (Inl (GoPanic ''non-positive interval for NewTicker''), (sweeper_exit Crashed s, dq'))
             else (Inr (), (s\<lparr>Sweeper_pc := Looping\<rparr>, dq'))))"

text \<open>A round of the loop: a tick or the closed \<open>quit\<close>; when both are ready \<open>tick\<close> is the choice of the \<open>select\<close>.\<close>

definition sweeper_round ::
  "(int \<Rightarrow> ('q, go_error, unit) prog) \<Rightarrow> WorkerConfig \<Rightarrow> time \<Rightarrow> bool \<Rightarrow> (Sweeper \<times> pg \<times> 'q, go_error, unit) prog"
where
  "sweeper_round Process cfg now tick w =
     (case w of (s, dq) \<Rightarrow>
        if tick then
          (case reclaim Process cfg now dq of
             (Inl e, dq') \<Rightarrow> (Inl e, (sweeper_exit Crashed s, dq'))
           | (Inr _, dq') \<Rightarrow> (Inr (), (s, dq')))
        else if chan_closed (Sweeper_quit s) then (Inr (), (sweeper_exit Returned s, dq))
        else (Inr (), (s, dq)))"

text \<open>\<open>Stop\<close> closes \<open>quit\<close> and returns when \<open>done\<close> is closed.\<close>

definition sweeper_Stop :: "(Sweeper, go_error, unit) prog" where
  "sweeper_Stop s = (case close_chan (Sweeper_quit s) of (r, ch) \<Rightarrow> (r, s\<lparr>Sweeper_quit := ch\<rparr>))"

definition sweeper_stopped :: "Sweeper \<Rightarrow> bool" where
  "sweeper_stopped s \<longleftrightarrow> chan_closed (Sweeper_done s)"

section \<open>Lemmas\<close>

text \<open>Sends on an open pool with a buffer fill it up to its size.\<close>

lemma Process_buffered:
  assumes "pool_ok cfg p" and "\<not> chan_closed (Pool_jobs p)" and "\<not> chan_closed (Pool_quit p)" and "0 < QueueSize cfg"
  shows "pool_Process pick who i p =
    (Inr (), if int (length (chan_buf (Pool_jobs p))) < QueueSize cfg
       then p\<lparr>Pool_jobs := (Pool_jobs p)\<lparr>chan_buf := chan_buf (Pool_jobs p) @ [i]\<rparr>, Pool_accepted := Pool_accepted p @ [i]\<rparr>
       else p)"
  using assms by (simp add: pool_Process_def send_ready_def pool_send_def try_send_def pool_ok_def)

lemma Process_loop:
  assumes "pool_ok cfg p" and "\<not> chan_closed (Pool_jobs p)" and "\<not> chan_closed (Pool_quit p)" and "0 < QueueSize cfg"
  shows "\<exists>p'. forE ids (pool_Process pick who) p = (Inr (), p') \<and> pool_ok cfg p' \<and>
    chan_buf (Pool_jobs p') = chan_buf (Pool_jobs p) @ take (nat (QueueSize cfg) - length (chan_buf (Pool_jobs p))) ids \<and>
    Pool_workers p' = Pool_workers p \<and> Pool_taken p' = Pool_taken p"
  using assms
proof (induction ids arbitrary: p)
  case (Cons i ids)
  let ?q = "if int (length (chan_buf (Pool_jobs p))) < QueueSize cfg
       then p\<lparr>Pool_jobs := (Pool_jobs p)\<lparr>chan_buf := chan_buf (Pool_jobs p) @ [i]\<rparr>, Pool_accepted := Pool_accepted p @ [i]\<rparr>
       else p"
  note one = Process_buffered [OF Cons.prems, of pick who i]
  have q: "pool_ok cfg ?q" "\<not> chan_closed (Pool_jobs ?q)" "\<not> chan_closed (Pool_quit ?q)"
    using Process_ok [OF Cons.prems(1) one] Cons.prems(2,3) by simp_all
  from Cons.IH [OF q Cons.prems(4)] obtain p' where p': "forE ids (pool_Process pick who) ?q = (Inr (), p')" "pool_ok cfg p'"
    "chan_buf (Pool_jobs p') = chan_buf (Pool_jobs ?q) @ take (nat (QueueSize cfg) - length (chan_buf (Pool_jobs ?q))) ids"
    "Pool_workers p' = Pool_workers ?q" "Pool_taken p' = Pool_taken ?q" by blast
  have "chan_buf (Pool_jobs p') = chan_buf (Pool_jobs p) @ take (nat (QueueSize cfg) - length (chan_buf (Pool_jobs p))) (i # ids)"
  proof (cases "int (length (chan_buf (Pool_jobs p))) < QueueSize cfg")
    case True
    then have "nat (QueueSize cfg) - length (chan_buf (Pool_jobs p)) = Suc (nat (QueueSize cfg) - Suc (length (chan_buf (Pool_jobs p))))"
      by linarith
    then show ?thesis using p'(3) True by simp
  next
    case False
    then have "nat (QueueSize cfg) - length (chan_buf (Pool_jobs p)) = 0" by linarith
    then show ?thesis using p'(3) False by simp
  qed
  then show ?case using p' one by (simp add: bindE_def)
qed (simp add: ret_def)

definition stale_payments :: "tables \<Rightarrow> time \<Rightarrow> duration \<Rightarrow> Payment list" where
  "stale_payments t now olderThan =
     sort_key Payment_CreatedAt
       (filter (\<lambda>p. Payment_Status p = PaymentStatusPending \<and> Payment_CreatedAt p < now - olderThan) (payments t))"

lemma ListStalePending_run:
  assumes "replies d = []" and "0 < limit"
  shows "ListStalePending now olderThan limit d =
    (Inr (map Payment_OrderID (take (nat limit) (stale_payments (tbl d) now olderThan))), d)"
  using assms by (simp add: ListStalePending_def query_ok sql_limit_def stale_payments_def)

context processor
begin

text \<open>Whatever the database answers, a sweep returns and only reads.\<close>

lemma reclaim_returns:
  assumes "in_service q"
  shows "\<exists>d' q'. reclaim Process cfg now (d, q) = (Inr (), (d', q')) \<and> same d d' \<and> in_service q'"
proof -
  obtain r d' where l: "ListStalePending now (StaleAfter cfg) (sweep_batch cfg) d = (r, d')" by force
  then have "same d d'" unfolding ListStalePending_def by (rule query_same)
  moreover have "\<exists>q'. forE (projr r) Process q = (Inr (), q') \<and> in_service q'" by (rule process_all [OF assms])
  ultimately show ?thesis using l assms by (cases r) (auto simp: reclaim_def)
qed

end

section \<open>Properties\<close>

text \<open>
  C35. A sweep, with the database answering and the pool in service, appends to the queue the orders of the
  stale pending payments, oldest first, up to the batch size and to the room in the buffer, and changes
  nothing else. So when they fit, every stale order is queued again.
\<close>

theorem reclaim_requeues:
  assumes "replies d = []" and "pool_ok cfg p" and "\<not> chan_closed (Pool_jobs p)" and "\<not> chan_closed (Pool_quit p)"
    and "0 < QueueSize cfg" and "batch = (if SweepBatchSize cfg \<le> 0 then QueueSize cfg else SweepBatchSize cfg)"
  shows "\<exists>p'. reclaim (pool_Process pick who) cfg now (d, p) = (Inr (), (d, p')) \<and> pool_ok cfg p' \<and>
    chan_buf (Pool_jobs p') = chan_buf (Pool_jobs p) @
      take (nat (QueueSize cfg) - length (chan_buf (Pool_jobs p)))
        (map Payment_OrderID (take (nat batch) (stale_payments (tbl d) now (StaleAfter cfg)))) \<and>
    Pool_workers p' = Pool_workers p \<and> Pool_taken p' = Pool_taken p \<and>
    (length (stale_payments (tbl d) now (StaleAfter cfg)) \<le> nat batch \<and>
     length (chan_buf (Pool_jobs p)) + length (stale_payments (tbl d) now (StaleAfter cfg)) \<le> nat (QueueSize cfg) \<longrightarrow>
       (\<forall>pay \<in> set (payments (tbl d)). Payment_Status pay = PaymentStatusPending \<and> Payment_CreatedAt pay < now - StaleAfter cfg \<longrightarrow>
          Payment_OrderID pay \<in> set (chan_buf (Pool_jobs p'))))"
proof -
  let ?ps = "stale_payments (tbl d) now (StaleAfter cfg)"
  let ?ids = "map Payment_OrderID (take (nat batch) ?ps)"
  have batch: "sweep_batch cfg = batch" "0 < batch" using assms(5,6) by (simp_all add: sweep_batch_def)
  from Process_loop [OF assms(2-5), of ?ids pick who] obtain p' where
    p': "forE ?ids (pool_Process pick who) p = (Inr (), p')" "pool_ok cfg p'"
      "chan_buf (Pool_jobs p') = chan_buf (Pool_jobs p) @ take (nat (QueueSize cfg) - length (chan_buf (Pool_jobs p))) ?ids"
      "Pool_workers p' = Pool_workers p" "Pool_taken p' = Pool_taken p" by blast
  have "reclaim (pool_Process pick who) cfg now (d, p) = (Inr (), (d, p'))"
    using ListStalePending_run [OF assms(1) batch(2)] p'(1) by (simp add: reclaim_def batch(1))
  moreover have "Payment_OrderID pay \<in> set (chan_buf (Pool_jobs p'))"
    if fit: "length ?ps \<le> nat batch" "length (chan_buf (Pool_jobs p)) + length ?ps \<le> nat (QueueSize cfg)"
      and pay: "pay \<in> set (payments (tbl d))" "Payment_Status pay = PaymentStatusPending" "Payment_CreatedAt pay < now - StaleAfter cfg"
    for pay
  proof -
    have "pay \<in> set ?ps" using pay by (simp add: stale_payments_def)
    moreover have "chan_buf (Pool_jobs p') = chan_buf (Pool_jobs p) @ map Payment_OrderID ?ps" using p'(3) fit by simp
    ultimately show ?thesis by simp
  qed
  ultimately show ?thesis using p' by blast
qed

theorem reclaim_requeues_witness:
  "\<exists>p'. reclaim (pool_Process True 0) sample_pool_cfg 100 (sample_db, sample_pool) = (Inr (), (sample_db, p')) \<and>
     chan_buf (Pool_jobs p') = [7, 2]"
proof -
  have c: "\<not> chan_closed (Pool_jobs sample_pool)" "\<not> chan_closed (Pool_quit sample_pool)" "0 < QueueSize sample_pool_cfg"
    "chan_buf (Pool_jobs sample_pool) @ take (nat (QueueSize sample_pool_cfg) - length (chan_buf (Pool_jobs sample_pool)))
        (map Payment_OrderID (take (nat (sweep_batch sample_pool_cfg)) (stale_payments (tbl sample_db) 100 (StaleAfter sample_pool_cfg)))) = [7, 2]"
    by code_simp+
  from reclaim_requeues [OF replies_sample pool_reach_ok [OF sample_pool_reach] c(1-3) sweep_batch_def, of True 0 100] c(4)
  show ?thesis by auto
qed

end
