(* ===== verification/Users.thy ===== *)
theory Users
  imports OrderSettling ProductRepo Sample
begin

text \<open>
  User accounts: \<open>internal/repository/user.go\<close> on the \<open>users\<close> table, and \<open>CreateUser\<close>, \<open>GetUser\<close> and
  \<open>UpdateUser\<close> of \<open>internal/services/user.go\<close> with the requests and responses of \<open>internal/dto/user.go\<close>.
  A role is text that the column's type \<open>user_role\<close> accepts or refuses.
\<close>

section \<open>Requests and responses\<close>

record CreateUserRequest =
  UserReq_Name :: string
  UserReq_Email :: string
  UserReq_Password :: string
  UserReq_Role :: string

record UpdateUserRequest =
  UserUpd_Name :: string
  UserUpd_Email :: string
  UserUpd_Role :: string

record UserResponse =
  UserResp_ID :: int
  UserResp_Name :: string
  UserResp_Email :: string
  UserResp_Role :: string
  UserResp_CreatedAt :: time
  UserResp_UpdatedAt :: time

section \<open>Repository\<close>

definition valid_role :: "string \<Rightarrow> bool" where
  "valid_role r \<longleftrightarrow> r = UserRoleCustomer \<or> r = UserRoleAdmin"

definition bad_role :: go_error where
  "bad_role = DriverError ''invalid input value for enum user_role''"

text \<open>\<open>Create\<close>: an empty role takes the default of the column.\<close>

definition user_row :: "time \<Rightarrow> User \<Rightarrow> int \<Rightarrow> User" where
  "user_row now u i =
     u\<lparr>User_ID := i, User_Role := if User_Role u = [] then UserRoleCustomer else User_Role u,
       User_CreatedAt := auto_time now (User_CreatedAt u), User_UpdatedAt := auto_time now (User_UpdatedAt u)\<rparr>"

definition insert_user :: "time \<Rightarrow> User \<Rightarrow> User dbm" where
  "insert_user now u =
     stmt []
       (bindE (require_that (valid_role (User_Role (user_row now u 0))) bad_role) (\<lambda>_.
        bindE (nextval T_users) (\<lambda>i.
        bindE (\<lambda>d. require_that (\<not> list_ex (\<lambda>r. User_Email r = User_Email u) (users (tbl d))) ErrDuplicatedKey d) (\<lambda>_.
        \<lambda>d. (Inr (user_row now u i), upd_tbl (\<lambda>t. t\<lparr>users := users t @ [user_row now u i]\<rparr>) d)))))"

definition repo_CreateUser :: "time \<Rightarrow> User \<Rightarrow> User dbm" where
  "repo_CreateUser now u = transaction (insert_user now u)"

definition repo_GetUser :: "int \<Rightarrow> User dbm" where
  "repo_GetUser i = bindE (query [i] (\<lambda>t. first_by User_ID (\<lambda>r. User_ID r = i) (users t))) of_result"

definition GetUserByEmail :: "string \<Rightarrow> User dbm" where
  "GetUserByEmail email = bindE (query [] (\<lambda>t. first_by User_ID (\<lambda>r. User_Email r = email) (users t))) of_result"

text \<open>
  \<open>Save\<close>: an update of every column of the row with this identity; when there is none, gorm inserts
  the row, which the identity column refuses.
\<close>

definition update_user_row :: "User \<Rightarrow> nat dbm" where
  "update_user_row u =
     stmt [User_ID u]
       (bindE (require_that (valid_role (User_Role u)) bad_role) (\<lambda>_.
        bindE (\<lambda>d. require_that
            (\<not> (list_ex (\<lambda>r. User_ID r = User_ID u) (users (tbl d)) \<and>
                list_ex (\<lambda>r. User_Email r = User_Email u \<and> User_ID r \<noteq> User_ID u) (users (tbl d))))
            ErrDuplicatedKey d) (\<lambda>_.
        \<lambda>d. (Inr (hits (\<lambda>r. User_ID r = User_ID u) (users (tbl d))),
             upd_tbl (\<lambda>t. t\<lparr>users := upd_where (\<lambda>r. User_ID r = User_ID u) (\<lambda>_. u) (users t)\<rparr>) d))))"

definition repo_UpdateUser :: "time \<Rightarrow> User \<Rightarrow> User dbm" where
  "repo_UpdateUser now u =
     (let u1 = u\<lparr>User_UpdatedAt := now\<rparr> in
      bindE (transaction (update_user_row u1)) (\<lambda>n.
        if n = 0 then transaction (stmt [] (raise identity_always)) else ret u1))"

section \<open>Service\<close>

definition toUserResponse :: "User \<Rightarrow> UserResponse" where
  "toUserResponse u =
     \<lparr>UserResp_ID = User_ID u, UserResp_Name = User_Name u, UserResp_Email = User_Email u, UserResp_Role = User_Role u,
      UserResp_CreatedAt = User_CreatedAt u, UserResp_UpdatedAt = User_UpdatedAt u\<rparr>"

definition new_user :: "CreateUserRequest \<Rightarrow> User" where
  "new_user req =
     \<lparr>User_ID = 0, User_Name = UserReq_Name req, User_Email = UserReq_Email req, User_Password = UserReq_Password req,
      User_Role = if UserReq_Role req = [] then UserRoleCustomer else UserReq_Role req,
      User_CreatedAt = 0, User_UpdatedAt = 0\<rparr>"

definition svc_CreateUser :: "time \<Rightarrow> CreateUserRequest \<Rightarrow> UserResponse dbm" where
  "svc_CreateUser now req = bindE (repo_CreateUser now (new_user req)) (\<lambda>u. ret (toUserResponse u))"

definition svc_GetUser :: "int \<Rightarrow> UserResponse dbm" where
  "svc_GetUser i = bindE (repo_GetUser i) (\<lambda>u. ret (toUserResponse u))"

definition changed_user :: "UpdateUserRequest \<Rightarrow> User \<Rightarrow> User" where
  "changed_user req u =
     (let u1 = if UserUpd_Name req \<noteq> [] then u\<lparr>User_Name := UserUpd_Name req\<rparr> else u;
          u2 = if UserUpd_Email req \<noteq> [] then u1\<lparr>User_Email := UserUpd_Email req\<rparr> else u1
      in if UserUpd_Role req \<noteq> [] then u2\<lparr>User_Role := UserUpd_Role req\<rparr> else u2)"

definition svc_UpdateUser :: "time \<Rightarrow> int \<Rightarrow> UpdateUserRequest \<Rightarrow> UserResponse dbm" where
  "svc_UpdateUser now i req =
     bindE (repo_GetUser i) (\<lambda>u.
     bindE (repo_UpdateUser now (changed_user req u)) (\<lambda>u1. ret (toUserResponse u1)))"

section \<open>The invariant\<close>

lemma seq_grows_insert_user [simp, intro]: "seq_grows (insert_user now u)"
  unfolding insert_user_def by (intro seq_grows_intros)

lemma seq_grows_update_user_row [simp, intro]: "seq_grows (update_user_row u)"
  unfolding update_user_row_def by (intro seq_grows_intros)

lemma insert_user_Inr:
  assumes "insert_user now u d = (Inr u1, d')"
  shows "tbl d' = (tbl d)\<lparr>users := users (tbl d) @ [u1]\<rparr>" "seq d' = (seq d)(T_users := seq d T_users + 1)"
    "u1 = user_row now u (seq d T_users)" "User_Email u \<notin> set (map User_Email (users (tbl d)))"
    "valid_role (User_Role u1)"
proof -
  obtain d1 where d1: "same d d1" and v: "valid_role (User_Role (user_row now u 0))"
    and e: "\<not> list_ex (\<lambda>r. User_Email r = User_Email u) (users (tbl d1))"
    and u1: "u1 = user_row now u (seq d1 T_users)"
    and d': "d' = upd_tbl (\<lambda>t. t\<lparr>users := users t @ [u1]\<rparr>) (d1\<lparr>seq := (seq d1)(T_users := seq d1 T_users + 1)\<rparr>)"
    using assms unfolding insert_user_def
    by (auto simp: bindE_Inr simp del: list_ex_iff dest!: stmt_Inr)
  note s = same_frame [OF d1]
  show "tbl d' = (tbl d)\<lparr>users := users (tbl d) @ [u1]\<rparr>" "seq d' = (seq d)(T_users := seq d T_users + 1)"
    "u1 = user_row now u (seq d T_users)" using d' u1 s by simp_all
  show "User_Email u \<notin> set (map User_Email (users (tbl d)))" using e unfolding list_ex_key s .
  show "valid_role (User_Role u1)" using v u1 by (simp add: user_row_def)
qed

lemma update_user_row_Inr:
  assumes "update_user_row u d = (Inr n, d')"
  shows "tbl d' = (tbl d)\<lparr>users := upd_where (\<lambda>r. User_ID r = User_ID u) (\<lambda>_. u) (users (tbl d))\<rparr>" "seq d' = seq d"
    "n = hits (\<lambda>r. User_ID r = User_ID u) (users (tbl d))" "valid_role (User_Role u)"
    "n \<noteq> 0 \<Longrightarrow> r \<in> set (users (tbl d)) \<Longrightarrow> User_Email r = User_Email u \<Longrightarrow> User_ID r = User_ID u"
proof -
  let ?P = "\<lambda>r. User_ID r = User_ID u" and ?Q = "\<lambda>r. User_Email r = User_Email u \<and> User_ID r \<noteq> User_ID u"
  obtain d1 where d1: "same d d1" and v: "valid_role (User_Role u)"
    and e: "\<not> (list_ex ?P (users (tbl d1)) \<and> list_ex ?Q (users (tbl d1)))"
    and n: "n = hits ?P (users (tbl d1))"
    and d': "d' = upd_tbl (\<lambda>t. t\<lparr>users := upd_where ?P (\<lambda>_. u) (users t)\<rparr>) d1"
    using assms unfolding update_user_row_def
    by (auto simp: bindE_Inr simp del: list_ex_iff dest!: stmt_Inr)
  note s = same_frame [OF d1]
  show "tbl d' = (tbl d)\<lparr>users := upd_where ?P (\<lambda>_. u) (users (tbl d))\<rparr>" "seq d' = seq d"
    "n = hits ?P (users (tbl d))" "valid_role (User_Role u)" using d' n v s by simp_all
  show "User_ID r = User_ID u" if "n \<noteq> 0" "r \<in> set (users (tbl d))" "User_Email r = User_Email u"
    using that e unfolding n s by (auto simp: list_ex_iff hits_0_iff)
qed

text \<open>An upsert of the row with identity \<open>i\<close> keeps the identities, and the addresses when the new one is free.\<close>

lemma put_user_ids: "map User_ID (upd_where (\<lambda>r. User_ID r = User_ID u) (\<lambda>_. u) rs) = map User_ID rs"
  by (induction rs) auto

lemma put_user_emails:
  assumes "distinct (map User_Email rs)" and "distinct (map User_ID rs)"
    and "\<And>r. r \<in> set rs \<Longrightarrow> User_Email r = User_Email u \<Longrightarrow> User_ID r = User_ID u"
  shows "distinct (map User_Email (upd_where (\<lambda>r. User_ID r = User_ID u) (\<lambda>_. u) rs))"
  using assms
proof (induction rs)
  case (Cons a rs)
  have IH: "distinct (map User_Email (upd_where (\<lambda>r. User_ID r = User_ID u) (\<lambda>_. u) rs))" using Cons by simp
  show ?case
  proof (cases "User_ID a = User_ID u")
    case True
    with Cons.prems(2) have "upd_where (\<lambda>r. User_ID r = User_ID u) (\<lambda>_. u) rs = rs"
      by (intro upd_where_none) (simp add: hits_0_iff, metis imageI)
    moreover have "User_Email u \<notin> User_Email ` set rs"
    proof
      assume "User_Email u \<in> User_Email ` set rs"
      then obtain r where "r \<in> set rs" "User_Email r = User_Email u" by auto
      with Cons.prems(3) [of r] True Cons.prems(2) show False by (metis distinct.simps(2) imageI list.set_map list.simps(9) list.set_intros(2))
    qed
    ultimately show ?thesis using True Cons.prems(1) by simp
  next
    case False
    then have "User_Email a \<noteq> User_Email u" using Cons.prems(3) by auto
    moreover have "User_Email a \<notin> User_Email ` set rs" using Cons.prems(1) by simp
    ultimately show ?thesis using IH False by (auto simp: in_upd_where split: if_splits)
  qed
qed simp

lemma wf_add_user:
  assumes "wf_tables s t" and "User_ID u = s T_users" and "User_Email u \<notin> set (map User_Email (users t))"
  shows "wf_tables (s(T_users := s T_users + 1)) (t\<lparr>users := users t @ [u]\<rparr>)"
  using assms by (auto simp: wf_tables_def wf_users_def wf_orders_def intro: ids_ok_snoc)

lemma wf_put_user:
  assumes "wf_tables s t" and "\<And>r. r \<in> set (users t) \<Longrightarrow> User_Email r = User_Email u \<Longrightarrow> User_ID r = User_ID u"
  shows "wf_tables s (t\<lparr>users := upd_where (\<lambda>r. User_ID r = User_ID u) (\<lambda>_. u) (users t)\<rparr>)"
proof -
  let ?us = "upd_where (\<lambda>r. User_ID r = User_ID u) (\<lambda>_. u) (users t)"
  have "ids_ok User_ID (s T_users) ?us" using assms(1) unfolding ids_ok_map [OF put_user_ids]
    by (simp add: wf_tables_def wf_users_def)
  moreover have "distinct (map User_Email ?us)"
    using assms by (intro put_user_emails) (auto simp: wf_tables_def wf_users_def dest: ids_ok_distinct)
  moreover have "set (map User_ID ?us) = set (map User_ID (users t))" by (simp only: put_user_ids)
  ultimately show ?thesis using assms(1) by (simp add: wf_tables_def wf_users_def)
qed

text \<open>The operations touch no other table, and no user disappears.\<close>

definition users_only :: "tables \<Rightarrow> tables \<Rightarrow> bool" where
  "users_only t t' \<longleftrightarrow> t' = t\<lparr>users := users t'\<rparr> \<and> set (map User_ID (users t)) \<subseteq> set (map User_ID (users t'))"

lemma users_only_refl [simp]: "users_only t t"
  by (simp add: users_only_def)

lemma users_only_frame:
  assumes "users_only t t'"
  shows "products t' = products t" "inventory t' = inventory t" "orders t' = orders t" "order_items t' = order_items t"
    "payments t' = payments t" "notifications t' = notifications t"
proof -
  have "t' = t\<lparr>users := users t'\<rparr>" using assms by (simp add: users_only_def)
  then obtain us where "t' = t\<lparr>users := us\<rparr>" by blast
  then show "products t' = products t" "inventory t' = inventory t" "orders t' = orders t" "order_items t' = order_items t"
    "payments t' = payments t" "notifications t' = notifications t" by simp_all
qed

lemma users_only_later: "users_only t t' \<Longrightarrow> later t t'"
  by (simp add: later_def grown_refl users_only_frame)

lemma users_only_units: "users_only t t' \<Longrightarrow> units t' p = units t p"
  by (simp add: units_def allocated_def users_only_frame)

lemma CreateUser_keeps:
  assumes "wf_db d" and res: "repo_CreateUser now u d = (r, d')"
  shows "wf_db d'" and "users_only (tbl d) (tbl d')"
proof -
  have body: "wf_db d2" "users_only (tbl d) (tbl d2)" if "same d d1" "insert_user now u d1 = (Inr x, d2)" for d1 x d2
  proof -
    note i = insert_user_Inr [OF that(2)]
    have "User_ID x = seq d T_users" "User_Email x = User_Email u" using i(3) that(1) by (simp_all add: user_row_def)
    then show "wf_db d2" using assms(1) i(1,2,4) that(1) wf_add_user [of "seq d" "tbl d" x] by (simp add: wf_db_def)
    show "users_only (tbl d) (tbl d2)" using i(1) that(1) by (auto simp: users_only_def)
  qed
  show "wf_db d'" using res assms(1) seq_grows_insert_user body(1) unfolding repo_CreateUser_def by (rule wf_transaction_at)
  show "users_only (tbl d) (tbl d')"
    using res body(2) unfolding repo_CreateUser_def by (rule transaction_tables [where R = users_only]) simp_all
qed

lemma update_user_row_keeps:
  assumes "wf_db d" and "update_user_row u d = (Inr n, d')"
  shows "wf_db d'" and "users_only (tbl d) (tbl d')"
proof -
  note i = update_user_row_Inr [OF assms(2)]
  show "wf_db d'"
  proof (cases "n = 0")
    case True
    then have "upd_where (\<lambda>r. User_ID r = User_ID u) (\<lambda>_. u) (users (tbl d)) = users (tbl d)"
      using i(3) by (intro upd_where_none) simp
    then show ?thesis using assms(1) i(1,2) by (simp add: wf_db_def)
  next
    case False
    then show ?thesis using assms(1) i(1,2) wf_put_user [of "seq d" "tbl d" u] i(5) by (simp add: wf_db_def)
  qed
  have "set (map User_ID (users (tbl d'))) = set (map User_ID (users (tbl d)))"
    using arg_cong [OF put_user_ids, of set u "users (tbl d)"] unfolding i(1) by (simp del: set_map)
  then show "users_only (tbl d) (tbl d')" using i(1) by (simp add: users_only_def)
qed

lemma UpdateUser_keeps:
  assumes "wf_db d" and res: "repo_UpdateUser now u d = (r, d')"
  shows "wf_db d'" and "users_only (tbl d) (tbl d')"
proof -
  let ?u = "u\<lparr>User_UpdatedAt := now\<rparr>"
  obtain q d1 where t: "transaction (update_user_row ?u) d = (q, d1)" by force
  have body: "wf_db b" "users_only (tbl d) (tbl b)" if "same d a" "update_user_row ?u a = (Inr x, b)" for a x b
    using update_user_row_keeps [OF _ that(2)] that(1) assms(1) by simp_all
  have one: "wf_db d1" "users_only (tbl d) (tbl d1)"
    using wf_transaction_at [OF t assms(1) seq_grows_update_user_row body(1)]
      transaction_tables [where R = users_only, OF t body(2)] by simp_all
  have refused: "wf_db d'" "users_only (tbl d) (tbl d')" if "transaction (stmt [] (raise identity_always)) d1 = (r, d')"
  proof -
    have none: False if "stmt [] (raise identity_always) a = (Inr (x :: User), b)" for a x b
      using stmt_Inr [OF that] by (auto simp: raise_def)
    have "seq_grows (stmt [] (raise identity_always) :: User dbm)" by (intro seq_grows_intros)
    then show "wf_db d'" by (rule wf_transaction_at [OF that one(1)]) (use none in blast)
    have "tbl d1 = tbl d'" by (rule transaction_tables [where R = "(=)", OF that]) (use none in blast)+
    then show "users_only (tbl d) (tbl d')" using one(2) by simp
  qed
  from res t consider "d' = d1" | "transaction (stmt [] (raise identity_always)) d1 = (r, d')"
    by (auto simp: repo_UpdateUser_def Let_def bindE_def ret_def split: sum.splits if_splits)
  then show "wf_db d'" "users_only (tbl d) (tbl d')" using one refused by (cases; simp)+
qed

section \<open>Runs without faults\<close>

lemma insert_user_run:
  assumes "replies d = []" and "int4 (seq d T_users)"
  shows "insert_user now u d =
    (if \<not> valid_role (User_Role (user_row now u 0)) then (Inl bad_role, d)
     else (let d1 = d\<lparr>seq := (seq d)(T_users := seq d T_users + 1)\<rparr>; u1 = user_row now u (seq d T_users) in
       if list_ex (\<lambda>r. User_Email r = User_Email u) (users (tbl d)) then (Inl ErrDuplicatedKey, d1)
       else (Inr u1, upd_tbl (\<lambda>t. t\<lparr>users := users t @ [u1]\<rparr>) d1)))"
  using assms by (simp add: insert_user_def bindE_def require_that_def nextval_def run Let_def del: list_ex_iff)

lemma GetUser_run:
  assumes "replies d = []" and "int4 i"
  shows "repo_GetUser i d = (first_by User_ID (\<lambda>r. User_ID r = i) (users (tbl d)), d)"
  using assms by (simp add: repo_GetUser_def bindE_def query_ok of_result_def)

lemma find_user:
  assumes "wf_db d" and "u \<in> set (users (tbl d))"
  shows "first_by User_ID (\<lambda>r. User_ID r = User_ID u) (users (tbl d)) = Inr u"
  using assms by (intro first_by_unique [where k' = User_ID]) (auto simp: wf_db_def wf_tables_def wf_users_def dest: ids_ok_distinct)

lemma find_email:
  assumes "wf_db d" and "u \<in> set (users (tbl d))"
  shows "first_by User_ID (\<lambda>r. User_Email r = User_Email u) (users (tbl d)) = Inr u"
  using assms by (intro first_by_unique [where k' = User_Email]) (auto simp: wf_db_def wf_tables_def wf_users_def)

lemma update_user_row_run:
  assumes "replies d = []" and "int4 (User_ID u)" and "old \<in> set (users (tbl d))" and "User_ID old = User_ID u" and "wf_db d"
  shows "update_user_row u d =
    (if \<not> valid_role (User_Role u) then (Inl bad_role, d)
     else if list_ex (\<lambda>r. User_Email r = User_Email u \<and> User_ID r \<noteq> User_ID u) (users (tbl d)) then (Inl ErrDuplicatedKey, d)
     else (Inr 1, upd_tbl (\<lambda>t. t\<lparr>users := upd_where (\<lambda>r. User_ID r = User_ID u) (\<lambda>_. u) (users t)\<rparr>) d))"
proof -
  have "hits (\<lambda>r. User_ID r = User_ID u) (users (tbl d)) = 1"
    using assms hits_1_distinct [of User_ID "users (tbl d)" "\<lambda>r. User_ID r = User_ID u" "User_ID u"]
    by (auto simp: wf_db_def wf_tables_def wf_users_def dest: ids_ok_distinct)
  moreover have "list_ex (\<lambda>r. User_ID r = User_ID u) (users (tbl d))" using assms(3,4) by (auto simp: list_ex_iff)
  ultimately show ?thesis
    using assms(1,2) by (simp add: update_user_row_def bindE_def require_that_def run del: list_ex_iff)
qed

section \<open>Properties\<close>


definition sample_signup :: CreateUserRequest where
  "sample_signup = \<lparr>UserReq_Name = ''Cy'', UserReq_Email = ''cy@shop'', UserReq_Password = ''password'', UserReq_Role = []\<rparr>"


lemma UpdateUser_changed:
  assumes "replies d = []" and "wf_db d" and "int4 i"
  shows "\<exists>r d'. svc_UpdateUser now i req d = (r, d') \<and> wf_db d' \<and>
    (if i \<notin> set (map User_ID (users (tbl d))) then r = Inl ErrRecordNotFound \<and> d' = d
     else (\<exists>u \<in> set (users (tbl d)). User_ID u = i \<and>
       (let u' = (changed_user req u)\<lparr>User_UpdatedAt := now\<rparr> in
        if \<not> valid_role (User_Role u') then r = Inl bad_role \<and> d' = d
        else if \<exists>q \<in> set (users (tbl d)). User_Email q = User_Email u' \<and> User_ID q \<noteq> i then r = Inl ErrDuplicatedKey \<and> d' = d
        else r = Inr (toUserResponse u') \<and>
          tbl d' = (tbl d)\<lparr>users := map (\<lambda>q. if User_ID q = i then u' else q) (users (tbl d))\<rparr>)))"
proof (cases "i \<in> set (map User_ID (users (tbl d)))")
  case False
  then have "first_by User_ID (\<lambda>r. User_ID r = i) (users (tbl d)) = Inl ErrRecordNotFound" by (intro first_by_none) auto
  then have "svc_UpdateUser now i req d = (Inl ErrRecordNotFound, d)"
    using GetUser_run [OF assms(1,3)] by (simp add: svc_UpdateUser_def bindE_def)
  then show ?thesis using False assms(2) by (auto simp del: set_map)
next
  case True
  then obtain u where u: "u \<in> set (users (tbl d))" "User_ID u = i" by auto
  let ?u = "changed_user req u" let ?u' = "?u\<lparr>User_UpdatedAt := now\<rparr>"
  have get: "repo_GetUser i d = (Inr u, d)" using GetUser_run [OF assms(1,3)] find_user [OF assms(2) u(1)] u(2) by simp
  have keys: "User_ID ?u = i" "User_Password ?u = User_Password u" using u(2) by (simp_all add: changed_user_def Let_def)
  note upd = update_user_row_run [OF assms(1), of ?u' u, simplified, unfolded keys, OF assms(3) u assms(2), unfolded list_ex_iff]
  have roll: "rollback d d = d" by (simp add: rollback_def)
  have sel: "User_ID ?u' = i" "User_Email ?u' = User_Email ?u" "User_Role ?u' = User_Role ?u" using keys by simp_all
  consider (role) "\<not> valid_role (User_Role ?u)"
    | (dup) "valid_role (User_Role ?u)" "\<exists>q \<in> set (users (tbl d)). User_Email q = User_Email ?u \<and> User_ID q \<noteq> i"
    | (ok) "valid_role (User_Role ?u)" "\<not> (\<exists>q \<in> set (users (tbl d)). User_Email q = User_Email ?u \<and> User_ID q \<noteq> i)" by blast
  then show ?thesis
  proof cases
    case role
    then have "transaction (update_user_row ?u') d = (Inl bad_role, rollback d d)"
      using upd by (intro transaction_body_error assms(1)) simp
    then have "svc_UpdateUser now i req d = (Inl bad_role, d)"
      using get roll by (simp add: svc_UpdateUser_def repo_UpdateUser_def Let_def bindE_def)
    then show ?thesis using True role u assms(2) by (auto simp: Let_def simp del: set_map)
  next
    case dup
    then have "update_user_row ?u' d = (Inl ErrDuplicatedKey, d)" using upd by (simp only: sel not_True_eq_False if_False if_True)
    then have "transaction (update_user_row ?u') d = (Inl ErrDuplicatedKey, rollback d d)"
      by (intro transaction_body_error assms(1))
    then have "svc_UpdateUser now i req d = (Inl ErrDuplicatedKey, d)"
      using get roll by (simp add: svc_UpdateUser_def repo_UpdateUser_def Let_def bindE_def)
    then show ?thesis using True dup u assms(2) by (auto simp: Let_def simp del: set_map intro!: bexI [of _ u])
  next
    case ok
    let ?d = "upd_tbl (\<lambda>t. t\<lparr>users := upd_where (\<lambda>r. User_ID r = i) (\<lambda>_. ?u') (users t)\<rparr>) d"
    have "update_user_row ?u' d = (Inr 1, ?d)" using upd ok by (simp only: sel not_True_eq_False if_False if_True)
    then have "transaction (update_user_row ?u') d = (Inr 1, ?d)"
      using assms(1) by (intro transaction_no_faults) simp_all
    then have r: "repo_UpdateUser now ?u d = (Inr ?u', ?d)" by (simp add: repo_UpdateUser_def Let_def bindE_def run)
    then have "svc_UpdateUser now i req d = (Inr (toUserResponse ?u'), ?d)"
      using get by (simp add: svc_UpdateUser_def bindE_def run)
    moreover have "tbl ?d = (tbl d)\<lparr>users := map (\<lambda>q. if User_ID q = i then ?u' else q) (users (tbl d))\<rparr>"
      by (simp add: upd_where_def)
    ultimately show ?thesis
      using True ok u keys UpdateUser_keeps(1) [OF assms(2) r]
      by (intro exI [of _ "Inr (toUserResponse ?u')"] exI [of _ ?d]) (auto simp: Let_def simp del: set_map intro!: bexI [of _ u])
  qed
qed

lemma changed_user_fields:
  "User_ID (changed_user req u) = User_ID u" "User_Password (changed_user req u) = User_Password u"
  "User_CreatedAt (changed_user req u) = User_CreatedAt u"
  "User_Name (changed_user req u) = (if UserUpd_Name req = [] then User_Name u else UserUpd_Name req)"
  "User_Email (changed_user req u) = (if UserUpd_Email req = [] then User_Email u else UserUpd_Email req)"
  "User_Role (changed_user req u) = (if UserUpd_Role req = [] then User_Role u else UserUpd_Role req)"
  by (simp_all add: changed_user_def Let_def)

text \<open>
  C27. \<open>UpdateUser\<close> with the database answering, for an existing user: name, address and role are replaced
  exactly when the request gives them, the time of the update is set, and identity, password, time of
  creation and every other row stay; the response shows the new row. But when the new role is neither
  customer nor admin, or the new address belongs to another user, the update is refused and nothing
  changes. An unknown user is reported as not found.
\<close>

theorem UpdateUser_outcome:
  assumes "replies d = []" and "wf_db d" and "int4 i"
  shows "\<exists>r d'. svc_UpdateUser now i req d = (r, d') \<and> wf_db d' \<and>
    (if i \<notin> set (map User_ID (users (tbl d))) then r = Inl ErrRecordNotFound \<and> d' = d
     else (\<exists>u \<in> set (users (tbl d)). \<exists>u'. User_ID u = i \<and> User_ID u' = i \<and>
       User_Name u' = (if UserUpd_Name req = [] then User_Name u else UserUpd_Name req) \<and>
       User_Email u' = (if UserUpd_Email req = [] then User_Email u else UserUpd_Email req) \<and>
       User_Role u' = (if UserUpd_Role req = [] then User_Role u else UserUpd_Role req) \<and>
       User_Password u' = User_Password u \<and> User_CreatedAt u' = User_CreatedAt u \<and> User_UpdatedAt u' = now \<and>
       (if User_Role u' \<notin> {UserRoleCustomer, UserRoleAdmin} then r = Inl bad_role \<and> d' = d
        else if \<exists>q \<in> set (users (tbl d)). User_Email q = User_Email u' \<and> User_ID q \<noteq> i then r = Inl ErrDuplicatedKey \<and> d' = d
        else r = Inr \<lparr>UserResp_ID = i, UserResp_Name = User_Name u', UserResp_Email = User_Email u', UserResp_Role = User_Role u',
               UserResp_CreatedAt = User_CreatedAt u, UserResp_UpdatedAt = now\<rparr> \<and>
          tbl d' = (tbl d)\<lparr>users := map (\<lambda>q. if User_ID q = i then u' else q) (users (tbl d))\<rparr>)))"
proof -
  obtain r d' where run: "svc_UpdateUser now i req d = (r, d')" "wf_db d'"
    and out: "if i \<notin> set (map User_ID (users (tbl d))) then r = Inl ErrRecordNotFound \<and> d' = d
     else (\<exists>u \<in> set (users (tbl d)). User_ID u = i \<and>
       (let u' = (changed_user req u)\<lparr>User_UpdatedAt := now\<rparr> in
        if \<not> valid_role (User_Role u') then r = Inl bad_role \<and> d' = d
        else if \<exists>q \<in> set (users (tbl d)). User_Email q = User_Email u' \<and> User_ID q \<noteq> i then r = Inl ErrDuplicatedKey \<and> d' = d
        else r = Inr (toUserResponse u') \<and>
          tbl d' = (tbl d)\<lparr>users := map (\<lambda>q. if User_ID q = i then u' else q) (users (tbl d))\<rparr>))"
    using UpdateUser_changed [OF assms] by blast
  show ?thesis
  proof (cases "i \<in> set (map User_ID (users (tbl d)))")
    case False
    then show ?thesis using run out by (intro exI [of _ r] exI [of _ d']) (simp only: not_False_eq_True if_True simp_thms)
  next
    case True
    define u1 where "u1 u = (changed_user req u)\<lparr>User_UpdatedAt := now\<rparr>" for u
    from True out obtain u where u: "u \<in> set (users (tbl d))" "User_ID u = i"
      and k: "if \<not> valid_role (User_Role (u1 u)) then r = Inl bad_role \<and> d' = d
        else if \<exists>q \<in> set (users (tbl d)). User_Email q = User_Email (u1 u) \<and> User_ID q \<noteq> i then r = Inl ErrDuplicatedKey \<and> d' = d
        else r = Inr (toUserResponse (u1 u)) \<and>
          tbl d' = (tbl d)\<lparr>users := map (\<lambda>q. if User_ID q = i then u1 u else q) (users (tbl d))\<rparr>"
      unfolding u1_def Let_def by (auto simp only: not_True_eq_False if_False)
    have f: "User_ID (u1 u) = i" "User_Password (u1 u) = User_Password u" "User_CreatedAt (u1 u) = User_CreatedAt u"
      "User_UpdatedAt (u1 u) = now"
      "User_Name (u1 u) = (if UserUpd_Name req = [] then User_Name u else UserUpd_Name req)"
      "User_Email (u1 u) = (if UserUpd_Email req = [] then User_Email u else UserUpd_Email req)"
      "User_Role (u1 u) = (if UserUpd_Role req = [] then User_Role u else UserUpd_Role req)"
      using u(2) by (simp_all add: u1_def changed_user_fields)
    have resp: "toUserResponse (u1 u) = \<lparr>UserResp_ID = i, UserResp_Name = User_Name (u1 u), UserResp_Email = User_Email (u1 u),
        UserResp_Role = User_Role (u1 u), UserResp_CreatedAt = User_CreatedAt u, UserResp_UpdatedAt = now\<rparr>"
      by (simp add: toUserResponse_def f(1,3,4))
    have role: "valid_role x \<longleftrightarrow> x \<in> {UserRoleCustomer, UserRoleAdmin}" for x by (simp add: valid_role_def)
    have "\<not> (i \<notin> set (map User_ID (users (tbl d))))" using True by (simp only: not_not)
    then show ?thesis unfolding if_not_P [OF \<open>\<not> (i \<notin> set (map User_ID (users (tbl d))))\<close>]
      by (intro exI [of _ r] exI [of _ d'] conjI run bexI [of _ u] exI [of _ "u1 u"] u f) (rule k [unfolded resp role])
  qed
qed

definition sample_promotion :: UpdateUserRequest where
  "sample_promotion = \<lparr>UserUpd_Name = [], UserUpd_Email = [], UserUpd_Role = UserRoleAdmin\<rparr>"

theorem UpdateUser_outcome_witness:
  "\<exists>r d'. svc_UpdateUser 60 1 sample_promotion sample_db = (Inr r, d') \<and> UserResp_Role r = UserRoleAdmin \<and>
     UserResp_Email r = ''ann@shop'' \<and> wf_db d'"
proof -
  let ?a = "hd sample_users"
  have c: "int4 1" "1 \<in> set (map User_ID (users (tbl sample_db)))"
    "\<forall>u \<in> set (users (tbl sample_db)). User_ID u = 1 \<longrightarrow> u = ?a" "User_Email ?a = ''ann@shop''"
    "\<forall>q \<in> set (users (tbl sample_db)). User_Email q = ''ann@shop'' \<longrightarrow> User_ID q = 1"
    "UserUpd_Name sample_promotion = []" "UserUpd_Email sample_promotion = []" "UserUpd_Role sample_promotion = UserRoleAdmin"
    "UserRoleAdmin \<noteq> []"
    by code_simp+
  have e: "\<not> (\<exists>q \<in> set (users (tbl sample_db)). User_Email q = ''ann@shop'' \<and> User_ID q \<noteq> 1)" using c(5) by blast
  have t: "(1 \<notin> set (map User_ID (users (tbl sample_db)))) = False" "(UserRoleAdmin = []) = False" "(([] :: string) = []) = True"
    using c(2,9) by simp_all
  note out = UpdateUser_outcome [OF replies_sample wf_sample c(1), of 60 sample_promotion, unfolded c(6-8) t if_False if_True]
  obtain r d' u u' where run: "svc_UpdateUser 60 1 sample_promotion sample_db = (r, d')" "wf_db d'"
    and u: "u \<in> set (users (tbl sample_db))" "User_ID u = 1" "User_Email u' = User_Email u" "User_Role u' = UserRoleAdmin"
    and k: "if User_Role u' \<notin> {UserRoleCustomer, UserRoleAdmin} then r = Inl bad_role \<and> d' = sample_db
        else if \<exists>q \<in> set (users (tbl sample_db)). User_Email q = User_Email u' \<and> User_ID q \<noteq> 1 then r = Inl ErrDuplicatedKey \<and> d' = sample_db
        else r = Inr \<lparr>UserResp_ID = 1, UserResp_Name = User_Name u', UserResp_Email = User_Email u', UserResp_Role = User_Role u',
               UserResp_CreatedAt = User_CreatedAt u, UserResp_UpdatedAt = 60\<rparr> \<and>
          tbl d' = (tbl sample_db)\<lparr>users := map (\<lambda>q. if User_ID q = 1 then u' else q) (users (tbl sample_db))\<rparr>"
    using out by (elim exE conjE bexE) (rule that)
  have "User_Email u' = ''ann@shop''" using c(3,4) u by metis
  with k u(4) e run show ?thesis by simp
qed

end
