(* ===== verification/Token.thy ===== *)
theory Token
  imports Users Sha256
begin

text \<open>
  Access tokens: \<open>internal/auth/token.go\<close> and \<open>Login\<close> of \<open>internal/services/user.go\<close>. The library
  golang-jwt is a parameter, the record \<open>jwt_lib\<close>; \<open>jwt_ok\<close> states what the code relies on: dates are
  truncated to the second, a token signed with a key is parsed back by whoever knows the key until it
  expires, and a token is accepted only with the key that the key function returns for the method in
  its header. Everything else, what is signed, for whom, for how long, and which methods and keys are
  accepted, is the code's.
\<close>

section \<open>The library\<close>

record Claims =
  Claims_UserID :: int
  Claims_Role :: string
  Claims_Subject :: string
  Claims_IssuedAt :: "time option"
  Claims_ExpiresAt :: "time option"

text \<open>The concrete type of \<open>t.Method\<close>: a \<open>*SigningMethodHMAC\<close> or another one, with its \<open>alg\<close>.\<close>

datatype signing_method = SigningMethodHMAC string | OtherMethod string

definition SigningMethodHS256 :: signing_method where
  "SigningMethodHS256 = SigningMethodHMAC ''HS256''"

record jwt_lib =
  NewNumericDate :: "time \<Rightarrow> time"
  SignedString :: "signing_method \<Rightarrow> Claims \<Rightarrow> string \<Rightarrow> go_error + string"
  HeaderMethod :: "string \<Rightarrow> signing_method option"
  VerifiedBy :: "signing_method \<Rightarrow> string \<Rightarrow> string \<Rightarrow> bool"
  ParseWithClaims :: "(signing_method \<Rightarrow> go_error + string) \<Rightarrow> time \<Rightarrow> string \<Rightarrow> go_error + Claims"

definition Second :: duration where
  "Second = 1000000000"

definition expired :: "Claims \<Rightarrow> time \<Rightarrow> bool" where
  "expired c now \<longleftrightarrow> (case Claims_ExpiresAt c of None \<Rightarrow> False | Some t \<Rightarrow> t \<le> now)"

text \<open>Claims that survive JSON: ASCII text, a 64-bit identity, and dates of whole seconds that a double holds.\<close>

definition ascii :: "string \<Rightarrow> bool" where
  "ascii s \<longleftrightarrow> list_all (\<lambda>c. (of_char c :: nat) < 128) s"

definition whole_second :: "time \<Rightarrow> bool" where
  "whole_second t \<longleftrightarrow> t mod Second = 0 \<and> \<bar>t div Second\<bar> < 2 ^ 53"

definition plain_claims :: "Claims \<Rightarrow> bool" where
  "plain_claims c \<longleftrightarrow> in_int64 (Claims_UserID c) \<and> ascii (Claims_Role c) \<and> ascii (Claims_Subject c) \<and>
     pred_option whole_second (Claims_IssuedAt c) \<and> pred_option whole_second (Claims_ExpiresAt c)"

definition jwt_ok :: "jwt_lib \<Rightarrow> bool" where
  "jwt_ok lib \<longleftrightarrow>
     (\<forall>t. NewNumericDate lib t = t - t mod Second) \<and>
     (\<forall>c key. plain_claims c \<longrightarrow> (\<exists>tok. SignedString lib SigningMethodHS256 c key = Inr tok \<and> tok \<noteq> [] \<and>
        CHR '' '' \<notin> set tok \<and>
        (\<forall>f now. f SigningMethodHS256 = Inr key \<longrightarrow>
           (if expired c now then \<exists>e. ParseWithClaims lib f now tok = Inl e else ParseWithClaims lib f now tok = Inr c)))) \<and>
     (\<forall>f now tok c. ParseWithClaims lib f now tok = Inr c \<longrightarrow>
        \<not> expired c now \<and> (\<exists>m key. HeaderMethod lib tok = Some m \<and> f m = Inr key \<and> VerifiedBy lib m key tok))"

section \<open>The token manager\<close>

record jwtManager =
  JWT_secret :: string
  JWT_ttl :: duration

definition NewJWTManager :: "string \<Rightarrow> duration \<Rightarrow> jwtManager" where
  "NewJWTManager secret ttl = \<lparr>JWT_secret = secret, JWT_ttl = ttl\<rparr>"

definition claims_for :: "jwt_lib \<Rightarrow> time \<Rightarrow> time \<Rightarrow> int \<Rightarrow> string \<Rightarrow> Claims" where
  "claims_for lib now expiresAt userID role =
     \<lparr>Claims_UserID = userID, Claims_Role = role, Claims_Subject = Itoa userID,
      Claims_IssuedAt = Some (NewNumericDate lib now), Claims_ExpiresAt = Some (NewNumericDate lib expiresAt)\<rparr>"

definition token_Generate :: "jwt_lib \<Rightarrow> jwtManager \<Rightarrow> time \<Rightarrow> int \<Rightarrow> string \<Rightarrow> go_error + string \<times> time" where
  "token_Generate lib m now userID role =
     (let expiresAt = now + JWT_ttl m in
      case SignedString lib SigningMethodHS256 (claims_for lib now expiresAt userID role) (JWT_secret m) of
        Inl e \<Rightarrow> Inl e
      | Inr token \<Rightarrow> Inr (token, expiresAt))"

fun token_key :: "jwtManager \<Rightarrow> signing_method \<Rightarrow> go_error + string" where
  "token_key m (SigningMethodHMAC _) = Inr (JWT_secret m)"
| "token_key m (OtherMethod alg) = Inl (DriverError (''unexpected signing method: '' @ alg))"

definition token_Parse :: "jwt_lib \<Rightarrow> jwtManager \<Rightarrow> time \<Rightarrow> string \<Rightarrow> go_error + Claims" where
  "token_Parse lib m now tokenStr = ParseWithClaims lib (token_key m) now tokenStr"

section \<open>Login\<close>

record LoginRequest =
  Login_Email :: string
  Login_Password :: string

record LoginResponse =
  AccessToken :: string
  TokenType :: string
  ExpiresIn :: int

text \<open>\<open>time.Duration.Seconds\<close> in floating point, and \<open>int64\<close> of it, which rounds towards zero.\<close>

definition go_Seconds :: "duration \<Rightarrow> float64" where
  "go_Seconds d =
     (let sec = go_div d Second; nsec = d - sec * Second
      in f_add (f_of_int sec) (fl (f_of_int nsec / of_int Second)))"

definition f_to_int :: "float64 \<Rightarrow> int" where
  "f_to_int x = (if 0 \<le> x then \<lfloor>x\<rfloor> else \<lceil>x\<rceil>)"

definition login_error :: "go_error \<Rightarrow> go_error" where
  "login_error e = (if e = ErrRecordNotFound then ErrInvalidCredentials else e)"

definition svc_Login :: "jwt_lib \<Rightarrow> jwtManager \<Rightarrow> time \<Rightarrow> time \<Rightarrow> LoginRequest \<Rightarrow> LoginResponse dbm" where
  "svc_Login lib m t1 t2 req =
     bindE (map_err login_error (GetUserByEmail (Login_Email req))) (\<lambda>user.
       if User_Password user \<noteq> Login_Password req then raise ErrInvalidCredentials
       else
         (case token_Generate lib m t1 (User_ID user) (User_Role user) of
            Inl e \<Rightarrow> raise e
          | Inr (token, expiresAt) \<Rightarrow>
              ret \<lparr>AccessToken = token, TokenType = ''Bearer'', ExpiresIn = f_to_int (go_Seconds (expiresAt - t2))\<rparr>))"

section \<open>Laws of the manager\<close>

lemma jwt_trunc: "jwt_ok lib \<Longrightarrow> NewNumericDate lib t = t - t mod Second"
  by (simp add: jwt_ok_def)

lemma jwt_signed:
  assumes "jwt_ok lib" and "plain_claims c"
  shows "\<exists>tok. SignedString lib SigningMethodHS256 c key = Inr tok \<and> tok \<noteq> [] \<and> CHR '' '' \<notin> set tok \<and>
    (\<forall>f now. f SigningMethodHS256 = Inr key \<longrightarrow>
       (if expired c now then \<exists>e. ParseWithClaims lib f now tok = Inl e else ParseWithClaims lib f now tok = Inr c))"
  using assms(1) [unfolded jwt_ok_def, THEN conjunct2, THEN conjunct1, rule_format, OF assms(2)] by simp

lemma Second_pos [simp]: "0 < Second"
  by (simp add: Second_def)

lemma whole_second_trunc: "\<bar>t\<bar> \<le> 2 ^ 53 * Second - Second \<Longrightarrow> whole_second (t - t mod Second)"
proof -
  assume t: "\<bar>t\<bar> \<le> 2 ^ 53 * Second - Second"
  have s: "t - t mod Second = Second * (t div Second)" by (simp add: minus_mod_eq_mult_div)
  have "t div Second < 2 ^ 53" "- (2 ^ 53) < t div Second" using t unfolding Second_def by simp_all
  then have "\<bar>t div Second\<bar> < 2 ^ 53" by linarith
  then show ?thesis unfolding whole_second_def s by simp
qed

lemma ascii_Itoa: "ascii (Itoa i)"
proof -
  have "list_all (\<lambda>c. (of_char c :: nat) < 128) (decimal n)" for n
    using list_all_is_digit_decimal [of n] by (auto simp: list_all_iff is_digit_def)
  then show ?thesis by (simp add: ascii_def Itoa_def)
qed

lemma int4_int64: "int4 i \<Longrightarrow> in_int64 i"
  unfolding int4_def in_int64_def by simp

lemma ascii_role: "valid_role r \<Longrightarrow> ascii r"
  by (auto simp: valid_role_def UserRoleCustomer_def UserRoleAdmin_def ascii_def)

text \<open>Times at which dates are exact: the 285 million years around the origin.\<close>

definition sane_time :: "time \<Rightarrow> bool" where
  "sane_time t \<longleftrightarrow> \<bar>t\<bar> \<le> 2 ^ 53 * Second - Second"

lemma token_issued:
  assumes "jwt_ok lib" and "in_int64 userID" and "ascii role" and "sane_time now" and "sane_time (now + JWT_ttl m)"
  obtains token where "token_Generate lib m now userID role = Inr (token, now + JWT_ttl m)"
    and "token \<noteq> []" and "CHR '' '' \<notin> set token"
    and "\<forall>t. if t < now + JWT_ttl m - (now + JWT_ttl m) mod Second
      then token_Parse lib m t token = Inr (claims_for lib now (now + JWT_ttl m) userID role)
      else \<exists>e. token_Parse lib m t token = Inl e"
proof -
  let ?c = "claims_for lib now (now + JWT_ttl m) userID role"
  have plain: "plain_claims ?c" using assms ascii_Itoa whole_second_trunc
    by (simp add: plain_claims_def claims_for_def jwt_trunc sane_time_def)
  have key: "token_key m SigningMethodHS256 = Inr (JWT_secret m)" by (simp add: SigningMethodHS256_def)
  obtain token where s: "SignedString lib SigningMethodHS256 ?c (JWT_secret m) = Inr token"
    "token \<noteq> []" "CHR '' '' \<notin> set token"
    and p: "if expired ?c t then \<exists>e. token_Parse lib m t token = Inl e else token_Parse lib m t token = Inr ?c" for t
    using jwt_signed [OF assms(1) plain, of "JWT_secret m"] key unfolding token_Parse_def by auto
  have e: "\<not> expired ?c t \<longleftrightarrow> t < now + JWT_ttl m - (now + JWT_ttl m) mod Second" for t
    using assms(1) by (auto simp: expired_def claims_for_def jwt_trunc)
  have "if t < now + JWT_ttl m - (now + JWT_ttl m) mod Second then token_Parse lib m t token = Inr ?c
      else \<exists>e. token_Parse lib m t token = Inl e" for t
    using p [of t] unfolding e [symmetric] by simp
  with s show ?thesis by (intro that [of token] allI) (simp_all add: token_Generate_def Let_def)
qed

lemma token_accepted:
  assumes "jwt_ok lib" and "token_Parse lib m now token = Inr c"
  shows "\<not> expired c now"
    and "\<exists>alg. HeaderMethod lib token = Some (SigningMethodHMAC alg) \<and> VerifiedBy lib (SigningMethodHMAC alg) (JWT_secret m) token"
proof -
  from assms obtain k key where k: "\<not> expired c now" "HeaderMethod lib token = Some k" "token_key m k = Inr key" "VerifiedBy lib k key token"
    unfolding jwt_ok_def token_Parse_def by metis
  show "\<not> expired c now" by (rule k(1))
  show "\<exists>alg. HeaderMethod lib token = Some (SigningMethodHMAC alg) \<and> VerifiedBy lib (SigningMethodHMAC alg) (JWT_secret m) token"
    using k by (cases k) auto
qed

lemma Login_run:
  assumes "replies d = []"
  shows "svc_Login lib m t1 t2 req d =
    (case first_by User_ID (\<lambda>r. User_Email r = Login_Email req) (users (tbl d)) of
       Inl e \<Rightarrow> (Inl (login_error e), d)
     | Inr u \<Rightarrow>
         if User_Password u \<noteq> Login_Password req then (Inl ErrInvalidCredentials, d)
         else (case token_Generate lib m t1 (User_ID u) (User_Role u) of
                 Inl e \<Rightarrow> (Inl e, d)
               | Inr (token, expiresAt) \<Rightarrow>
                   (Inr \<lparr>AccessToken = token, TokenType = ''Bearer'', ExpiresIn = f_to_int (go_Seconds (expiresAt - t2))\<rparr>, d)))"
  using assms by (simp add: svc_Login_def GetUserByEmail_def bindE_def map_err_def query_ok of_result_def run split: sum.splits)

section \<open>A library that meets the contract\<close>

text \<open>
  Tokens of fields, each character of a field as two letters and each field ended by a dot; the last field
  is the SHA-256 of the key and the other fields.
\<close>

definition letter :: "nat \<Rightarrow> char" where
  "letter n = char_of (97 + n)"

definition char_text :: "char \<Rightarrow> string" where
  "char_text c = [letter (of_char c div 16), letter (of_char c mod 16)]"

definition text_char :: "char \<Rightarrow> char \<Rightarrow> char" where
  "text_char a b = char_of (16 * (of_char a - 97) + (of_char b - 97) :: nat)"

definition fields_text :: "string list \<Rightarrow> string" where
  "fields_text fs = concat (map (\<lambda>f. concat (map char_text f) @ ''.'') fs)"

fun text_fields :: "string \<Rightarrow> string \<Rightarrow> string list option" where
  "text_fields acc [] = (if acc = [] then Some [] else None)"
| "text_fields acc [c] = (if c = CHR ''.'' then Some [acc] else None)"
| "text_fields acc (c # x # s) =
     (if c = CHR ''.'' then map_option (Cons acc) (text_fields [] (x # s)) else text_fields (acc @ [text_char c x]) s)"

lemma letter_code: "n < 16 \<Longrightarrow> of_char (letter n) = 97 + n"
  by (simp add: letter_def of_char_of)

lemma char_code: "(of_char c :: nat) div 16 < 16" "(of_char c :: nat) mod 16 < 16"
  using nat_of_char_less_256 [of c] by linarith+

lemma text_char_text: "text_char (letter (of_char c div 16)) (letter (of_char c mod 16)) = c"
  using char_code [of c] by (simp add: text_char_def letter_code)

lemma letter_neq: "n < 16 \<Longrightarrow> letter n \<noteq> CHR ''.''" "n < 16 \<Longrightarrow> letter n \<noteq> CHR '' ''"
  by (auto dest: arg_cong [of "letter n" _ "of_char :: char \<Rightarrow> nat"] simp: letter_code)

lemma text_fields_dot: "text_fields acc (CHR ''.'' # s) = map_option (Cons acc) (text_fields [] s)"
  by (cases s) auto

lemma text_fields_field: "text_fields acc (concat (map char_text f) @ s) = text_fields (acc @ f) s"
proof (induction f arbitrary: acc)
  case (Cons c f)
  have "text_fields acc (concat (map char_text (c # f)) @ s) = text_fields (acc @ [c]) (concat (map char_text f) @ s)"
    using letter_neq(1) [OF char_code(1) [of c]] by (simp add: char_text_def text_char_text)
  then show ?case by (simp add: Cons.IH)
qed simp

lemma text_fields_text [simp]: "text_fields [] (fields_text fs) = Some fs"
  by (induction fs) (simp_all add: fields_text_def text_fields_field text_fields_dot)

lemma fields_text_no_space: "CHR '' '' \<notin> set (fields_text fs)"
proof -
  have "CHR '' '' \<notin> set (char_text c)" for c
    using letter_neq(2) [OF char_code(1) [of c]] letter_neq(2) [OF char_code(2) [of c]]
    by (simp add: char_text_def not_sym)
  then show ?thesis by (auto simp: fields_text_def)
qed

fun method_alg :: "signing_method \<Rightarrow> string" where
  "method_alg (SigningMethodHMAC alg) = alg"
| "method_alg (OtherMethod alg) = alg"

definition alg_method :: "string \<Rightarrow> signing_method" where
  "alg_method alg = (if alg = ''HS256'' then SigningMethodHMAC alg else OtherMethod alg)"

fun date_text :: "time option \<Rightarrow> string" where
  "date_text None = []"
| "date_text (Some t) = Itoa (t div Second)"

definition text_date :: "string \<Rightarrow> time option" where
  "text_date s = map_option (\<lambda>n. n * Second) (Atoi s)"

definition claim_fields :: "signing_method \<Rightarrow> Claims \<Rightarrow> string list" where
  "claim_fields m c = [method_alg m, Itoa (Claims_UserID c), Claims_Role c, Claims_Subject c,
     date_text (Claims_IssuedAt c), date_text (Claims_ExpiresAt c)]"

definition sample_mac :: "string \<Rightarrow> string list \<Rightarrow> string" where
  "sample_mac key fs = EncodeToString (sha256 (key @ fields_text fs))"

fun sample_claims :: "string list \<Rightarrow> (signing_method \<times> Claims) option" where
  "sample_claims [alg, uid, role, sub, iat, due] =
     map_option (\<lambda>i. (alg_method alg, \<lparr>Claims_UserID = i, Claims_Role = role, Claims_Subject = sub,
       Claims_IssuedAt = text_date iat, Claims_ExpiresAt = text_date due\<rparr>)) (Atoi uid)"
| "sample_claims _ = None"

definition sample_header :: "string \<Rightarrow> signing_method option" where
  "sample_header tok =
     (case text_fields [] tok of Some (alg # _) \<Rightarrow> Some (alg_method alg) | _ \<Rightarrow> None)"

definition sample_verified :: "signing_method \<Rightarrow> string \<Rightarrow> string \<Rightarrow> bool" where
  "sample_verified m key tok =
     (case text_fields [] tok of Some fs \<Rightarrow> fs \<noteq> [] \<and> last fs = sample_mac key (butlast fs) | None \<Rightarrow> False)"

definition sample_parse :: "(signing_method \<Rightarrow> go_error + string) \<Rightarrow> time \<Rightarrow> string \<Rightarrow> go_error + Claims" where
  "sample_parse f now tok =
     (case text_fields [] tok of
        None \<Rightarrow> Inl (DriverError ''token is malformed'')
      | Some fs \<Rightarrow>
          (case sample_claims (butlast fs) of
             None \<Rightarrow> Inl (DriverError ''token is malformed'')
           | Some (m, c) \<Rightarrow>
               (case f m of
                  Inl e \<Rightarrow> Inl e
                | Inr key \<Rightarrow>
                    if \<not> sample_verified m key tok then Inl (DriverError ''token signature is invalid'')
                    else if expired c now then Inl (DriverError ''token is expired'')
                    else Inr c)))"

definition sample_jwt :: jwt_lib where
  "sample_jwt =
     \<lparr>NewNumericDate = (\<lambda>t. t - t mod Second),
      SignedString = (\<lambda>m c key. Inr (fields_text (claim_fields m c @ [sample_mac key (claim_fields m c)]))),
      HeaderMethod = sample_header, VerifiedBy = sample_verified, ParseWithClaims = sample_parse\<rparr>"

lemma text_date_text: "pred_option whole_second t \<Longrightarrow> text_date (date_text t) = t"
proof (cases t)
  case None
  then show ?thesis by (simp add: text_date_def Atoi_def)
next
  case (Some a)
  assume "pred_option whole_second t"
  with Some have a: "a mod Second = 0" "\<bar>a div Second\<bar> < 2 ^ 53" by (simp_all add: whole_second_def)
  then have "in_int64 (a div Second)" unfolding in_int64_def by (auto simp: abs_less_iff)
  moreover have "a div Second * Second = a" using a(1) by (metis add.right_neutral div_mult_mod_eq)
  ultimately show ?thesis using Some by (simp add: text_date_def Atoi_Itoa)
qed

lemma sample_claims_fields:
  "plain_claims c \<Longrightarrow> sample_claims (claim_fields SigningMethodHS256 c) = Some (SigningMethodHS256, c)"
  by (cases c) (simp add: claim_fields_def plain_claims_def SigningMethodHS256_def alg_method_def Atoi_Itoa text_date_text)

lemma sample_parse_Inr:
  assumes "sample_parse f now tok = Inr c"
  shows "\<not> expired c now" "\<exists>m key. sample_header tok = Some m \<and> f m = Inr key \<and> sample_verified m key tok"
proof -
  from assms obtain fs m key where p: "text_fields [] tok = Some fs" "sample_claims (butlast fs) = Some (m, c)" "f m = Inr key"
    "sample_verified m key tok" "\<not> expired c now"
    by (auto simp: sample_parse_def split: option.splits sum.splits if_splits)
  show "\<not> expired c now" by (rule p(5))
  from p(2) obtain alg uid role sub iat due where b: "butlast fs = [alg, uid, role, sub, iat, due]" "m = alg_method alg"
    by (cases "butlast fs" rule: sample_claims.cases) auto
  then have "hd fs = alg" "fs \<noteq> []" by (cases fs; auto split: if_splits)+
  then have "sample_header tok = Some m" using p(1) b(2) by (cases fs) (simp_all add: sample_header_def)
  then show "\<exists>m key. sample_header tok = Some m \<and> f m = Inr key \<and> sample_verified m key tok" using p(3,4) by blast
qed

lemma jwt_ok_sample: "jwt_ok sample_jwt"
proof -
  have "\<exists>tok. SignedString sample_jwt SigningMethodHS256 c key = Inr tok \<and> tok \<noteq> [] \<and> CHR '' '' \<notin> set tok \<and>
      (\<forall>f now. f SigningMethodHS256 = Inr key \<longrightarrow>
         (if expired c now then \<exists>e. sample_parse f now tok = Inl e else sample_parse f now tok = Inr c))"
    if "plain_claims c" for c key
  proof -
    let ?fs = "claim_fields SigningMethodHS256 c"
    let ?tok = "fields_text (?fs @ [sample_mac key ?fs])"
    have ver: "sample_verified SigningMethodHS256 key ?tok" by (simp add: sample_verified_def)
    have "sample_parse f now ?tok = (if expired c now then Inl (DriverError ''token is expired'') else Inr c)"
      if "f SigningMethodHS256 = Inr key" for f now
      using that ver sample_claims_fields [OF \<open>plain_claims c\<close>] by (simp add: sample_parse_def)
    moreover have "?tok \<noteq> []" by (simp add: fields_text_def)
    ultimately show ?thesis
      by (intro exI [of _ ?tok]) (simp add: sample_jwt_def fields_text_no_space)
  qed
  then show ?thesis using sample_parse_Inr unfolding jwt_ok_def by (simp add: sample_jwt_def)
qed

section \<open>Properties\<close>

text \<open>
  C28. \<open>Login\<close> answers with a token exactly for the address and the password of a stored user, and with
  the same refusal for an unknown address and a wrong password. The token names that user and the
  user's role to \<open>Parse\<close> until the time to live has passed, counted in whole seconds, and is refused
  from then on.
\<close>

theorem Login_token:
  assumes "jwt_ok lib" and "replies d = []" and "wf_db d" and "sane_time t1" and "sane_time (t1 + JWT_ttl m)"
    and "\<forall>u \<in> set (users (tbl d)). valid_role (User_Role u) \<and> int4 (User_ID u)"
  shows "\<exists>r. svc_Login lib m t1 t2 req d = (r, d) \<and>
    (case r of
       Inr resp \<Rightarrow> TokenType resp = ''Bearer'' \<and>
         (\<exists>u \<in> set (users (tbl d)). User_Email u = Login_Email req \<and> User_Password u = Login_Password req \<and>
           (\<forall>t. if t < t1 + JWT_ttl m - (t1 + JWT_ttl m) mod Second
                then \<exists>c. token_Parse lib m t (AccessToken resp) = Inr c \<and> Claims_UserID c = User_ID u \<and> Claims_Role c = User_Role u
                else \<exists>e. token_Parse lib m t (AccessToken resp) = Inl e))
     | Inl e \<Rightarrow> e = ErrInvalidCredentials \<and>
         \<not> (\<exists>u \<in> set (users (tbl d)). User_Email u = Login_Email req \<and> User_Password u = Login_Password req))"
proof (cases "\<exists>u \<in> set (users (tbl d)). User_Email u = Login_Email req")
  case False
  then have "first_by User_ID (\<lambda>r. User_Email r = Login_Email req) (users (tbl d)) = Inl ErrRecordNotFound"
    by (intro first_by_none) blast
  then show ?thesis using False Login_run [OF assms(2), of lib m t1 t2 req] by (auto simp: login_error_def)
next
  case True
  then obtain u where u: "u \<in> set (users (tbl d))" "User_Email u = Login_Email req" by blast
  have one: "q = u" if "q \<in> set (users (tbl d))" "User_Email q = Login_Email req" for q
    using assms(3) that u distinct_map_eqD [of User_Email "users (tbl d)" q u]
    by (simp add: wf_db_def wf_tables_def wf_users_def)
  have first: "first_by User_ID (\<lambda>r. User_Email r = Login_Email req) (users (tbl d)) = Inr u"
    using find_email [OF assms(3) u(1)] u(2) by simp
  show ?thesis
  proof (cases "User_Password u = Login_Password req")
    case False
    then show ?thesis using first one Login_run [OF assms(2), of lib m t1 t2 req] by auto
  next
    case True
    have range: "valid_role (User_Role u)" "int4 (User_ID u)" using assms(6) u(1) by blast+
    obtain token where
      g: "token_Generate lib m t1 (User_ID u) (User_Role u) = Inr (token, t1 + JWT_ttl m)"
      and "token \<noteq> []" and "CHR '' '' \<notin> set token"
      and p: "\<forall>t. if t < t1 + JWT_ttl m - (t1 + JWT_ttl m) mod Second
        then token_Parse lib m t token = Inr (claims_for lib t1 (t1 + JWT_ttl m) (User_ID u) (User_Role u))
        else \<exists>e. token_Parse lib m t token = Inl e"
      by (rule token_issued [OF assms(1) int4_int64 [OF range(2)] ascii_role [OF range(1)] assms(4,5)])
    let ?r = "\<lparr>AccessToken = token, TokenType = ''Bearer'', ExpiresIn = f_to_int (go_Seconds (t1 + JWT_ttl m - t2))\<rparr>"
    have "svc_Login lib m t1 t2 req d = (Inr ?r, d)" using Login_run [OF assms(2), of lib m t1 t2 req] first True g by simp
    moreover have "if t < t1 + JWT_ttl m - (t1 + JWT_ttl m) mod Second
        then \<exists>c. token_Parse lib m t token = Inr c \<and> Claims_UserID c = User_ID u \<and> Claims_Role c = User_Role u
        else \<exists>e. token_Parse lib m t token = Inl e" for t
      using p [rule_format, of t] by (simp add: claims_for_def split: if_splits)
    ultimately show ?thesis using u True by auto
  qed
qed

definition sample_manager :: jwtManager where
  "sample_manager = NewJWTManager ''secret'' (3600 * Second)"

definition sample_login :: LoginRequest where
  "sample_login = \<lparr>Login_Email = ''bo@shop'', Login_Password = ''pw2''\<rparr>"

theorem Login_token_witness:
  "\<exists>resp c. svc_Login sample_jwt sample_manager 60 61 sample_login sample_db = (Inr resp, sample_db) \<and>
     token_Parse sample_jwt sample_manager Second (AccessToken resp) = Inr c \<and> Claims_UserID c = 2 \<and> Claims_Role c = UserRoleAdmin"
proof -
  have c: "sane_time 60" "sane_time (60 + JWT_ttl sample_manager)"
    "\<forall>u \<in> set (users (tbl sample_db)). valid_role (User_Role u) \<and> int4 (User_ID u)"
    "Second < 60 + JWT_ttl sample_manager - (60 + JWT_ttl sample_manager) mod Second"
    "\<exists>u \<in> set (users (tbl sample_db)). User_Email u = Login_Email sample_login \<and> User_Password u = Login_Password sample_login"
    "\<forall>u \<in> set (users (tbl sample_db)). User_Email u = Login_Email sample_login \<longrightarrow> User_ID u = 2 \<and> User_Role u = UserRoleAdmin"
    by code_simp+
  from Login_token [OF jwt_ok_sample replies_sample wf_sample c(1-3), of 61 sample_login]
  obtain r where r: "svc_Login sample_jwt sample_manager 60 61 sample_login sample_db = (r, sample_db)"
    and k: "case r of
       Inr resp \<Rightarrow> TokenType resp = ''Bearer'' \<and>
         (\<exists>u \<in> set (users (tbl sample_db)). User_Email u = Login_Email sample_login \<and> User_Password u = Login_Password sample_login \<and>
           (\<forall>t. if t < 60 + JWT_ttl sample_manager - (60 + JWT_ttl sample_manager) mod Second
                then \<exists>c. token_Parse sample_jwt sample_manager t (AccessToken resp) = Inr c \<and> Claims_UserID c = User_ID u \<and> Claims_Role c = User_Role u
                else \<exists>e. token_Parse sample_jwt sample_manager t (AccessToken resp) = Inl e))
     | Inl e \<Rightarrow> e = ErrInvalidCredentials \<and>
         \<not> (\<exists>u \<in> set (users (tbl sample_db)). User_Email u = Login_Email sample_login \<and> User_Password u = Login_Password sample_login)"
    by blast
  show ?thesis
  proof (cases r)
    case (Inl e)
    then show ?thesis using k c(5) by simp
  next
    case (Inr resp)
    with k obtain u where u: "u \<in> set (users (tbl sample_db))" "User_Email u = Login_Email sample_login"
      and t: "\<And>t. if t < 60 + JWT_ttl sample_manager - (60 + JWT_ttl sample_manager) mod Second
                then \<exists>c. token_Parse sample_jwt sample_manager t (AccessToken resp) = Inr c \<and> Claims_UserID c = User_ID u \<and> Claims_Role c = User_Role u
                else \<exists>e. token_Parse sample_jwt sample_manager t (AccessToken resp) = Inl e"
      by auto
    from c(6) u have "User_ID u = 2" "User_Role u = UserRoleAdmin" by blast+
    with t [of Second] c(4) r Inr show ?thesis by auto
  qed
qed

text \<open>
  C29. \<open>Parse\<close> accepts a token only when its header names an HMAC method, its signature verifies under the
  manager's own secret, and it has not expired: a token that names another method, such as one signed
  with a public key as if it were the secret or not signed at all, is refused whatever it claims.
\<close>

theorem Parse_only_signed:
  assumes "jwt_ok lib"
    and "\<not> (\<exists>alg. HeaderMethod lib token = Some (SigningMethodHMAC alg) \<and>
           VerifiedBy lib (SigningMethodHMAC alg) (JWT_secret m) token)"
  shows "\<exists>e. token_Parse lib m now token = Inl e"
proof (cases "token_Parse lib m now token")
  case (Inr c)
  then show ?thesis using token_accepted(2) [OF assms(1) Inr] assms(2) by blast
qed simp

theorem Parse_only_signed_witness:
  "\<exists>e. token_Parse sample_jwt sample_manager 0
     (fields_text [''none'', ''2'', ''admin'', ''2'', [], [], []]) = Inl e"
proof -
  let ?tok = "fields_text [''none'', ''2'', ''admin'', ''2'', [], [], []]"
  have "HeaderMethod sample_jwt ?tok = Some (OtherMethod ''none'')"
    by (simp add: sample_jwt_def sample_header_def alg_method_def)
  then show ?thesis by (intro Parse_only_signed [OF jwt_ok_sample]) simp
qed

end
