(* ===== verification/Middleware.thy ===== *)
theory Middleware
  imports Token
begin

text \<open>
  The authentication middleware of \<open>internal/api/middleware/auth.go\<close>: the request as a handler sees it,
  the response, and the guards \<open>Authenticate\<close>, \<open>RequireRole\<close> and \<open>RequireAdmin\<close>, which either abort
  with a response or pass the request on. Of Gin, the record \<open>ctx\<close> holds what \<open>gin.Context\<close> gives the
  code; of the package \<open>strings\<close>, \<open>Cut\<close>, \<open>EqualFold\<close> and \<open>TrimSpace\<close> are written out on bytes.
\<close>

section \<open>Strings\<close>

text \<open>\<open>strings.Cut(s, " ")\<close>: before, after and whether the separator was found.\<close>

fun cut_space :: "string \<Rightarrow> string \<times> string \<times> bool" where
  "cut_space [] = ([], [], False)"
| "cut_space (c # s) =
     (if c = CHR '' '' then ([], s, True) else (case cut_space s of (a, b, found) \<Rightarrow> (c # a, b, found)))"

definition lower :: "char \<Rightarrow> char" where
  "lower c = (if 65 \<le> (of_char c :: nat) \<and> (of_char c :: nat) \<le> 90 then char_of (of_char c + 32 :: nat) else c)"

text \<open>
  \<open>strings.EqualFold\<close> with a word of ASCII letters other than k and s, the only ones to which a character
  outside ASCII folds.
\<close>

definition equal_fold :: "string \<Rightarrow> string \<Rightarrow> bool" where
  "equal_fold a b \<longleftrightarrow> map lower a = map lower b"

text \<open>The white space of \<open>unicode.IsSpace\<close> in UTF-8.\<close>

definition unicode_spaces :: "string list" where
  "unicode_spaces =
     [[CHR 0x09], [CHR 0x0A], [CHR 0x0B], [CHR 0x0C], [CHR 0x0D], [CHR 0x20], [CHR 0xC2, CHR 0x85],
      [CHR 0xC2, CHR 0xA0], [CHR 0xE1, CHR 0x9A, CHR 0x80], [CHR 0xE2, CHR 0x80, CHR 0x80],
      [CHR 0xE2, CHR 0x80, CHR 0x81], [CHR 0xE2, CHR 0x80, CHR 0x82], [CHR 0xE2, CHR 0x80, CHR 0x83],
      [CHR 0xE2, CHR 0x80, CHR 0x84], [CHR 0xE2, CHR 0x80, CHR 0x85], [CHR 0xE2, CHR 0x80, CHR 0x86],
      [CHR 0xE2, CHR 0x80, CHR 0x87], [CHR 0xE2, CHR 0x80, CHR 0x88], [CHR 0xE2, CHR 0x80, CHR 0x89],
      [CHR 0xE2, CHR 0x80, CHR 0x8A], [CHR 0xE2, CHR 0x80, CHR 0xA8], [CHR 0xE2, CHR 0x80, CHR 0xA9],
      [CHR 0xE2, CHR 0x80, CHR 0xAF], [CHR 0xE2, CHR 0x81, CHR 0x9F], [CHR 0xE3, CHR 0x80, CHR 0x80]]"

function trim_left :: "string list \<Rightarrow> string \<Rightarrow> string" where
  "trim_left sps s =
     (case find (\<lambda>sp. sp \<noteq> [] \<and> take (length sp) s = sp) sps of
        None \<Rightarrow> s
      | Some sp \<Rightarrow> trim_left sps (drop (length sp) s))"
  by pat_completeness auto
termination
proof (relation "measure (\<lambda>(sps, s). length s)")
  fix sps s sp
  assume "find (\<lambda>sp. sp \<noteq> [] \<and> take (length sp) s = sp) sps = Some sp"
  then have "sp \<noteq> []" "take (length sp) s = sp" by (auto simp: find_Some_iff)
  then show "((sps, drop (length sp) s), sps, s) \<in> measure (\<lambda>(sps, s). length s)" by (cases s) auto
qed simp

declare trim_left.simps [simp del]

definition TrimSpace :: "string \<Rightarrow> string" where
  "TrimSpace s = rev (trim_left (map rev unicode_spaces) (rev (trim_left unicode_spaces s)))"

section \<open>Requests and responses\<close>

record ctx =
  ctx_header :: "string \<Rightarrow> string"
  ctx_param :: "string \<Rightarrow> string"
  ctx_body :: string
  ctx_query :: string
  ctx_protocols :: "string list"
  ctx_userID :: "int option"
  ctx_role :: "string option"

datatype payload =
    ErrorBody string
  | UserBody UserResponse
  | LoginBody LoginResponse
  | ProductBody ProductResponse
  | ProductsBody ListProductsResponse
  | InventoryBody InventoryResponse
  | OrderBody OrderResponse
  | Hijacked

record response =
  resp_status :: int
  resp_body :: payload

definition gin_JSON :: "int \<Rightarrow> payload \<Rightarrow> response" where
  "gin_JSON code body = \<lparr>resp_status = code, resp_body = body\<rparr>"

definition gin_error :: "int \<Rightarrow> string \<Rightarrow> response" where
  "gin_error code msg = gin_JSON code (ErrorBody msg)"

section \<open>The guards\<close>

definition abortUnauthorized :: "string \<Rightarrow> response" where
  "abortUnauthorized msg = gin_error 401 msg"

definition mw_Authenticate :: "jwt_lib \<Rightarrow> jwtManager \<Rightarrow> time \<Rightarrow> ctx \<Rightarrow> response + ctx" where
  "mw_Authenticate lib m now c =
     (let header = ctx_header c ''Authorization'' in
      if header = [] then Inl (abortUnauthorized ''authorization header required'')
      else case cut_space header of (scheme, token, found) \<Rightarrow>
        if \<not> found \<or> \<not> equal_fold scheme ''Bearer'' \<or> TrimSpace token = []
        then Inl (abortUnauthorized ''invalid authorization header'')
        else case token_Parse lib m now (TrimSpace token) of
            Inl e \<Rightarrow> Inl (abortUnauthorized ''invalid or expired token'')
          | Inr claims \<Rightarrow> Inr (c\<lparr>ctx_userID := Some (Claims_UserID claims), ctx_role := Some (Claims_Role claims)\<rparr>))"

definition mw_RequireRole :: "string \<Rightarrow> ctx \<Rightarrow> response + ctx" where
  "mw_RequireRole role c =
     (case ctx_role c of
        Some got \<Rightarrow> if got \<noteq> role then Inl (gin_error 403 ''insufficient permissions'') else Inr c
      | None \<Rightarrow> Inl (gin_error 403 ''insufficient permissions''))"

definition mw_RequireAdmin :: "ctx \<Rightarrow> response + ctx" where
  "mw_RequireAdmin = mw_RequireRole UserRoleAdmin"

section \<open>Lemmas\<close>

definition bearer :: "jwt_lib \<Rightarrow> jwtManager \<Rightarrow> time \<Rightarrow> ctx \<Rightarrow> Claims option" where
  "bearer lib m now c =
     (case cut_space (ctx_header c ''Authorization'') of (scheme, token, found) \<Rightarrow>
        if found \<and> equal_fold scheme ''Bearer'' \<and> TrimSpace token \<noteq> [] then
          (case token_Parse lib m now (TrimSpace token) of Inl e \<Rightarrow> None | Inr claims \<Rightarrow> Some claims)
        else None)"

text \<open>\<open>Authenticate\<close> lets exactly the requests with a token that parses through, and tells the handler whom it names.\<close>

lemma Authenticate_bearer:
  "case bearer lib m now c of
     None \<Rightarrow> \<exists>msg. mw_Authenticate lib m now c = Inl (gin_error 401 msg)
   | Some claims \<Rightarrow>
       mw_Authenticate lib m now c = Inr (c\<lparr>ctx_userID := Some (Claims_UserID claims), ctx_role := Some (Claims_Role claims)\<rparr>)"
proof (cases "ctx_header c ''Authorization'' = []")
  case True
  then show ?thesis by (auto simp: bearer_def mw_Authenticate_def abortUnauthorized_def)
next
  case False
  obtain a b f where "cut_space (ctx_header c ''Authorization'') = (a, b, f)" by (cases "cut_space (ctx_header c ''Authorization'')")
  then show ?thesis using False
    by (auto simp: bearer_def mw_Authenticate_def abortUnauthorized_def Let_def split: sum.splits)
qed

lemma Authenticate_Inr:
  assumes "mw_Authenticate lib m now c = Inr c'"
  obtains claims where "bearer lib m now c = Some claims"
    "c' = c\<lparr>ctx_userID := Some (Claims_UserID claims), ctx_role := Some (Claims_Role claims)\<rparr>"
  using assms Authenticate_bearer [of lib m now c] by (cases "bearer lib m now c") auto

lemma Authenticate_Inl:
  assumes "mw_Authenticate lib m now c = Inl r"
  shows "resp_status r = 401" "bearer lib m now c = None"
  using assms Authenticate_bearer [of lib m now c] by (cases "bearer lib m now c"; auto simp: gin_error_def gin_JSON_def)+

lemma RequireAdmin_Inr: "mw_RequireAdmin c = Inr c' \<Longrightarrow> c' = c \<and> ctx_role c = Some UserRoleAdmin"
  by (auto simp: mw_RequireAdmin_def mw_RequireRole_def split: option.splits if_splits)

lemma RequireAdmin_Inl: "mw_RequireAdmin c = Inl r \<Longrightarrow> resp_status r = 403 \<and> ctx_role c \<noteq> Some UserRoleAdmin"
  by (auto simp: mw_RequireAdmin_def mw_RequireRole_def gin_error_def gin_JSON_def split: option.splits if_splits)

text \<open>A header as the client of \<open>Login\<close> sends it.\<close>

lemma cut_space_first: "CHR '' '' \<notin> set s \<Longrightarrow> cut_space (s @ CHR '' '' # t) = (s, t, True)"
  by (induction s) auto

end
