(* ===== verification/Handlers.thy ===== *)
theory Handlers
  imports Middleware OrderService ProductService Notification
begin

text \<open>
  The HTTP handlers of \<open>internal/api/handlers\<close>. A handler reads the request, calls a service on the state of
  the server and answers; a panic of a service unwinds the handler. Gin's binding of a body or a query
  to a request type, with the validation of its tags, is a parameter \<open>bind\<close>, and so is gorilla's
  upgrade of a connection, which either succeeds or writes a failure response itself.
\<close>

section \<open>The state of the server\<close>

record ('k, 'q) web =
  web_app :: "('k, 'q) app"
  web_hub :: Hub
  web_metrics :: "(string \<times> string \<times> string) list"

type_synonym ('k, 'q, 'a) webm = "(('k, 'q) web, go_error, 'a) prog"

definition on_app :: "(('k, 'q) app, go_error, 'a) prog \<Rightarrow> ('k, 'q, 'a) webm" where
  "on_app m w = (case m (web_app w) of (r, a) \<Rightarrow> (r, w\<lparr>web_app := a\<rparr>))"

definition on_hub :: "'a hubm \<Rightarrow> ('k, 'q, 'a) webm" where
  "on_hub m w = (case m (web_hub w) of (r, h) \<Rightarrow> (r, w\<lparr>web_hub := h\<rparr>))"

text \<open>
  The end of a handler: \<open>if err != nil { ... }\<close> and the answer, written with two functions. \<open>GoPanic\<close> is
  not an error value.
\<close>

definition reply :: "('k, 'q, 'a) webm \<Rightarrow> (go_error \<Rightarrow> response) \<Rightarrow> ('a \<Rightarrow> response) \<Rightarrow> ('k, 'q, response) webm" where
  "reply m failed ok w =
     (case m w of
        (Inl (GoPanic s), w') \<Rightarrow> (Inl (GoPanic s), w')
      | (Inl e, w') \<Rightarrow> (Inr (failed e), w')
      | (Inr x, w') \<Rightarrow> (Inr (ok x), w'))"

definition internal_error :: "go_error \<Rightarrow> response" where
  "internal_error e = gin_error 500 (error_text e)"

definition not_found_or_internal :: "string \<Rightarrow> go_error \<Rightarrow> response" where
  "not_found_or_internal msg e = (if e = ErrRecordNotFound then gin_error 404 msg else internal_error e)"

text \<open>The two ways in which the handlers begin: the path parameter \<open>id\<close>, and the bound request.\<close>

definition with_id :: "ctx \<Rightarrow> (int \<Rightarrow> ('k, 'q, response) webm) \<Rightarrow> ('k, 'q, response) webm" where
  "with_id c f = (case Atoi (ctx_param c ''id'') of None \<Rightarrow> ret (gin_error 400 ''invalid id'') | Some i \<Rightarrow> f i)"

definition with_request :: "go_error + 'r \<Rightarrow> ('r \<Rightarrow> ('k, 'q, response) webm) \<Rightarrow> ('k, 'q, response) webm" where
  "with_request b f = (case b of Inl e \<Rightarrow> ret (gin_error 400 (error_text e)) | Inr req \<Rightarrow> f req)"

section \<open>Users\<close>

definition h_CreateUser :: "(string \<Rightarrow> go_error + CreateUserRequest) \<Rightarrow> time \<Rightarrow> ctx \<Rightarrow> ('k, 'q, response) webm" where
  "h_CreateUser bind now c =
     with_request (bind (ctx_body c)) (\<lambda>req.
       reply (on_app (on_db (svc_CreateUser now req))) internal_error (\<lambda>resp. gin_JSON 201 (UserBody resp)))"

definition login_failed :: "go_error \<Rightarrow> response" where
  "login_failed e = (if e = ErrInvalidCredentials then gin_error 401 (error_text e) else internal_error e)"

definition h_Login ::
  "jwt_lib \<Rightarrow> jwtManager \<Rightarrow> (string \<Rightarrow> go_error + LoginRequest) \<Rightarrow> time \<Rightarrow> time \<Rightarrow> ctx \<Rightarrow> ('k, 'q, response) webm"
where
  "h_Login lib m bind t1 t2 c =
     with_request (bind (ctx_body c)) (\<lambda>req.
       reply (on_app (on_db (svc_Login lib m t1 t2 req))) login_failed (\<lambda>resp. gin_JSON 200 (LoginBody resp)))"

definition h_GetUser :: "ctx \<Rightarrow> ('k, 'q, response) webm" where
  "h_GetUser c =
     with_id c (\<lambda>i.
       reply (on_app (on_db (svc_GetUser i))) (not_found_or_internal ''user not found'') (\<lambda>resp. gin_JSON 200 (UserBody resp)))"

definition h_UpdateUser :: "(string \<Rightarrow> go_error + UpdateUserRequest) \<Rightarrow> time \<Rightarrow> ctx \<Rightarrow> ('k, 'q, response) webm" where
  "h_UpdateUser bind now c =
     with_id c (\<lambda>i. with_request (bind (ctx_body c)) (\<lambda>req.
       reply (on_app (on_db (svc_UpdateUser now i req))) (not_found_or_internal ''user not found'')
         (\<lambda>resp. gin_JSON 200 (UserBody resp))))"

section \<open>Products\<close>

definition h_List :: "(string \<Rightarrow> go_error + ListProductsRequest) \<Rightarrow> ctx \<Rightarrow> ('k, 'q, response) webm" where
  "h_List bind c =
     with_request (bind (ctx_query c)) (\<lambda>req.
       reply (on_app (on_db (svc_ListProducts req))) internal_error (\<lambda>resp. gin_JSON 200 (ProductsBody resp)))"

definition h_CreateProduct :: "(string \<Rightarrow> go_error + ProductRequest) \<Rightarrow> time \<Rightarrow> time \<Rightarrow> ctx \<Rightarrow> ('k, 'q, response) webm" where
  "h_CreateProduct bind t1 t2 c =
     with_request (bind (ctx_body c)) (\<lambda>req.
       reply (on_app (on_db (svc_CreateProduct t1 t2 req))) internal_error (\<lambda>resp. gin_JSON 201 (ProductBody resp)))"

definition h_UpdateProduct :: "(string \<Rightarrow> go_error + ProductRequest) \<Rightarrow> time \<Rightarrow> time \<Rightarrow> ctx \<Rightarrow> ('k, 'q, response) webm" where
  "h_UpdateProduct bind t1 t2 c =
     with_id c (\<lambda>i. with_request (bind (ctx_body c)) (\<lambda>req.
       reply (on_app (on_db (svc_UpdateProduct t1 t2 i req))) (not_found_or_internal ''product not found'')
         (\<lambda>resp. gin_JSON 200 (ProductBody resp))))"

definition h_GetInventory :: "ctx \<Rightarrow> ('k, 'q, response) webm" where
  "h_GetInventory c =
     with_id c (\<lambda>i.
       reply (on_app (on_db (svc_GetInventory i))) (not_found_or_internal ''inventory not found'')
         (\<lambda>resp. gin_JSON 200 (InventoryBody resp)))"

definition h_GetProduct :: "ctx \<Rightarrow> ('k, 'q, response) webm" where
  "h_GetProduct c =
     with_id c (\<lambda>i.
       reply (on_app (on_db (svc_GetProduct i))) (not_found_or_internal ''product not found'')
         (\<lambda>resp. gin_JSON 200 (ProductBody resp)))"

section \<open>Orders\<close>

fun writeOrderError :: "go_error \<Rightarrow> response" where
  "writeOrderError (ProductNotFoundError p) = gin_error 404 (error_text (ProductNotFoundError p))"
| "writeOrderError (InsufficientStockError p) = gin_error 409 (error_text (InsufficientStockError p))"
| "writeOrderError ErrDuplicateOrder = gin_error 409 (error_text ErrDuplicateOrder)"
| "writeOrderError ErrDuplicateLineItem = gin_error 400 (error_text ErrDuplicateLineItem)"
| "writeOrderError ErrUserNotFound = gin_error 400 (error_text ErrUserNotFound)"
| "writeOrderError e = gin_error 500 (error_text e)"

text \<open>\<open>CreateOrder\<close> is the method of \<open>services.OrderService\<close>.\<close>

definition h_CreateOrder ::
  "(string \<Rightarrow> go_error + CreateOrderRequest) \<Rightarrow> (int \<Rightarrow> CreateOrderRequest \<Rightarrow> (('k, 'q) app, go_error, OrderResponse) prog) \<Rightarrow>
     ctx \<Rightarrow> ('k, 'q, response) webm"
where
  "h_CreateOrder bind CreateOrder c =
     (case ctx_userID c of
        None \<Rightarrow> ret (gin_error 401 ''authentication required'')
      | Some userID \<Rightarrow>
          with_request (bind (ctx_body c)) (\<lambda>req.
            reply (on_app (CreateOrder userID req)) writeOrderError (\<lambda>resp. gin_JSON 201 (OrderBody resp))))"

section \<open>Subscriptions\<close>

definition subprotocolSentinel :: string where
  "subprotocolSentinel = ''access_token''"

fun tokenFromSubprotocols :: "string list \<Rightarrow> string" where
  "tokenFromSubprotocols (p # q # ps) = (if p = subprotocolSentinel then q else tokenFromSubprotocols (q # ps))"
| "tokenFromSubprotocols _ = []"

definition owner_failed :: "go_error \<Rightarrow> response" where
  "owner_failed e = (if e = ErrOrderNotFound then gin_error 404 ''order not found'' else gin_error 500 ''could not load order'')"

text \<open>
  Past the upgrade: the client is made, registered and served, and the stored notifications are replayed
  to it; an error of the listing is logged. \<open>win\<close> is the choice of the \<open>select\<close> in \<open>Register\<close>. A request
  is one step here; what other goroutines can do to the client between its registration and the replay
  is in \<open>Hub\<close>, whose runs interleave them.
\<close>

definition connect_client :: "bool \<Rightarrow> int \<Rightarrow> nat hubm" where
  "connect_client win orderID =
     bindE (NewClient orderID) (\<lambda>client. bindE (hub_Register win client)
       (\<lambda>_ h. (Inr client, upd_client client (\<lambda>x. x\<lparr>Client_pumping := True\<rparr>) h)))"

definition subscribe :: "bool \<Rightarrow> int \<Rightarrow> ('k, 'q, unit) webm" where
  "subscribe win orderID =
     bindE (on_hub (connect_client win orderID)) (\<lambda>client w.
       (case on_app (on_db (ListByOrder orderID)) w of
          (Inl e, w') \<Rightarrow> (Inr (), w')
        | (Inr notes, w') \<Rightarrow> forE notes (\<lambda>n. on_hub (Client_Send (Event_JSON (NewNotificationEvent n)) client)) w'))"

definition h_Connect :: "jwt_lib \<Rightarrow> jwtManager \<Rightarrow> time \<Rightarrow> response option \<Rightarrow> bool \<Rightarrow> ctx \<Rightarrow> ('k, 'q, response) webm" where
  "h_Connect lib m now upgrade win c =
     (let token = tokenFromSubprotocols (ctx_protocols c) in
      if token = [] then ret (gin_error 401 ''authentication required'')
      else case token_Parse lib m now token of
          Inl e \<Rightarrow> ret (gin_error 401 ''invalid or expired token'')
        | Inr claims \<Rightarrow>
            (case Atoi (ctx_param c ''id'') of
               None \<Rightarrow> ret (gin_error 400 ''invalid order id'')
             | Some orderID \<Rightarrow>
                 if orderID \<le> 0 then ret (gin_error 400 ''invalid order id'')
                 else (\<lambda>w. case on_app (on_db (GetOrderUserID orderID)) w of
                     (Inl e, w') \<Rightarrow> (Inr (owner_failed e), w')
                   | (Inr owner, w') \<Rightarrow>
                       if owner \<noteq> Claims_UserID claims then (Inr (gin_error 403 ''not your order''), w')
                       else (case upgrade of
                           Some failure \<Rightarrow> (Inr failure, w')
                         | None \<Rightarrow> bindE (subscribe win orderID) (\<lambda>_. ret (gin_JSON 101 Hijacked)) w'))))"

section \<open>Lemmas\<close>

lemma reply_state: "reply m failed ok w = (r, w') \<Longrightarrow> \<exists>q. m w = (q, w')"
  by (auto simp: reply_def split: prod.splits sum.splits go_error.splits)

lemma on_app_state: "on_app m w = (r, w') \<Longrightarrow> \<exists>a. m (web_app w) = (r, a) \<and> w' = w\<lparr>web_app := a\<rparr>"
  by (auto simp: on_app_def split: prod.splits)

lemma on_hub_state: "on_hub m w = (r, w') \<Longrightarrow> \<exists>h. m (web_hub w) = (r, h) \<and> w' = w\<lparr>web_hub := h\<rparr>"
  by (auto simp: on_hub_def split: prod.splits)

lemma reply_db:
  assumes "reply (on_app (on_db m)) failed ok w = (r, w')"
  obtains q d where "m (app_db (web_app w)) = (q, d)" "w' = w\<lparr>web_app := (web_app w)\<lparr>app_db := d\<rparr>\<rparr>"
  using reply_state [OF assms] by (auto dest!: on_app_state simp: on_db_def split: prod.splits)

text \<open>The subscription writes to the hub only.\<close>

lemma on_hub_app: "on_hub m w = (r, w') \<Longrightarrow> web_app w' = web_app w"
  by (auto dest: on_hub_state)

lemma replay_app: "forE ns (\<lambda>n. on_hub (m n)) w = (r, w') \<Longrightarrow> web_app w' = web_app w"
proof (induction ns arbitrary: w)
  case (Cons n ns)
  then show ?case by (auto simp: bindE_def dest!: on_hub_app split: prod.splits sum.splits)
qed (simp add: ret_def)

lemma subscribe_db:
  assumes "subscribe win orderID w = (r, w')"
  shows "same (app_db (web_app w)) (app_db (web_app w'))"
proof -
  obtain c h where "connect_client win orderID (web_hub w) = (Inr c, h)"
    by (simp add: connect_client_def bindE_def NewClient_def hub_Register_def)
  define w1 where "w1 = w\<lparr>web_hub := h\<rparr>"
  have w1: "web_app w1 = web_app w" by (simp add: w1_def)
  have k: "(case on_app (on_db (ListByOrder orderID)) w1 of
          (Inl e, w') \<Rightarrow> (Inr (), w')
        | (Inr notes, w') \<Rightarrow> forE notes (\<lambda>n. on_hub (Client_Send (Event_JSON (NewNotificationEvent n)) c)) w') = (r, w')"
    using assms \<open>connect_client win orderID (web_hub w) = (Inr c, h)\<close>
    by (simp add: subscribe_def bindE_def on_hub_def w1_def)
  obtain q w2 where l: "on_app (on_db (ListByOrder orderID)) w1 = (q, w2)" by force
  then obtain d where "ListByOrder orderID (app_db (web_app w1)) = (q, d)" "app_db (web_app w2) = d"
    by (auto dest!: on_app_state simp: on_db_def split: prod.splits)
  then have "same (app_db (web_app w)) (app_db (web_app w2))" using w1 by (auto simp: ListByOrder_def dest: query_same)
  moreover have "web_app w' = web_app w2" using k l by (cases q) (auto dest: replay_app)
  ultimately show ?thesis by simp
qed

end
