(* ===== verification/Config.thy ===== *)
theory Config
  imports Models
begin

text \<open>
  Configuration: \<open>internal/config/config.go\<close>. Viper is a parameter: \<open>setting\<close> gives the value of a key in the
  environment or else in the file \<open>.env\<close>, if there is one, and the conversions of a text to a number or a
  duration are those of its \<open>cast\<close> library. The defaults, the keys and the check are the code's.
\<close>

record RedisConfig =
  Redis_Host :: string
  Redis_Port :: int
  Redis_Password :: string
  Redis_DB :: int

record JWTConfig =
  JWT_Secret :: string
  JWT_TTL :: duration

record ServerConfig =
  Server_Host :: string
  Server_Port :: int

record DatabaseConfig =
  DB_Host :: string
  DB_Port :: int
  DB_User :: string
  DB_Password :: string
  DB_Name :: string
  DB_SSLMode :: string

record LoggerConfig =
  Log_Level :: string
  Log_Format :: string

record Config =
  Cfg_Server :: ServerConfig
  Cfg_Database :: DatabaseConfig
  Cfg_Redis :: RedisConfig
  Cfg_Logger :: LoggerConfig
  Cfg_JWT :: JWTConfig
  Cfg_Worker :: WorkerConfig

section \<open>Viper\<close>

datatype setting_value = Text string | Number int | Real float64

record viper =
  setting :: "string \<Rightarrow> string option"
  ToInt :: "string \<Rightarrow> int"
  ToFloat64 :: "string \<Rightarrow> float64"
  ToDuration :: "string \<Rightarrow> duration"

text \<open>The \<open>SetDefault\<close> calls of \<open>Load\<close>, in order.\<close>

definition config_defaults :: "(string \<times> setting_value) list" where
  "config_defaults =
     [(''SERVER_HOST'', Text ''0.0.0.0''),
      (''SERVER_PORT'', Number 8080),
      (''DB_HOST'', Text ''localhost''),
      (''DB_PORT'', Number 5432),
      (''DB_USER'', Text ''postgres''),
      (''DB_PASSWORD'', Text ''password''),
      (''DB_NAME'', Text ''order_processing''),
      (''DB_SSLMODE'', Text ''disable''),
      (''REDIS_HOST'', Text ''localhost''),
      (''REDIS_PORT'', Number 6379),
      (''REDIS_PASSWORD'', Text []),
      (''REDIS_DB'', Number 0),
      (''LOG_LEVEL'', Text ''info''),
      (''LOG_FORMAT'', Text ''json''),
      (''JWT_SECRET'', Text ''dev-insecure-secret-change-me''),
      (''JWT_TTL'', Text ''24h''),
      (''WORKER_COUNT'', Number 5),
      (''WORKER_QUEUE_SIZE'', Number 256),
      (''WORKER_MAX_RETRIES'', Number 3),
      (''WORKER_BASE_BACKOFF'', Text ''200ms''),
      (''WORKER_MAX_BACKOFF'', Text ''5s''),
      (''WORKER_ATTEMPT_TIMEOUT'', Text ''5s''),
      (''WORKER_SWEEP_INTERVAL'', Text ''30s''),
      (''WORKER_STALE_AFTER'', Text ''1m''),
      (''WORKER_SWEEP_BATCH_SIZE'', Number 100),
      (''WORKER_GATEWAY_FAILURE_RATE'', Real (fl (1 / 5))),
      (''SHUTDOWN_TIMEOUT'', Text ''10s'')]"

definition viper_value :: "viper \<Rightarrow> string \<Rightarrow> setting_value option" where
  "viper_value v key = (case setting v key of Some s \<Rightarrow> Some (Text s) | None \<Rightarrow> map_of config_defaults key)"

definition GetString :: "viper \<Rightarrow> string \<Rightarrow> string" where
  "GetString v key =
     (case viper_value v key of Some (Text s) \<Rightarrow> s | Some (Number i) \<Rightarrow> Itoa i | _ \<Rightarrow> [])"

definition GetInt :: "viper \<Rightarrow> string \<Rightarrow> int" where
  "GetInt v key =
     (case viper_value v key of Some (Text s) \<Rightarrow> ToInt v s | Some (Number i) \<Rightarrow> i | _ \<Rightarrow> 0)"

definition GetFloat64 :: "viper \<Rightarrow> string \<Rightarrow> float64" where
  "GetFloat64 v key =
     (case viper_value v key of Some (Text s) \<Rightarrow> ToFloat64 v s | Some (Number i) \<Rightarrow> f_of_int i | Some (Real x) \<Rightarrow> x | None \<Rightarrow> 0)"

definition GetDuration :: "viper \<Rightarrow> string \<Rightarrow> duration" where
  "GetDuration v key =
     (case viper_value v key of Some (Text s) \<Rightarrow> ToDuration v s | Some (Number i) \<Rightarrow> i | _ \<Rightarrow> 0)"

section \<open>Load\<close>

definition load_worker :: "viper \<Rightarrow> WorkerConfig" where
  "load_worker v =
     \<lparr>Count = GetInt v ''WORKER_COUNT'',
      QueueSize = GetInt v ''WORKER_QUEUE_SIZE'',
      MaxRetries = GetInt v ''WORKER_MAX_RETRIES'',
      BaseBackoff = GetDuration v ''WORKER_BASE_BACKOFF'',
      MaxBackoff = GetDuration v ''WORKER_MAX_BACKOFF'',
      AttemptTimeout = GetDuration v ''WORKER_ATTEMPT_TIMEOUT'',
      SweepInterval = GetDuration v ''WORKER_SWEEP_INTERVAL'',
      StaleAfter = GetDuration v ''WORKER_STALE_AFTER'',
      SweepBatchSize = GetInt v ''WORKER_SWEEP_BATCH_SIZE'',
      GatewayFailureRate = GetFloat64 v ''WORKER_GATEWAY_FAILURE_RATE'',
      ShutdownTimeout = GetDuration v ''SHUTDOWN_TIMEOUT''\<rparr>"

definition config_Load :: "viper \<Rightarrow> go_error + Config" where
  "config_Load v =
     (let cfg =
        \<lparr>Cfg_Server = \<lparr>Server_Host = GetString v ''SERVER_HOST'', Server_Port = GetInt v ''SERVER_PORT''\<rparr>,
         Cfg_Database =
           \<lparr>DB_Host = GetString v ''DB_HOST'', DB_Port = GetInt v ''DB_PORT'', DB_User = GetString v ''DB_USER'',
            DB_Password = GetString v ''DB_PASSWORD'', DB_Name = GetString v ''DB_NAME'', DB_SSLMode = GetString v ''DB_SSLMODE''\<rparr>,
         Cfg_Redis =
           \<lparr>Redis_Host = GetString v ''REDIS_HOST'', Redis_Port = GetInt v ''REDIS_PORT'',
            Redis_Password = GetString v ''REDIS_PASSWORD'', Redis_DB = GetInt v ''REDIS_DB''\<rparr>,
         Cfg_Logger = \<lparr>Log_Level = GetString v ''LOG_LEVEL'', Log_Format = GetString v ''LOG_FORMAT''\<rparr>,
         Cfg_JWT = \<lparr>JWT_Secret = GetString v ''JWT_SECRET'', JWT_TTL = GetDuration v ''JWT_TTL''\<rparr>,
         Cfg_Worker = load_worker v\<rparr>
      in if Server_Port (Cfg_Server cfg) = 0 then Inl (DriverError ''SERVER_PORT must be set'') else Inr cfg)"

text \<open>\<open>dsn\<close> of \<open>pkg/database/database.go\<close>, and the address of the Redis client and of the server.\<close>

definition dsn :: "DatabaseConfig \<Rightarrow> string" where
  "dsn cfg =
     ''host='' @ DB_Host cfg @ '' port='' @ Itoa (DB_Port cfg) @ '' user='' @ DB_User cfg @ '' password='' @ DB_Password cfg @
     '' dbname='' @ DB_Name cfg @ '' sslmode='' @ DB_SSLMode cfg"

definition host_port :: "string \<Rightarrow> int \<Rightarrow> string" where
  "host_port host port = host @ '':'' @ Itoa port"

section \<open>The defaults\<close>

lemma default_value: "setting v key = None \<Longrightarrow> viper_value v key = map_of config_defaults key"
  by (simp add: viper_value_def)

lemma map_of_defaults:
  "map_of config_defaults ''SERVER_PORT'' = Some (Number 8080)"
  "map_of config_defaults ''JWT_TTL'' = Some (Text ''24h'')"
  "map_of config_defaults ''WORKER_COUNT'' = Some (Number 5)"
  "map_of config_defaults ''WORKER_QUEUE_SIZE'' = Some (Number 256)"
  "map_of config_defaults ''WORKER_MAX_RETRIES'' = Some (Number 3)"
  "map_of config_defaults ''WORKER_BASE_BACKOFF'' = Some (Text ''200ms'')"
  "map_of config_defaults ''WORKER_MAX_BACKOFF'' = Some (Text ''5s'')"
  "map_of config_defaults ''WORKER_ATTEMPT_TIMEOUT'' = Some (Text ''5s'')"
  "map_of config_defaults ''WORKER_SWEEP_INTERVAL'' = Some (Text ''30s'')"
  "map_of config_defaults ''WORKER_STALE_AFTER'' = Some (Text ''1m'')"
  "map_of config_defaults ''WORKER_SWEEP_BATCH_SIZE'' = Some (Number 100)"
  "map_of config_defaults ''SHUTDOWN_TIMEOUT'' = Some (Text ''10s'')"
  by code_simp+

end
