(* ===== verification/Router.thy ===== *)
theory Router
  imports Handlers Config
begin

text \<open>
  The routes of \<open>internal/api/routes\<close> with the metrics middleware, and the service of a request: the route
  Gin finds, its guards in order, its handler. Which route Gin finds for a method and a path is a parameter
  \<open>gin_match\<close>; the code relies on it to be one of the registered routes with that method. Gin runs the
  \<open>NoRoute\<close> handler when there is none.
\<close>

section \<open>Groups and routes\<close>

datatype guard = G_Metrics | G_Authenticate | G_RequireAdmin

datatype handler =
    H_Prometheus | H_Login | H_CreateUser | H_GetUser | H_UpdateUser | H_List | H_GetProduct | H_GetInventory
  | H_CreateProduct | H_UpdateProduct | H_CreateOrder | H_Connect

record group =
  group_prefix :: string
  group_guards :: "guard list"

record route =
  route_method :: string
  route_path :: string
  route_guards :: "guard list"
  route_handler :: handler

definition gin_Group :: "group \<Rightarrow> string \<Rightarrow> group" where
  "gin_Group rg p = rg\<lparr>group_prefix := group_prefix rg @ p\<rparr>"

definition gin_Use :: "group \<Rightarrow> guard list \<Rightarrow> group" where
  "gin_Use rg gs = rg\<lparr>group_guards := group_guards rg @ gs\<rparr>"

text \<open>A registration takes the guards the group has at that moment.\<close>

definition gin_Handle :: "group \<Rightarrow> string \<Rightarrow> string \<Rightarrow> handler \<Rightarrow> route" where
  "gin_Handle rg meth p h =
     \<lparr>route_method = meth, route_path = group_prefix rg @ p, route_guards = group_guards rg, route_handler = h\<rparr>"

definition registerAuthRoutes :: "group \<Rightarrow> route list" where
  "registerAuthRoutes rg =
     (let auth = gin_Group rg ''/auth'' in [gin_Handle auth ''POST'' ''/login'' H_Login])"

definition registerUserRoutes :: "group \<Rightarrow> route list" where
  "registerUserRoutes rg =
     (let users = gin_Group rg ''/users''
      in [gin_Handle users ''POST'' [] H_CreateUser, gin_Handle users ''GET'' ''/:id'' H_GetUser,
          gin_Handle users ''PUT'' ''/:id'' H_UpdateUser])"

definition registerProductRoutes :: "group \<Rightarrow> route list" where
  "registerProductRoutes rg =
     (let products = gin_Group rg ''/products'';
          admin = gin_Use (gin_Group rg ''/products'') [G_Authenticate, G_RequireAdmin]
      in [gin_Handle products ''GET'' [] H_List, gin_Handle products ''GET'' ''/:id'' H_GetProduct,
          gin_Handle products ''GET'' ''/:id/inventory'' H_GetInventory,
          gin_Handle admin ''POST'' [] H_CreateProduct, gin_Handle admin ''PUT'' ''/:id'' H_UpdateProduct])"

definition registerOrderRoutes :: "group \<Rightarrow> route list" where
  "registerOrderRoutes rg =
     (let orders = gin_Use (gin_Group rg ''/orders'') [G_Authenticate] in [gin_Handle orders ''POST'' [] H_CreateOrder])"

text \<open>\<open>/metrics\<close> is registered before \<open>Use\<close>, so its chain is empty.\<close>

definition NewRouter :: "route list" where
  "NewRouter =
     (let root = \<lparr>group_prefix = [], group_guards = []\<rparr>;
          metrics = gin_Handle root ''GET'' ''/metrics'' H_Prometheus;
          r = gin_Use root [G_Metrics];
          v1 = gin_Group r ''/api/v1''
      in metrics # registerAuthRoutes v1 @ registerUserRoutes v1 @ registerProductRoutes v1 @ registerOrderRoutes v1 @
         [gin_Handle v1 ''GET'' ''/orders/:id/subscribe'' H_Connect])"

section \<open>The service of a request\<close>

text \<open>What the libraries contribute.\<close>

record libs =
  lib_jwt :: jwt_lib
  gin_match :: "route list \<Rightarrow> string \<Rightarrow> string \<Rightarrow> (route \<times> (string \<Rightarrow> string)) option"
  bind_CreateUser :: "string \<Rightarrow> go_error + CreateUserRequest"
  bind_UpdateUser :: "string \<Rightarrow> go_error + UpdateUserRequest"
  bind_Login :: "string \<Rightarrow> go_error + LoginRequest"
  bind_ListProducts :: "string \<Rightarrow> go_error + ListProductsRequest"
  bind_CreateProduct :: "string \<Rightarrow> go_error + ProductRequest"
  bind_UpdateProduct :: "string \<Rightarrow> go_error + ProductRequest"
  bind_CreateOrder :: "string \<Rightarrow> go_error + CreateOrderRequest"

definition gin_ok :: "libs \<Rightarrow> bool" where
  "gin_ok l \<longleftrightarrow> (\<forall>rs meth path rt ps. gin_match l rs meth path = Some (rt, ps) \<longrightarrow> rt \<in> set rs \<and> route_method rt = meth)"

text \<open>What is drawn during a request: the clock, the generated identifier, the outcome of an upgrade, choices of \<open>select\<close>.\<close>

record draws =
  draw_now :: time
  draw_t1 :: time
  draw_t2 :: time
  draw_uuid :: string
  draw_upgrade :: "response option"
  draw_win :: bool
  draw_prometheus :: response

definition buildHandlers :: "Config \<Rightarrow> jwtManager" where
  "buildHandlers cfg = NewJWTManager (JWT_Secret (Cfg_JWT cfg)) (JWT_TTL (Cfg_JWT cfg))"

fun handle ::
  "libs \<Rightarrow> jwtManager \<Rightarrow> draws \<Rightarrow> (int \<Rightarrow> CreateOrderRequest \<Rightarrow> (('k, 'q) app, go_error, OrderResponse) prog) \<Rightarrow>
     handler \<Rightarrow> ctx \<Rightarrow> ('k, 'q, response) webm"
where
  "handle l m x CreateOrder H_Prometheus c = ret (draw_prometheus x)"
| "handle l m x CreateOrder H_Login c = h_Login (lib_jwt l) m (bind_Login l) (draw_t1 x) (draw_t2 x) c"
| "handle l m x CreateOrder H_CreateUser c = h_CreateUser (bind_CreateUser l) (draw_t1 x) c"
| "handle l m x CreateOrder H_GetUser c = h_GetUser c"
| "handle l m x CreateOrder H_UpdateUser c = h_UpdateUser (bind_UpdateUser l) (draw_t1 x) c"
| "handle l m x CreateOrder H_List c = h_List (bind_ListProducts l) c"
| "handle l m x CreateOrder H_GetProduct c = h_GetProduct c"
| "handle l m x CreateOrder H_GetInventory c = h_GetInventory c"
| "handle l m x CreateOrder H_CreateProduct c = h_CreateProduct (bind_CreateProduct l) (draw_t1 x) (draw_t2 x) c"
| "handle l m x CreateOrder H_UpdateProduct c = h_UpdateProduct (bind_UpdateProduct l) (draw_t1 x) (draw_t2 x) c"
| "handle l m x CreateOrder H_CreateOrder c = h_CreateOrder (bind_CreateOrder l) CreateOrder c"
| "handle l m x CreateOrder H_Connect c = h_Connect (lib_jwt l) m (draw_now x) (draw_upgrade x) (draw_win x) c"

text \<open>\<open>Metrics\<close>: after the rest of the chain, a count by method, route and status; a hijacked connection has written none.\<close>

definition mw_Metrics :: "string \<Rightarrow> string \<Rightarrow> ('k, 'q, response) webm \<Rightarrow> ('k, 'q, response) webm" where
  "mw_Metrics meth full_path next =
     bindE next (\<lambda>r w.
       (let path = (if full_path = [] then ''unmatched'' else full_path);
            status = Itoa (if resp_body r = Hijacked then 200 else resp_status r)
        in (Inr r, w\<lparr>web_metrics := web_metrics w @ [(meth, path, status)]\<rparr>)))"

primrec run_chain ::
  "libs \<Rightarrow> jwtManager \<Rightarrow> draws \<Rightarrow> string \<Rightarrow> string \<Rightarrow> guard list \<Rightarrow> (ctx \<Rightarrow> ('k, 'q, response) webm) \<Rightarrow> ctx \<Rightarrow> ('k, 'q, response) webm"
where
  "run_chain l m x meth path [] h c = h c"
| "run_chain l m x meth path (g # gs) h c =
     (case g of
        G_Metrics \<Rightarrow> mw_Metrics meth path (run_chain l m x meth path gs h c)
      | G_Authenticate \<Rightarrow>
          (case mw_Authenticate (lib_jwt l) m (draw_now x) c of Inl r \<Rightarrow> ret r | Inr c' \<Rightarrow> run_chain l m x meth path gs h c')
      | G_RequireAdmin \<Rightarrow>
          (case mw_RequireAdmin c of Inl r \<Rightarrow> ret r | Inr c' \<Rightarrow> run_chain l m x meth path gs h c'))"

definition registerFallbacks :: response where
  "registerFallbacks = gin_error 404 ''route not found''"

definition serve ::
  "libs \<Rightarrow> jwtManager \<Rightarrow> draws \<Rightarrow> (int \<Rightarrow> CreateOrderRequest \<Rightarrow> (('k, 'q) app, go_error, OrderResponse) prog) \<Rightarrow>
     string \<Rightarrow> string \<Rightarrow> ctx \<Rightarrow> ('k, 'q, response) webm"
where
  "serve l m x CreateOrder meth path c =
     (case gin_match l NewRouter meth path of
        None \<Rightarrow> mw_Metrics meth [] (ret registerFallbacks)
      | Some (rt, params) \<Rightarrow>
          run_chain l m x meth (route_path rt) (route_guards rt) (handle l m x CreateOrder (route_handler rt))
            (c\<lparr>ctx_param := params, ctx_userID := None, ctx_role := None\<rparr>))"

section \<open>Lemmas\<close>

lemma NewRouter_routes:
  "rt \<in> set NewRouter \<Longrightarrow>
     route_guards rt =
       (case route_handler rt of
          H_Prometheus \<Rightarrow> []
        | H_CreateProduct \<Rightarrow> [G_Metrics, G_Authenticate, G_RequireAdmin]
        | H_UpdateProduct \<Rightarrow> [G_Metrics, G_Authenticate, G_RequireAdmin]
        | H_CreateOrder \<Rightarrow> [G_Metrics, G_Authenticate]
        | _ \<Rightarrow> [G_Metrics])"
  by (auto simp: NewRouter_def registerAuthRoutes_def registerUserRoutes_def registerProductRoutes_def registerOrderRoutes_def
      gin_Handle_def gin_Group_def gin_Use_def Let_def)

lemma Metrics_state:
  assumes "mw_Metrics meth path next w = (r, w')"
  obtains w1 where "next w = (r, w1)" "web_app w' = web_app w1" "web_hub w' = web_hub w1"
  using assms by (auto simp: mw_Metrics_def bindE_def Let_def split: prod.splits sum.splits)

end
