(* ===== verification/Access.thy ===== *)
theory Access
  imports Router
begin

text \<open>
  Who may do what through the API: the effect of every route on the catalogue, the orders and the
  subscriptions, read against the token of the request.
\<close>

section \<open>Effects of the services\<close>

definition order_added :: "int \<Rightarrow> tables \<Rightarrow> tables \<Rightarrow> bool" where
  "order_added u t t' \<longleftrightarrow> products t' = products t \<and> users t' = users t \<and>
     (orders t' = orders t \<or> (\<exists>row. orders t' = orders t @ [row] \<and> Order_UserID row = u))"

lemma order_added_refl [simp]: "order_added u t t"
  by (simp add: order_added_def)

lemma repo_CreateOrder_added:
  assumes wf: "wf_db d" and "repo_CreateOrder t1 t2 ord pay d = (r, d')"
  shows "order_added (Order_UserID ord) (tbl d) (tbl d')"
  using assms(2) unfolding repo_CreateOrder_def
proof (rule transaction_tables [where R = "order_added (Order_UserID ord)"])
  fix d1 x d2
  assume s: "same d d1" and b: "create_order_body t1 t2 ord pay d1 = (Inr x, d2)"
  obtain ord' pay' where x: "x = (ord', pay')" by (cases x)
  have "wf_db d1" using wf s by simp
  from this b [unfolded x] show "order_added (Order_UserID ord) (tbl d) (tbl d2)"
  proof (rule create_order_body_Inr)
    fix row rows prow n
    assume t: "tbl d2 = (tbl d1)\<lparr>inventory := inventory (tbl d2), orders := orders (tbl d1) @ [row],
       order_items := order_items (tbl d1) @ rows, payments := payments (tbl d1) @ [prow]\<rparr>"
      and u: "Order_UserID row = Order_UserID ord"
    have "products (tbl d2) = products (tbl d1)" "users (tbl d2) = users (tbl d1)" "orders (tbl d2) = orders (tbl d1) @ [row]"
      by (subst t, simp)+
    then show ?thesis using s u by (auto simp: order_added_def)
  qed
qed simp

lemma svc_CreateOrder_added:
  assumes wf: "wf_db (app_db w)" and "svc_CreateOrder Reserve Release Process t1 t2 uuid u req w = (r, w')"
  shows "order_added u (tbl (app_db w)) (tbl (app_db w'))"
  using assms(2)
proof (cases rule: svc_CreateOrder_cases)
  case (placed q k)
  from placed(4) show ?thesis
  proof (cases rule: place_order_cases)
    case (not_created items t e d d')
    then show ?thesis using wf repo_CreateOrder_added [OF _ not_created(3)] by (simp add: build_order_def)
  next
    case (created ps items t d ord pay d' a)
    then show ?thesis using wf repo_CreateOrder_added [OF _ created(4)] by (simp add: build_order_def)
  qed simp
qed simp_all

text \<open>The reading services.\<close>

definition reads :: "'a dbm \<Rightarrow> bool" where
  "reads m \<longleftrightarrow> (\<forall>d r d'. m d = (r, d') \<longrightarrow> same d d')"

lemma reads_query [intro]: "reads (query args f)"
  by (auto simp: reads_def dest: query_same)

lemma reads_ret [intro]: "reads (ret x)" and reads_of_result [intro]: "reads (of_result q)" and reads_raise [intro]: "reads (raise e)"
  by (auto simp: reads_def ret_def of_result_def raise_def)

lemma reads_bind [intro]: "reads m \<Longrightarrow> (\<And>x. reads (f x)) \<Longrightarrow> reads (bindE m f)"
  unfolding reads_def bindE_def by (fastforce split: prod.splits sum.splits intro: same_trans)

lemma reads_map_err [intro]: "reads m \<Longrightarrow> reads (map_err h m)"
  unfolding reads_def map_err_def by (auto split: prod.splits sum.splits)

lemma reads_preload: "reads (preload_inventory ps)"
  unfolding preload_inventory_def by (auto split: if_splits intro!: reads_bind)

lemma reads_users: "reads (svc_GetUser i)" "reads (GetUserByEmail e)" "reads (repo_GetUser i)"
  by (auto simp: svc_GetUser_def repo_GetUser_def GetUserByEmail_def)

lemma reads_login: "reads (svc_Login lib m t1 t2 req)"
  unfolding svc_Login_def using reads_users(2) by (auto intro!: reads_bind split: sum.splits)

lemma reads_products: "reads (svc_ListProducts req)" "reads (svc_GetProduct i)" "reads (svc_GetInventory i)"
  unfolding svc_ListProducts_def repo_ListProducts_def svc_GetProduct_def repo_GetProduct_def svc_GetInventory_def repo_GetInventory_def Let_def
  using reads_preload by (auto intro!: reads_bind split: sum.splits list.splits)

lemma reads_owner: "reads (GetOrderUserID i)"
  unfolding GetOrderUserID_def by (intro reads_map_err reads_bind reads_query reads_of_result reads_ret)

lemma save_inventory_orders:
  assumes "save_inventory now v d = (Inr v1, d')"
  shows "orders (tbl d') = orders (tbl d)"
proof (cases "Inventory_ID v = 0")
  case True
  with assms have "insert_inventory now v d = (Inr v1, d')" by (simp add: save_inventory_def)
  then show ?thesis by (rule insert_inventory_Inr) simp
next
  case False
  from assms False show ?thesis by (rule save_inventory_update) simp
qed

lemma UpdateProduct_orders:
  assumes "svc_UpdateProduct t1 t2 i req d = (r, d')"
  shows "orders (tbl d') = orders (tbl d)"
proof -
  obtain q d1 where g: "repo_GetProduct i d = (q, d1)" by force
  have "reads (repo_GetProduct i)"
    unfolding repo_GetProduct_def using reads_preload by (auto intro!: reads_bind)
  with g have s: "same d d1" by (auto simp: reads_def)
  show ?thesis
  proof (cases q)
    case (Inl e)
    then show ?thesis using assms g s by (simp add: svc_UpdateProduct_def bindE_def)
  next
    case (Inr p)
    obtain q2 d2 where u: "repo_UpdateProduct t1 t2 (changed_product i req p) d1 = (q2, d2)" by force
    then have "orders (tbl d2) = orders (tbl d1)" unfolding repo_UpdateProduct_def
    proof (rule transaction_tables [where R = "\<lambda>t t'. orders t' = orders t"])
      fix a x b
      assume a: "same d1 a" and b: "update_product_body t1 t2 (changed_product i req p) a = (Inr x, b)"
      then obtain p1 c where sp: "save_product t1 (changed_product i req p) a = (Inr p1, c)"
        and k: "(case Product_Inventory p1 of None \<Rightarrow> ret p1
          | Some v \<Rightarrow> bindE (save_inventory t2 v) (\<lambda>v1. ret (p1\<lparr>Product_Inventory := Some v1\<rparr>))) c = (Inr x, b)"
        unfolding update_product_body_def bindE_Inr by blast
      from sp have "orders (tbl c) = orders (tbl a)" by (rule save_product_Inr) simp
      then show "orders (tbl b) = orders (tbl d1)"
        using k a by (cases "Product_Inventory p1") (auto simp: bindE_Inr ret_def dest: save_inventory_orders)
    qed simp
    then show ?thesis using assms g s u Inr by (cases q2) (auto simp: svc_UpdateProduct_def bindE_def ret_def)
  qed
qed

lemma CreateProduct_orders:
  assumes "wf_db d" and "svc_CreateProduct t1 t2 req d = (r, d')"
  shows "orders (tbl d') = orders (tbl d)"
proof -
  obtain q d1 where u: "repo_CreateProduct t1 t2 (new_product req) d = (q, d1)" by force
  then have "orders (tbl d1) = orders (tbl d)" unfolding repo_CreateProduct_def
  proof (rule transaction_tables [where R = "\<lambda>t t'. orders t' = orders t"])
    fix a x b
    assume a: "same d a" and b: "create_product_body t1 t2 (new_product req) a = (Inr x, b)"
    have "wf_db a" using assms(1) a by simp
    from create_product_body_keeps(2) [OF this b] show "orders (tbl b) = orders (tbl d)" using a by simp
  qed simp
  then show ?thesis using assms u by (cases q) (auto simp: svc_CreateProduct_def bindE_def ret_def)
qed

lemma CreateUser_service_frame:
  assumes "wf_db d" and "svc_CreateUser now req d = (r, d')"
  shows "users_only (tbl d) (tbl d')"
proof -
  obtain q d1 where u: "repo_CreateUser now (new_user req) d = (q, d1)" by force
  show ?thesis using CreateUser_keeps(2) [OF assms(1) u] assms(2) u by (cases q) (auto simp: svc_CreateUser_def bindE_def ret_def)
qed

lemma UpdateUser_service_frame:
  assumes "wf_db d" and "svc_UpdateUser now i req d = (r, d')"
  shows "users_only (tbl d) (tbl d')"
proof -
  obtain q d1 where g: "repo_GetUser i d = (q, d1)" by force
  then have s: "same d d1" using reads_users(3) by (auto simp: reads_def)
  show ?thesis
  proof (cases q)
    case (Inl e)
    then show ?thesis using assms(2) g s by (simp add: svc_UpdateUser_def bindE_def)
  next
    case (Inr u)
    obtain q2 d2 where u: "repo_UpdateUser now (changed_user req u) d1 = (q2, d2)" by force
    have "wf_db d1" using assms(1) s by simp
    then have "users_only (tbl d) (tbl d2)" using UpdateUser_keeps(2) [OF _ u] s by simp
    then show ?thesis using assms(2) g u Inr by (cases q2) (auto simp: svc_UpdateUser_def bindE_def ret_def)
  qed
qed

section \<open>Effects of the handlers\<close>

abbreviation (input) db_of :: "('k, 'q) web \<Rightarrow> pg" where
  "db_of w \<equiv> app_db (web_app w)"

text \<open>A handler that only calls a service on the database: the hub stays, and the database moves as the service moves it.\<close>

lemma handler_db:
  assumes "with_request b (\<lambda>req. reply (on_app (on_db (m req))) failed ok) w = (r, w')"
    and "\<And>req q d. m req (db_of w) = (q, d) \<Longrightarrow> R (db_of w) d" and "R (db_of w) (db_of w)"
  shows "web_hub w' = web_hub w \<and> R (db_of w) (db_of w')"
  using assms by (cases b) (auto simp: with_request_def ret_def elim!: reply_db)

lemma handler_id:
  assumes "with_id c f w = (r, w')"
    and "\<And>i. f i w = (r, w') \<Longrightarrow> P w'" and "P w"
  shows "P w'"
  using assms by (cases "Atoi (ctx_param c ''id'')") (auto simp: with_id_def ret_def)

lemma handler_read:
  assumes "reply (on_app (on_db m)) failed ok w = (r, w')" and "reads m"
  shows "web_hub w' = web_hub w \<and> same (db_of w) (db_of w')"
  using assms by (auto simp: reads_def elim!: reply_db)

definition quiet :: "('k, 'q) web \<Rightarrow> ('k, 'q) web \<Rightarrow> bool" where
  "quiet w w' \<longleftrightarrow> web_hub w' = web_hub w \<and> products (tbl (db_of w')) = products (tbl (db_of w)) \<and>
     orders (tbl (db_of w')) = orders (tbl (db_of w))"

lemma quiet_refl [simp]: "quiet w w"
  by (simp add: quiet_def)

lemma quiet_read: "reply (on_app (on_db m)) failed ok w = (r, w') \<Longrightarrow> reads m \<Longrightarrow> quiet w w'"
proof -
  assume "reply (on_app (on_db m)) failed ok w = (r, w')" "reads m"
  then have s: "web_hub w' = web_hub w" "same (db_of w) (db_of w')" using handler_read by blast+
  show ?thesis unfolding quiet_def same_frame(1) [OF s(2)] using s(1) by simp
qed

lemma quiet_users:
  assumes "reply (on_app (on_db m)) failed ok w = (r, w')" and "\<And>q d. m (db_of w) = (q, d) \<Longrightarrow> users_only (tbl (db_of w)) (tbl d)"
  shows "quiet w w'"
  using assms by (auto simp: quiet_def users_only_frame elim!: reply_db)

lemma request_cases:
  assumes "with_request b f w = (r, w')"
  obtains "w' = w" | req where "b = Inr req" "f req w = (r, w')"
  using assms by (cases b) (auto simp: with_request_def ret_def)

lemma id_cases:
  assumes "with_id c f w = (r, w')"
  obtains "w' = w" | i where "Atoi (ctx_param c ''id'') = Some i" "f i w = (r, w')"
  using assms by (cases "Atoi (ctx_param c ''id'')") (auto simp: with_id_def ret_def)

lemma quiet_handlers:
  assumes "wf_db (db_of w)" and "handle l m x CreateOrder h c w = (r, w')"
    and "h \<notin> {H_CreateProduct, H_UpdateProduct, H_CreateOrder, H_Connect}"
  shows "quiet w w'"
proof (cases h)
  case H_CreateUser
  with assms show ?thesis using CreateUser_service_frame [OF assms(1)]
    by (auto simp: h_CreateUser_def elim!: request_cases intro: quiet_users)
next
  case H_UpdateUser
  with assms show ?thesis using UpdateUser_service_frame [OF assms(1)]
    by (auto simp: h_UpdateUser_def elim!: request_cases id_cases intro: quiet_users)
next
  case H_Login
  with assms show ?thesis by (auto simp: h_Login_def elim!: request_cases intro: quiet_read reads_login)
next
  case H_GetUser
  with assms show ?thesis by (auto simp: h_GetUser_def elim!: id_cases intro: quiet_read reads_users)
next
  case H_List
  with assms show ?thesis by (auto simp: h_List_def elim!: request_cases intro: quiet_read reads_products)
next
  case H_GetProduct
  with assms show ?thesis by (auto simp: h_GetProduct_def elim!: id_cases intro: quiet_read reads_products)
next
  case H_GetInventory
  with assms show ?thesis by (auto simp: h_GetInventory_def elim!: id_cases intro: quiet_read reads_products)
qed (use assms in \<open>auto simp: ret_def\<close>)

lemma product_handlers:
  assumes "wf_db (db_of w)" and "handle l m x CreateOrder h c w = (r, w')" and "h = H_CreateProduct \<or> h = H_UpdateProduct"
  shows "web_hub w' = web_hub w \<and> orders (tbl (db_of w')) = orders (tbl (db_of w))"
  using assms(3)
proof
  assume "h = H_CreateProduct"
  with assms(2) show ?thesis using CreateProduct_orders [OF assms(1)]
    by (auto simp: h_CreateProduct_def elim!: request_cases reply_db)
next
  assume "h = H_UpdateProduct"
  with assms(2) show ?thesis using UpdateProduct_orders
    by (auto simp: h_UpdateProduct_def elim!: request_cases id_cases reply_db)
qed

lemma order_handler:
  assumes "wf_db (db_of w)" and "ctx_userID c = Some u"
    and "handle l m x (svc_CreateOrder Reserve Release Process t1 t2 uuid) H_CreateOrder c w = (r, w')"
  shows "web_hub w' = web_hub w \<and> order_added u (tbl (db_of w)) (tbl (db_of w'))"
  using assms(2,3) svc_CreateOrder_added [OF assms(1)]
  by (auto simp: h_CreateOrder_def elim!: request_cases dest!: reply_state on_app_state)

text \<open>A subscription adds one client, of the order in the path, and the replay keeps whose clients there are.\<close>

definition watched :: "Hub \<Rightarrow> int list" where
  "watched h = map Client_orderID (Hub_heap h)"

lemma watched_upd: "(\<And>x. Client_orderID (f x) = Client_orderID x) \<Longrightarrow> watched (upd_client c f h) = watched h"
proof -
  assume f: "\<And>x. Client_orderID (f x) = Client_orderID x"
  have "map Client_orderID ((Hub_heap h)[c := f (Hub_heap h ! c)]) = map Client_orderID (Hub_heap h)"
    using f by (cases "c < length (Hub_heap h)") (simp_all add: map_update list_update_same_conv list_update_beyond)
  then show ?thesis by (simp add: watched_def upd_client_def client_def)
qed

lemma watched_Send: "Client_Send p c h = (r, h') \<Longrightarrow> watched h' = watched h"
  by (auto simp: Client_Send_def on_send_def bindE_def ret_def watched_upd split: prod.splits sum.splits)

lemma watched_register: "watched (hub_register c h) = watched h"
  by (simp add: hub_register_def watched_def Let_def)

lemma watched_connect: "connect_client win i h = (r, h') \<Longrightarrow> watched h' = watched h @ [i]"
  by (auto simp: connect_client_def bindE_def NewClient_def hub_Register_def watched_upd watched_register)
    (auto simp: watched_def)

lemma watched_replay:
  "forE ns (\<lambda>n. on_hub (Client_Send (p n) c)) w = (r, w') \<Longrightarrow> watched (web_hub w') = watched (web_hub w)"
proof (induction ns arbitrary: w)
  case (Cons n ns)
  obtain q w1 where q: "on_hub (Client_Send (p n) c) w = (q, w1)" by force
  then have "watched (web_hub w1) = watched (web_hub w)" by (auto dest!: on_hub_state watched_Send)
  then show ?case using Cons q by (cases q) (auto simp: bindE_def)
qed (simp add: ret_def)

lemma watched_subscribe:
  assumes "subscribe win i w = (r, w')"
  shows "watched (web_hub w') = watched (web_hub w) @ [i]"
proof -
  obtain q w1 where q: "on_hub (connect_client win i) w = (q, w1)" by force
  then have w1: "watched (web_hub w1) = watched (web_hub w) @ [i]" by (auto dest!: on_hub_state watched_connect)
  show ?thesis
  proof (cases q)
    case (Inl e)
    then show ?thesis using assms q w1 by (simp add: subscribe_def bindE_def)
  next
    case (Inr c)
    obtain z w2 where z: "on_app (on_db (ListByOrder i)) w1 = (z, w2)" by force
    then have "web_hub w2 = web_hub w1" by (auto dest: on_app_state)
    then show ?thesis using assms q z w1 Inr by (cases z) (auto simp: subscribe_def bindE_def dest: watched_replay)
  qed
qed

lemma owner_row:
  assumes "GetOrderUserID i d = (Inr u, d')"
  shows "\<exists>row \<in> set (orders (tbl d)). Order_ID row = i \<and> Order_UserID row = u"
proof -
  from assms obtain q d1 row where "query [i] (\<lambda>t. first_by Order_ID (\<lambda>r. Order_ID r = i) (orders t)) d = (Inr q, d1)"
    "q = Inr row" "u = Order_UserID row"
    by (auto simp: GetOrderUserID_def bindE_Inr of_result_def ret_def)
  then have "first_by Order_ID (\<lambda>r. Order_ID r = i) (orders (tbl d)) = Inr row" by (auto dest: query_Inr)
  then show ?thesis using \<open>u = Order_UserID row\<close> by (auto dest: first_by_Inr)
qed

lemma connect_handler:
  assumes "h_Connect lib m now upgrade win c w = (r, w')"
  shows "tbl (db_of w') = tbl (db_of w) \<and>
    (watched (web_hub w') = watched (web_hub w) \<or>
     (\<exists>claims. \<exists>row \<in> set (orders (tbl (db_of w))).
        token_Parse lib m now (tokenFromSubprotocols (ctx_protocols c)) = Inr claims \<and>
        Order_UserID row = Claims_UserID claims \<and> watched (web_hub w') = watched (web_hub w) @ [Order_ID row]))"
proof (cases "w' = w")
  case False
  then obtain claims oid where p: "token_Parse lib m now (tokenFromSubprotocols (ctx_protocols c)) = Inr claims"
    and k: "(case on_app (on_db (GetOrderUserID oid)) w of
              (Inl e, w') \<Rightarrow> (Inr (owner_failed e), w')
            | (Inr owner, w') \<Rightarrow>
                if owner \<noteq> Claims_UserID claims then (Inr (gin_error 403 ''not your order''), w')
                else (case upgrade of
                    Some failure \<Rightarrow> (Inr failure, w')
                  | None \<Rightarrow> bindE (subscribe win oid) (\<lambda>_. ret (gin_JSON 101 Hijacked)) w')) = (r, w')"
    using assms by (auto simp: h_Connect_def Let_def ret_def split: if_splits sum.splits option.splits)
  obtain q w1 where q: "on_app (on_db (GetOrderUserID oid)) w = (q, w1)" by force
  then obtain d where d: "GetOrderUserID oid (db_of w) = (q, d)" "w1 = w\<lparr>web_app := (web_app w)\<lparr>app_db := d\<rparr>\<rparr>"
    by (auto dest!: on_app_state simp: on_db_def split: prod.splits)
  have t1: "tbl (db_of w1) = tbl (db_of w)" using d reads_owner [of oid] by (auto simp: reads_def)
  show ?thesis
  proof (cases "\<exists>owner. q = Inr owner \<and> owner = Claims_UserID claims \<and> upgrade = None")
    case False
    then have "w' = w1" using k q by (auto split: sum.splits if_splits option.splits)
    then show ?thesis using t1 d(2) by simp
  next
    case True
    then obtain z w2 where z: "subscribe win oid w1 = (z, w2)" "w' = w2"
      using k q by (cases "subscribe win oid w1") (auto simp: bindE_def ret_def split: sum.splits)
    have "tbl (db_of w2) = tbl (db_of w1)" using same_frame(1) [OF subscribe_db [OF z(1)]] .
    moreover have "watched (web_hub w2) = watched (web_hub w) @ [oid]" using watched_subscribe [OF z(1)] d(2) by simp
    moreover obtain row where "row \<in> set (orders (tbl (db_of w)))" "Order_ID row = oid" "Order_UserID row = Claims_UserID claims"
      using owner_row d(1) True by blast
    ultimately show ?thesis using p t1 z(2) by auto
  qed
qed simp

lemma bearer_ctx [simp]: "bearer lib m now (c\<lparr>ctx_param := p, ctx_userID := u, ctx_role := q\<rparr>) = bearer lib m now c"
  by (simp add: bearer_def)

text \<open>What the guards of a route let through.\<close>

lemma chain_metrics:
  assumes "run_chain l m x meth path (G_Metrics # gs) h c w = (r, w')"
  obtains w1 where "run_chain l m x meth path gs h c w = (r, w1)" "web_app w' = web_app w1" "web_hub w' = web_hub w1"
  using assms by (auto elim: Metrics_state)

lemma chain_auth:
  assumes "run_chain l m x meth path (G_Authenticate # gs) h c w = (r, w')"
  obtains (refused) "w' = w"
  | (passed) claims where "bearer (lib_jwt l) m (draw_now x) c = Some claims"
      "run_chain l m x meth path gs h (c\<lparr>ctx_userID := Some (Claims_UserID claims), ctx_role := Some (Claims_Role claims)\<rparr>) w = (r, w')"
proof (cases "mw_Authenticate (lib_jwt l) m (draw_now x) c")
  case (Inl e)
  then show ?thesis using assms refused by (simp add: ret_def)
next
  case (Inr c')
  then show ?thesis using assms passed by (auto elim!: Authenticate_Inr)
qed

lemma chain_admin:
  assumes "run_chain l m x meth path [G_RequireAdmin] h c w = (r, w')"
  obtains (refused) "w' = w" | (passed) "ctx_role c = Some UserRoleAdmin" "h c w = (r, w')"
  using assms by (cases "mw_RequireAdmin c") (auto simp: ret_def dest: RequireAdmin_Inr)

lemma handlers_cases:
  obtains "h = H_CreateProduct \<or> h = H_UpdateProduct" | "h = H_CreateOrder" | "h = H_Connect"
  | "h \<notin> {H_CreateProduct, H_UpdateProduct, H_CreateOrder, H_Connect}"
  by blast

section \<open>Properties\<close>

text \<open>
  C30. Access control of the API, for every request, route and token: the catalogue changes only for a
  caller whose bearer token parses and names the role admin; the orders change only by a new order of the
  user that the bearer token names; and a subscription to an order's notifications starts only for the
  user who owns that order, named by the token offered in the handshake.
\<close>

theorem access_control:
  assumes "gin_ok l" and "wf_db (app_db (web_app w))"
    and "serve l m x (svc_CreateOrder Reserve Release Process t1 t2 uuid) meth path c w = (r, w')"
  shows "(products (tbl (app_db (web_app w'))) \<noteq> products (tbl (app_db (web_app w))) \<longrightarrow>
      (\<exists>claims. bearer (lib_jwt l) m (draw_now x) c = Some claims \<and> Claims_Role claims = UserRoleAdmin)) \<and>
    (orders (tbl (app_db (web_app w'))) \<noteq> orders (tbl (app_db (web_app w))) \<longrightarrow>
      (\<exists>claims row. bearer (lib_jwt l) m (draw_now x) c = Some claims \<and>
        orders (tbl (app_db (web_app w'))) = orders (tbl (app_db (web_app w))) @ [row] \<and> Order_UserID row = Claims_UserID claims)) \<and>
    (watched (web_hub w') \<noteq> watched (web_hub w) \<longrightarrow>
      (\<exists>claims. \<exists>row \<in> set (orders (tbl (app_db (web_app w)))).
        token_Parse (lib_jwt l) m (draw_now x) (tokenFromSubprotocols (ctx_protocols c)) = Inr claims \<and>
        Order_UserID row = Claims_UserID claims \<and> watched (web_hub w') = watched (web_hub w) @ [Order_ID row]))"
  (is "?P w'")
proof (cases "gin_match l NewRouter meth path")
  case None
  with assms(3) have "mw_Metrics meth [] (ret registerFallbacks) w = (r, w')" by (simp add: serve_def)
  then show ?thesis by (rule Metrics_state) (simp add: ret_def)
next
  case (Some m1)
  obtain rt ps where m1: "m1 = (rt, ps)" by (cases m1)
  let ?O = "svc_CreateOrder Reserve Release Process t1 t2 uuid" and ?h = "route_handler rt"
  let ?c = "c\<lparr>ctx_param := ps, ctx_userID := None, ctx_role := None\<rparr>"
  let ?u = "\<lambda>claims. ?c\<lparr>ctx_userID := Some (Claims_UserID claims), ctx_role := Some (Claims_Role claims)\<rparr>"
  have "rt \<in> set NewRouter" using assms(1) Some m1 unfolding gin_ok_def by blast
  note guards = NewRouter_routes [OF this]
  have run: "run_chain l m x meth (route_path rt) (route_guards rt) (handle l m x ?O ?h) ?c w = (r, w')"
    using assms(3) Some m1 by (simp add: serve_def)
  show ?thesis
  proof (cases ?h rule: handlers_cases)
    case 1
    then have g: "route_guards rt = [G_Metrics, G_Authenticate, G_RequireAdmin]" using guards by auto
    from run [unfolded g] obtain w1 where w1: "web_app w' = web_app w1" "web_hub w' = web_hub w1"
      and k: "run_chain l m x meth (route_path rt) [G_Authenticate, G_RequireAdmin] (handle l m x ?O ?h) ?c w = (r, w1)"
      by (rule chain_metrics)
    from k show ?thesis
    proof (cases rule: chain_auth)
      case (passed claims)
      from passed(2) show ?thesis
      proof (cases rule: chain_admin)
        case p: passed
        from product_handlers [OF assms(2) p(2) 1] p(1) passed(1) show ?thesis using w1 by auto
      qed (use w1 in simp)
    qed (use w1 in simp)
  next
    case 2
    then have g: "route_guards rt = [G_Metrics, G_Authenticate]" using guards by simp
    from run [unfolded g] obtain w1 where w1: "web_app w' = web_app w1" "web_hub w' = web_hub w1"
      and k: "run_chain l m x meth (route_path rt) [G_Authenticate] (handle l m x ?O ?h) ?c w = (r, w1)"
      by (rule chain_metrics)
    from k show ?thesis
    proof (cases rule: chain_auth)
      case (passed claims)
      then have "handle l m x ?O H_CreateOrder (?u claims) w = (r, w1)" using 2 by simp
      from order_handler [OF assms(2) _ this] show ?thesis using passed(1) w1 by (auto simp: order_added_def)
    qed (use w1 in simp)
  next
    case 3
    then have g: "route_guards rt = [G_Metrics]" using guards by simp
    from run [unfolded g] obtain w1 where w1: "web_app w' = web_app w1" "web_hub w' = web_hub w1"
      and k: "run_chain l m x meth (route_path rt) [] (handle l m x ?O ?h) ?c w = (r, w1)" by (rule chain_metrics)
    from k 3 have "h_Connect (lib_jwt l) m (draw_now x) (draw_upgrade x) (draw_win x) ?c w = (r, w1)" by simp
    from connect_handler [OF this] show ?thesis using w1 by simp blast
  next
    case 4
    have "route_guards rt = [] \<or> route_guards rt = [G_Metrics]" using 4 guards by (cases ?h) auto
    then have "\<exists>w1. web_app w' = web_app w1 \<and> web_hub w' = web_hub w1 \<and> handle l m x ?O ?h ?c w = (r, w1)"
    proof
      assume g: "route_guards rt = [G_Metrics]"
      from run [unfolded g] show ?thesis by (rule chain_metrics) auto
    qed (use run in auto)
    then show ?thesis using quiet_handlers [OF assms(2) _ 4] by (auto simp: quiet_def)
  qed
qed

text \<open>A router for the examples: paths are compared segment by segment, and a segment with a colon binds a parameter.\<close>

fun segments :: "string \<Rightarrow> string list" where
  "segments [] = [[]]"
| "segments (c # s) =
     (if c = CHR ''/'' then [] # segments s else (case segments s of x # xs \<Rightarrow> (c # x) # xs | [] \<Rightarrow> [[c]]))"

fun bind_segments :: "string list \<Rightarrow> string list \<Rightarrow> (string \<times> string) list option" where
  "bind_segments [] [] = Some []"
| "bind_segments ((CHR '':'' # k) # ts) (s # ss) = map_option (Cons (k, s)) (bind_segments ts ss)"
| "bind_segments (t # ts) (s # ss) = (if t = s then bind_segments ts ss else None)"
| "bind_segments _ _ = None"

definition route_binding :: "string \<Rightarrow> string \<Rightarrow> route \<Rightarrow> (string \<times> string) list option" where
  "route_binding meth path rt =
     (if route_method rt = meth then bind_segments (segments (route_path rt)) (segments path) else None)"

definition sample_match :: "route list \<Rightarrow> string \<Rightarrow> string \<Rightarrow> (route \<times> (string \<Rightarrow> string)) option" where
  "sample_match rs meth path =
     (case find (\<lambda>rt. route_binding meth path rt \<noteq> None) rs of
        None \<Rightarrow> None
      | Some rt \<Rightarrow> Some (rt, \<lambda>k. case map_of (the (route_binding meth path rt)) k of Some v \<Rightarrow> v | None \<Rightarrow> []))"

definition bo_claims :: Claims where
  "bo_claims = \<lparr>Claims_UserID = 2, Claims_Role = UserRoleAdmin, Claims_Subject = ''2'', Claims_IssuedAt = None, Claims_ExpiresAt = None\<rparr>"

definition sample_libs :: libs where
  "sample_libs =
     \<lparr>lib_jwt = \<lparr>NewNumericDate = id, SignedString = (\<lambda>_ _ _. Inr ''bo-token''), HeaderMethod = (\<lambda>_. None), VerifiedBy = (\<lambda>_ _ _. False),
        ParseWithClaims = (\<lambda>f now tok. if tok = ''bo-token'' then Inr bo_claims else Inl (DriverError ''token is malformed''))\<rparr>,
      gin_match = sample_match, bind_CreateUser = (\<lambda>_. Inr sample_signup), bind_UpdateUser = (\<lambda>_. Inr sample_promotion),
      bind_Login = (\<lambda>_. Inr sample_login), bind_ListProducts = (\<lambda>_. Inr \<lparr>Req_Page = 1, Req_PageSize = 20\<rparr>),
      bind_CreateProduct = (\<lambda>_. Inr \<lparr>ProductReq_Name = ''jar'', ProductReq_Image = None, ProductReq_Description = None,
        ProductReq_Price = 4, ProductReq_Quantity = 10\<rparr>),
      bind_UpdateProduct = (\<lambda>_. Inl (DriverError ''EOF'')), bind_CreateOrder = (\<lambda>_. Inr sample_cart)\<rparr>"

lemma gin_ok_sample: "gin_ok sample_libs"
  unfolding gin_ok_def by (auto simp: sample_libs_def sample_match_def route_binding_def find_Some_iff split: option.splits if_splits)

definition sample_draws :: draws where
  "sample_draws = \<lparr>draw_now = 70, draw_t1 = 71, draw_t2 = 72, draw_uuid = ''u-7'', draw_upgrade = None, draw_win = True,
     draw_prometheus = gin_JSON 200 Hijacked\<rparr>"

definition sample_web :: "(redis, int list) web" where
  "sample_web = \<lparr>web_app = sample_app, web_hub = NewHub, web_metrics = []\<rparr>"

definition sample_request :: "string \<Rightarrow> ctx" where
  "sample_request auth = \<lparr>ctx_header = (\<lambda>k. if k = ''Authorization'' then auth else []), ctx_param = (\<lambda>_. []), ctx_body = ''{}'',
     ctx_query = [], ctx_protocols = [], ctx_userID = None, ctx_role = None\<rparr>"

theorem access_control_witness:
  "\<exists>r w'. serve sample_libs sample_manager sample_draws (svc_CreateOrder store_Reserve store_Release list_Process 71 72 ''u-7'')
       ''POST'' ''/api/v1/products'' (sample_request ''Bearer bo-token'') sample_web = (r, w') \<and>
     length (products (tbl (app_db (web_app w')))) = 3 \<and>
     (\<exists>claims. bearer (lib_jwt sample_libs) sample_manager 70 (sample_request ''Bearer bo-token'') = Some claims \<and>
        Claims_Role claims = UserRoleAdmin)"
proof -
  let ?s = "serve sample_libs sample_manager sample_draws (svc_CreateOrder store_Reserve store_Release list_Process 71 72 ''u-7'')
       ''POST'' ''/api/v1/products'' (sample_request ''Bearer bo-token'') sample_web"
  have l: "length (products (tbl (app_db (web_app (snd ?s))))) = 3" "length (products (tbl (app_db (web_app sample_web)))) = 2"
    "draw_now sample_draws = 70" by code_simp+
  then have "products (tbl (app_db (web_app (snd ?s)))) \<noteq> products (tbl (app_db (web_app sample_web)))" by auto
  moreover have "wf_db (app_db (web_app sample_web))" by (simp add: sample_web_def sample_app_def)
  ultimately show ?thesis
    using access_control [OF gin_ok_sample, of sample_web sample_manager sample_draws store_Reserve store_Release list_Process 71 72 "''u-7''"
        "''POST''" "''/api/v1/products''" "sample_request ''Bearer bo-token''" "fst ?s" "snd ?s"] l
    by (intro exI [of _ "fst ?s"] exI [of _ "snd ?s"]) simp
qed

text \<open>A request that gives only a role changes only the role.\<close>

lemma promotion_run:
  assumes "replies d = []" and "wf_db d" and "u \<in> set (users (tbl d))" and "int4 (User_ID u)"
    and req: "UserUpd_Name req = []" "UserUpd_Email req = []" "UserUpd_Role req = UserRoleAdmin"
  shows "\<exists>resp d'. svc_UpdateUser now (User_ID u) req d = (Inr resp, d') \<and>
    tbl d' = (tbl d)\<lparr>users := map (\<lambda>q. if User_ID q = User_ID u then u\<lparr>User_Role := UserRoleAdmin, User_UpdatedAt := now\<rparr> else q)
      (users (tbl d))\<rparr>"
proof -
  define a where "a = u\<lparr>User_Role := UserRoleAdmin, User_UpdatedAt := now\<rparr>"
  have users: "distinct (map User_ID (users (tbl d)))" "distinct (map User_Email (users (tbl d)))"
    using assms(2) by (auto simp: wf_db_def wf_tables_def wf_users_def dest: ids_ok_distinct)
  have a: "(changed_user req u)\<lparr>User_UpdatedAt := now\<rparr> = a" "valid_role (User_Role a)" "User_Email a = User_Email u"
    by (simp_all add: a_def changed_user_def req valid_role_def UserRoleAdmin_def)
  have id: "User_ID u \<in> set (map User_ID (users (tbl d)))" using assms(3) by simp
  from UpdateUser_changed [OF assms(1,2,4), of now req, unfolded if_not_P [OF not_not [THEN iffD2, OF id]]]
  obtain r d' v where v: "svc_UpdateUser now (User_ID u) req d = (r, d')" "v \<in> set (users (tbl d))" "User_ID v = User_ID u"
    and k: "let u' = (changed_user req v)\<lparr>User_UpdatedAt := now\<rparr> in
        if \<not> valid_role (User_Role u') then r = Inl bad_role \<and> d' = d
        else if \<exists>q \<in> set (users (tbl d)). User_Email q = User_Email u' \<and> User_ID q \<noteq> User_ID u then r = Inl ErrDuplicatedKey \<and> d' = d
        else r = Inr (toUserResponse u') \<and>
          tbl d' = (tbl d)\<lparr>users := map (\<lambda>q. if User_ID q = User_ID u then u' else q) (users (tbl d))\<rparr>"
    by blast
  have "v = u" using distinct_map_eqD [OF users(1)] v(2,3) assms(3) by blast
  moreover have "\<not> (\<exists>q \<in> set (users (tbl d)). User_Email q = User_Email u \<and> User_ID q \<noteq> User_ID u)"
    using distinct_map_eqD [OF users(2)] assms(3) by blast
  ultimately show ?thesis using v(1) k a unfolding a_def [symmetric] Let_def by simp
qed

lemma user_route:
  assumes "rt \<in> set NewRouter" and "route_method rt = ''PUT''" and "route_path rt = ''/api/v1/users/:id''"
  shows "route_handler rt = H_UpdateUser" and "route_guards rt = [G_Metrics]"
proof -
  show "route_handler rt = H_UpdateUser"
    using assms by (auto simp: NewRouter_def registerAuthRoutes_def registerUserRoutes_def registerProductRoutes_def
        registerOrderRoutes_def gin_Handle_def gin_Group_def gin_Use_def Let_def)
  then show "route_guards rt = [G_Metrics]" using NewRouter_routes [OF assms(1)] by simp
qed

text \<open>
  C31. The user routes have no guard. A \<open>PUT\<close> on the route of any existing account whose body asks for the
  role admin makes that account an admin and is answered 200, whatever the headers of the request are;
  in particular it needs no token. Only that row changes, and in it only the role and the time.
\<close>

theorem promotion_without_token:
  assumes "gin_ok l" and "gin_match l NewRouter ''PUT'' path = Some (rt, ps)" and "route_path rt = ''/api/v1/users/:id''"
    and "u \<in> set (users (tbl (app_db (web_app w))))" and "ps ''id'' = Itoa (User_ID u)" and "int4 (User_ID u)"
    and "bind_UpdateUser l (ctx_body c) = Inr \<lparr>UserUpd_Name = [], UserUpd_Email = [], UserUpd_Role = UserRoleAdmin\<rparr>"
    and "replies (app_db (web_app w)) = []" and "wf_db (app_db (web_app w))"
  shows "\<exists>resp w'. serve l m x CreateOrder ''PUT'' path c w = (Inr resp, w') \<and> resp_status resp = 200 \<and>
    tbl (app_db (web_app w')) = (tbl (app_db (web_app w)))\<lparr>users := map (\<lambda>q. if User_ID q = User_ID u
      then u\<lparr>User_Role := UserRoleAdmin, User_UpdatedAt := draw_t1 x\<rparr> else q) (users (tbl (app_db (web_app w))))\<rparr>"
proof -
  have "rt \<in> set NewRouter" "route_method rt = ''PUT''" using assms(1,2) unfolding gin_ok_def by blast+
  note route = user_route [OF this assms(3)]
  have "in_int64 (User_ID u)" using assms(6) by (simp add: int4_def in_int64_def)
  then have id: "Atoi (ps ''id'') = Some (User_ID u)" using assms(5) Atoi_Itoa by simp
  obtain resp d' where run: "svc_UpdateUser (draw_t1 x) (User_ID u)
      \<lparr>UserUpd_Name = [], UserUpd_Email = [], UserUpd_Role = UserRoleAdmin\<rparr> (app_db (web_app w)) = (Inr resp, d')"
    "tbl d' = (tbl (app_db (web_app w)))\<lparr>users := map (\<lambda>q. if User_ID q = User_ID u
      then u\<lparr>User_Role := UserRoleAdmin, User_UpdatedAt := draw_t1 x\<rparr> else q) (users (tbl (app_db (web_app w))))\<rparr>"
    using promotion_run [OF assms(8,9,4,6), of "\<lparr>UserUpd_Name = [], UserUpd_Email = [], UserUpd_Role = UserRoleAdmin\<rparr>" "draw_t1 x"]
    by auto
  show ?thesis
    using assms(2,7) route id run
    by (simp add: serve_def h_UpdateUser_def with_id_def with_request_def reply_def on_app_def on_db_def bindE_def
        mw_Metrics_def Let_def ret_def gin_JSON_def)
qed

theorem promotion_without_token_witness:
  "ctx_header (sample_request []) ''Authorization'' = [] \<and>
   map User_Role (users (tbl (app_db (web_app sample_web)))) = [UserRoleCustomer, UserRoleAdmin] \<and>
   (\<exists>resp w'. serve sample_libs sample_manager sample_draws (\<lambda>_ _. raise ErrUserNotFound) ''PUT'' ''/api/v1/users/1''
      (sample_request []) sample_web = (Inr resp, w') \<and> resp_status resp = 200 \<and>
      map User_Role (users (tbl (app_db (web_app w')))) = [UserRoleAdmin, UserRoleAdmin])"
proof -
  let ?d = "app_db (web_app sample_web)" and ?u = "hd sample_users"
  have "map_option (\<lambda>(rt, ps). (route_path rt, ps ''id'')) (gin_match sample_libs NewRouter ''PUT'' ''/api/v1/users/1'')
      = Some (''/api/v1/users/:id'', ''1'')"
    by code_simp
  then obtain rt ps where rt: "gin_match sample_libs NewRouter ''PUT'' ''/api/v1/users/1'' = Some (rt, ps)"
    "route_path rt = ''/api/v1/users/:id''" "ps ''id'' = ''1''" by auto
  have db: "?d = sample_db" by (simp add: sample_web_def sample_app_def)
  have c: "?u \<in> set (users (tbl sample_db))" "Itoa (User_ID ?u) = ''1''" "int4 (User_ID ?u)"
    "map User_Role (users (tbl sample_db)) = [UserRoleCustomer, UserRoleAdmin]" "map User_ID (users (tbl sample_db)) = [1, 2]"
    "User_ID ?u = 1"
    by code_simp+
  have b: "bind_UpdateUser sample_libs (ctx_body (sample_request []))
      = Inr \<lparr>UserUpd_Name = [], UserUpd_Email = [], UserUpd_Role = UserRoleAdmin\<rparr>"
    by (simp add: sample_libs_def sample_promotion_def)
  obtain a b' where us: "users (tbl sample_db) = [a, b']" "User_ID a = 1" "User_ID b' = 2" "User_Role b' = UserRoleAdmin"
    using c(4,5) by (auto simp: map_eq_Cons_conv)
  from promotion_without_token [where w = sample_web and c = "sample_request []" and m = sample_manager and x = sample_draws
      and CreateOrder = "\<lambda>_ _. raise ErrUserNotFound" and u = ?u, OF gin_ok_sample rt(1,2), unfolded db, OF c(1) _ c(3) b replies_sample wf_sample]
    rt(3) c(2,4,6) us db
  show ?thesis by (auto simp: sample_request_def)
qed

end
