(* ===== verification/Spec2Isabelle.thy ===== *)
theory Spec2Isabelle
  imports OrderPlacing OrderDedup Fulfillment Sweeper Access
begin

text \<open>
  Verification of the order processing system (Go, \<open>src/\<close>).

  \<^bold>\<open>The program.\<close> An HTTP API (\<open>internal/api\<close>) over services (\<open>internal/services\<close>) over repositories
  (\<open>internal/repository\<close>) on PostgreSQL. \<open>OrderService.CreateOrder\<close> refuses a repeated cart with the help
  of a Redis key (\<open>internal/idempotency\<close>), reserves stock, stores the order with a pending payment and
  hands its id to the worker pool (\<open>internal/workers/pool.go\<close>). A worker calls \<open>Fulfiller.Fulfill\<close>, which
  charges the payment gateway (\<open>internal/payment\<close>) with retries, settles payment and order, and sends
  a notification, which the hub (\<open>internal/ws\<close>) fans out to the WebSocket clients that subscribed to the
  order. The sweeper (\<open>internal/workers/sweeper.go\<close>) queues again what was left pending.

  \<^bold>\<open>Style.\<close> A Go function that returns a value and an error and changes the world is a program
  \<open>'s \<Rightarrow> ('e + 'a) \<times> 's\<close> (\<open>Prelude\<close>: \<open>ret\<close>, \<open>raise\<close>, \<open>bindE\<close>, \<open>forE\<close>); \<open>Inl\<close> is the error, and a Go panic is
  the error \<open>GoPanic\<close>. Structs are records, enums datatypes, \<open>int\<close> is the type of integers with \<open>wrap64\<close>
  where a value can overflow, \<open>float64\<close> is the rational it denotes with the rounding \<open>fl\<close> after each
  operation, \<open>time.Time\<close> and \<open>time.Duration\<close> are nanoseconds. Nondeterminism (clock, random draws, the
  choice of a \<open>select\<close>, the order of a map iteration) is an argument, so a theorem holds for every choice.
  Goroutines are interleaved by inductive reachability relations.

  \<^bold>\<open>Theories, from the bottom up.\<close>

  \<^item> \<open>Prelude\<close>, \<open>Strconv\<close>, \<open>Float64\<close>, \<open>Sha256\<close>, \<open>Channel\<close>: programs with their Hoare rules, decimal
    conversion with its round trip, binary64 rounding with its error bound, SHA-256, buffered channels.
  \<^item> \<open>Models\<close>: the structs of \<open>internal/models\<close> and \<open>internal/dto\<close>, the errors of \<open>internal/apperrors\<close>.
  \<^item> \<open>Database\<close>, \<open>Schema\<close>: the tables of \<open>migrations/\<close> as lists of rows, identity sequences, statements and
    transactions of gorm, and a schedule of faults of the connection: a statement may fail, and the
    acknowledgement of a commit may be lost after its effect. \<open>wf_db\<close> is the invariant (keys, foreign
    keys, checks, and that an order and its payment agree on their status); \<open>units\<close> counts the units of a
    product in stock and in live orders; \<open>later\<close> says that orders and payments only move on.
  \<^item> \<open>OrderRepo\<close>, \<open>OrderLifecycle\<close>, \<open>OrderPlacing\<close>, \<open>OrderSettling\<close>: \<open>internal/repository/order.go\<close>. \<open>Sample\<close>
    is a small database for the examples.
  \<^item> \<open>ProductRepo\<close>, \<open>ProductService\<close>: products and inventory, repository and service.
  \<^item> \<open>Idempotency\<close>: the \<open>Store\<close> interface as the locale \<open>key_store\<close>; the Redis client as a parameter with the
    laws \<open>redis_client\<close> and \<open>redis_expiry\<close>, which \<open>sublocale\<close> connects to the interface.
  \<^item> \<open>Pool\<close>, \<open>Sweeper\<close>: the worker pool with its callers and workers interleaved, an abstract bounded queue
    that it refines, the locale \<open>processor\<close> for its callers; the sweep loop.
  \<^item> \<open>OrderService\<close>, \<open>OrderDedup\<close>: \<open>internal/services/order.go\<close> over any store and any processor.
  \<^item> \<open>Gateway\<close>, \<open>Charging\<close>: the \<open>Gateway\<close> interface as the locale \<open>payment_gateway\<close>, interpreted on
    \<open>fakeGateway\<close>; the retry loop and its pauses.
  \<^item> \<open>Hub\<close>, \<open>Notification\<close>: the event loop of the hub, the write pumps and the callers interleaved; the
    locale \<open>notifier\<close>; storing, pushing and replaying notifications.
  \<^item> \<open>Fulfillment\<close>: \<open>Fulfill\<close> over any gateway and notifier (locale \<open>fulfilling\<close>, interpreted on the fake
    gateway and the hub).
  \<^item> \<open>Users\<close>, \<open>Token\<close>: accounts, login and tokens; the JWT library is a parameter with the laws \<open>jwt_ok\<close>.
  \<^item> \<open>Middleware\<close>, \<open>Handlers\<close>, \<open>Config\<close>, \<open>Router\<close>, \<open>Access\<close>: the HTTP layer. Gin's routing and binding are
    parameters (\<open>libs\<close>, with the law \<open>gin_ok\<close>), viper is a parameter of \<open>Config\<close>.

  \<^bold>\<open>What is shown.\<close>

  \<^item> Orders: \<open>CreateOrder\<close> succeeds exactly when every line is in stock, is atomic under connection faults
    and never oversells (\<open>OrderPlacing\<close>); settling a payment happens at most once and a cancelled order
    returns exactly its units (\<open>OrderSettling\<close>); the service stores a cart at the stored prices, hands it
    over once, refuses a repeated one for five minutes and gives the key of a failed one back
    (\<open>OrderService\<close>, \<open>OrderDedup\<close>); equal keys mean equal carts up to a collision of SHA-256.
  \<^item> Products and users: what a create, an update and a list do to the rows and answer, on every branch.
  \<^item> Fulfilment: the retry loop ends and equals a reference definition, its pauses are bounded; a pending
    order is driven to its end; a paid payment has always been charged.
  \<^item> Notifications: the hub never panics apart from a replay, delivers in order, and what was sent is
    replayed.
  \<^item> Workers: the pool refines a bounded queue and drains when it is stopped; a sweep queues the stale
    orders again.
  \<^item> Access: tokens are accepted only with the own signature; what a request can change is bounded by its
    token.
  \<^item> Four defects are theorems for every configuration or state that has them: an update of a role
    without a token (\<open>Access\<close>), a confirmation without a charge (\<open>Fulfillment\<close>), a panic of \<open>Process\<close>
    after \<open>Stop\<close> (\<open>Pool\<close>), an overflow that the guard of \<open>backoff\<close> misses (\<open>Charging\<close>). A fifth, the panic
    of a replay to a dropped client (\<open>Hub\<close>), is shown by a reachable state.

  \<^bold>\<open>Termination and bounds.\<close> All definitions are total; there is no fuel. \<open>charge_loop\<close> recurses on the attempts
  that are left: \<open>attempt\<close> cannot overflow unless \<open>MaxRetries\<close> is the largest \<open>int\<close>. The pages of
  \<open>ListProducts\<close> are exact for page numbers up to \<open>2 ^ 56\<close>, where the offset cannot overflow.

  \<^bold>\<open>Not modelled.\<close> \<open>internal/server\<close> and \<open>cmd\<close> (wiring, listening, signals), opening connections and running
  migrations (\<open>pkg/database\<close>, \<open>pkg/redis\<close> beyond the addresses), the latency histogram, logging, the audit
  log model, which no code uses. Isolation between concurrent transactions is not modelled: a
  transaction is one step, as its row locks make the guarded updates serial. A request is one step in
  \<open>Handlers\<close>. Inserted structs have a zero primary key, times are not rounded to microseconds, rows with
  equal sort keys come in the order of the table, and \<open>fl\<close> has no largest exponent (values beyond it are
  refused by the \<open>NUMERIC(12,2)\<close> columns). Timing in the hub and the pool is left open: a tick or a
  return may happen at any time.
\<close>

end
